(* ===== verification/Prelude.thy ===== *)
theory Prelude
  imports Complex_Main "HOL-Library.Word" "HOL-Library.Multiset" "HOL-Library.List_Lexorder" "HOL-Library.Char_ord"
begin

text \<open>
  Shared ground of the development: what the sources use of JavaScript's numbers, dates and
  arrays, the fact collections of the library, and the list lemmas the components share.

  \<^item> An instant (a valid \<open>Date\<close>) is its time value, an \<^typ>\<open>int\<close> of milliseconds. A \<open>Date\<close>
    that arrives from outside may be invalid, which is \<open>NaN\<close> in JavaScript: \<open>js_date\<close>.
  \<^item> A fraction (a utilization, a jitter, a rendezvous score) is an exact \<^typ>\<open>rat\<close>. Every finite
    double is a rational; the rounding of double arithmetic is not modelled. Where the source
    tests \<open>Number.isFinite\<close> the value is a \<open>js_number\<close>.
  \<^item> Strings are lists of Latin-1 code units, compared code unit by code unit as \<open><\<close> does.
\<close>

section \<open>Fact collections\<close>

named_theorems record_defs \<open>operations unfolded together with the records they build\<close>
named_theorems enum_defs \<open>total tables over an enumeration\<close>

type_synonym instant = int
type_synonym account_id = string
type_synonym pool_id = string

section \<open>Numbers and dates\<close>

datatype js_number = NaN | PosInf | NegInf | Fin rat

datatype js_date = InvalidDate | Instant instant

text \<open>\<open>Math.round\<close>, \<open>Math.ceil\<close> of a quotient, the truncation \<open>new Date\<close> applies, and \<open>%\<close>.\<close>

definition js_round :: "rat \<Rightarrow> int" where
  "js_round x = \<lfloor>x + 1 / 2\<rfloor>"

definition js_trunc :: "rat \<Rightarrow> int" where
  "js_trunc x = (if 0 \<le> x then \<lfloor>x\<rfloor> else \<lceil>x\<rceil>)"

definition ceil_div :: "int \<Rightarrow> int \<Rightarrow> int" where
  "ceil_div a b = - ((- a) div b)"

definition js_rem :: "int \<Rightarrow> int \<Rightarrow> int" where
  "js_rem a b = sgn a * (\<bar>a\<bar> mod \<bar>b\<bar>)"

text \<open>The idiom \<open>((c % n) + n) % n\<close> is the mathematical remainder for a positive \<open>n\<close>.\<close>

lemma js_rem_nonneg: "0 \<le> a \<Longrightarrow> 0 < n \<Longrightarrow> js_rem a n = a mod n"
  by (cases "a = 0") (simp_all add: js_rem_def)

lemma js_rem_neg: "a < 0 \<Longrightarrow> js_rem a n = - ((- a) mod \<bar>n\<bar>)"
  by (simp add: js_rem_def)

lemma js_rem_wrap:
  assumes "0 < n"
  shows "js_rem (js_rem a n + n) n = a mod n"
proof (cases "0 \<le> a")
  case True
  then show ?thesis using assms by (simp add: js_rem_nonneg)
next
  case False
  then have r: "js_rem a n = - ((- a) mod n)" using assms by (simp add: js_rem_neg)
  have "0 \<le> n - (- a) mod n" using assms pos_mod_bound [of n "- a"] by linarith
  then have "js_rem (js_rem a n + n) n = (n - (- a) mod n) mod n"
    using assms r js_rem_nonneg [of "n - (- a) mod n" n] by simp
  also have "\<dots> = (- (- a)) mod n" by (simp add: mod_minus_eq)
  finally show ?thesis by simp
qed

lemma js_round_of_int [simp]: "js_round (of_int k) = k"
  by (simp add: js_round_def floor_add_int) (simp add: floor_unique)

lemma js_round_mono: "x \<le> y \<Longrightarrow> js_round x \<le> js_round y"
  by (simp add: js_round_def floor_mono)

lemma js_trunc_of_int [simp]: "js_trunc (of_int k) = k"
  by (simp add: js_trunc_def)

lemma js_trunc_le: "0 \<le> x \<Longrightarrow> of_int (js_trunc x) \<le> x"
  by (simp add: js_trunc_def)

lemma ceil_div_lower: "0 < b \<Longrightarrow> a \<le> b * ceil_div a b"
proof -
  assume "0 < b"
  then have "0 \<le> (- a) mod b" by simp
  moreover have "b * ((- a) div b) + (- a) mod b = - a" by (rule mult_div_mod_eq)
  ultimately have "b * ((- a) div b) \<le> - a" by linarith
  then show ?thesis by (simp add: ceil_div_def)
qed

section \<open>Lists\<close>

lemma filter_partition_mset:
  "mset (filter P xs @ filter (\<lambda>x. \<not> P x) xs) = mset xs"
  by (induction xs) auto

lemma distinct_map_mset: "mset xs = mset ys \<Longrightarrow> distinct (map f xs) = distinct (map f ys)"
  by (metis distinct_count_atmost_1 mset_map set_mset_mset)

lemma set_map_filter: "set (List.map_filter f xs) = {y. \<exists>x \<in> set xs. f x = Some y}"
  by (force simp: List.map_filter_def)

lemma find_SomeD: "find P xs = Some x \<Longrightarrow> x \<in> set xs \<and> P x"
  by (induction xs) (auto split: if_splits)

lemma find_None: "find P xs = None \<longleftrightarrow> (\<forall>x \<in> set xs. \<not> P x)"
  by (induction xs) auto

text \<open>\<open>[...new Set(xs)]\<close>: the first occurrence of each element, in order.\<close>

fun js_unique :: "'a list \<Rightarrow> 'a list" where
  "js_unique [] = []"
| "js_unique (x # xs) = x # filter (\<lambda>y. y \<noteq> x) (js_unique xs)"

lemma set_js_unique [simp]: "set (js_unique xs) = set xs"
  by (induction xs) auto

lemma distinct_js_unique [simp]: "distinct (js_unique xs)"
  by (induction xs) auto

lemma js_unique_distinct: "distinct xs \<Longrightarrow> js_unique xs = xs"
  by (induction xs) (auto intro!: filter_True)

text \<open>\<open>Array.prototype.findIndex\<close> and the move-to-front both \<open>hoist\<close> and \<open>pinBinding\<close> write.\<close>

fun find_index :: "('a \<Rightarrow> bool) \<Rightarrow> 'a list \<Rightarrow> nat option" where
  "find_index P [] = None"
| "find_index P (x # xs) = (if P x then Some 0 else map_option Suc (find_index P xs))"

definition move_to_front :: "('a \<Rightarrow> bool) \<Rightarrow> 'a list \<Rightarrow> 'a list" where
  "move_to_front P xs =
     (case find_index P xs of
        None \<Rightarrow> xs
      | Some i \<Rightarrow> (xs ! i) # take i xs @ drop (Suc i) xs)"

lemma find_index_None: "find_index P xs = None \<longleftrightarrow> (\<forall>x \<in> set xs. \<not> P x)"
  by (induction xs) auto

lemma find_index_Some:
  "find_index P xs = Some i \<Longrightarrow> i < length xs \<and> P (xs ! i) \<and> (\<forall>j < i. \<not> P (xs ! j))"
proof (induction xs arbitrary: i)
  case (Cons x xs)
  then show ?case by (auto split: if_splits simp: nth_Cons split: nat.splits)
qed simp

lemma move_to_front_mset [simp]: "mset (move_to_front P xs) = mset xs"
proof (cases "find_index P xs")
  case (Some i)
  then have "i < length xs" by (simp add: find_index_Some)
  then have "xs = take i xs @ xs ! i # drop (Suc i) xs" by (rule id_take_nth_drop)
  then have "mset xs = mset (take i xs @ xs ! i # drop (Suc i) xs)" by simp
  then show ?thesis using Some by (simp add: move_to_front_def)
qed (simp add: move_to_front_def)

lemma move_to_front_set [simp]: "set (move_to_front P xs) = set xs"
  by (metis move_to_front_mset set_mset_mset)

lemma move_to_front_head:
  assumes "\<exists>x \<in> set xs. P x"
  shows "\<exists>x rest. move_to_front P xs = x # rest \<and> P x"
proof -
  obtain i where "find_index P xs = Some i"
    using assms find_index_None [of P xs] by (cases "find_index P xs") auto
  then show ?thesis by (simp add: move_to_front_def find_index_Some)
qed

section \<open>Runs of a stateful component\<close>

text \<open>
  The contracts every stateful component is checked against: one function per event and an invariant
  the allowed events keep. A run is a list of events in the order they happen.
\<close>

locale kept_machine =
  fixes step :: "'e \<Rightarrow> 's \<Rightarrow> 's"
    and allowed :: "'e \<Rightarrow> bool"
    and inv :: "'s \<Rightarrow> bool"
  assumes step_kept: "allowed e \<Longrightarrow> inv s \<Longrightarrow> inv (step e s)"
begin

lemma run_kept: "list_all allowed es \<Longrightarrow> inv s \<Longrightarrow> inv (fold step es s)"
  by (induction es arbitrary: s) (simp_all add: step_kept)

end

text \<open>A machine whose invariant every event keeps, from its start state on.\<close>

locale invariant_machine =
  fixes start :: 's
    and step :: "'e \<Rightarrow> 's \<Rightarrow> 's"
    and inv :: "'s \<Rightarrow> bool"
  assumes start_inv: "inv start"
    and step_inv: "inv s \<Longrightarrow> inv (step e s)"

sublocale invariant_machine \<subseteq> every_event: kept_machine step "\<lambda>_. True" inv
  by unfold_locales (rule step_inv)

context invariant_machine
begin

lemma run_from_inv: "inv s \<Longrightarrow> inv (fold step es s)"
  by (rule every_event.run_kept) (simp_all add: list_all_iff)

lemma run_inv: "inv (fold step es start)"
  by (rule run_from_inv) (rule start_inv)

end

end
