(* ===== verification/Js_Text.thy ===== *)
theory Js_Text
  imports Prelude "HOL-Library.Sublist"
begin

text \<open>
  What the sources use of JavaScript's strings: decimal rendering, \<open>join\<close>, \<open>Date.toISOString\<close>, and
  the regular expressions of the model families. A pattern is compiled to a regular expression tree
  and matched by derivatives; \<open>re_matches_lang\<close> ties the matcher to the language of the tree.
\<close>

section \<open>Numbers as text\<close>

definition digit :: "nat \<Rightarrow> char" where
  "digit d = char_of (48 + d)"

fun show_nat :: "nat \<Rightarrow> string" where
  "show_nat n = (if n < 10 then [digit n] else show_nat (n div 10) @ [digit (n mod 10)])"

declare show_nat.simps [simp del]

definition pad_left :: "nat \<Rightarrow> string \<Rightarrow> string" where
  "pad_left w s = replicate (w - length s) CHR ''0'' @ s"

fun join :: "'a list \<Rightarrow> 'a list list \<Rightarrow> 'a list" where
  "join sep [] = []"
| "join sep [x] = x"
| "join sep (x # y # ys) = x @ sep @ join sep (y # ys)"

section \<open>Instants as text\<close>

text \<open>The proleptic Gregorian date of a day number (day 0 is 1970-01-01), as \<open>(year, month, day)\<close>.\<close>

definition civil_from_days :: "int \<Rightarrow> int \<times> int \<times> int" where
  "civil_from_days days =
     (let z = days + 719468;
          era = z div 146097;
          doe = z mod 146097;
          yoe = (doe - doe div 1460 + doe div 36524 - doe div 146096) div 365;
          doy = doe - (365 * yoe + yoe div 4 - yoe div 100);
          mp = (5 * doy + 2) div 153;
          d = doy - (153 * mp + 2) div 5 + 1;
          m = (if mp < 10 then mp + 3 else mp - 9);
          y = yoe + era * 400 + (if m \<le> 2 then 1 else 0)
      in (y, m, d))"

definition show_padded :: "nat \<Rightarrow> int \<Rightarrow> string" where
  "show_padded w n = pad_left w (show_nat (nat n))"

definition show_year :: "int \<Rightarrow> string" where
  "show_year y =
     (if 0 \<le> y \<and> y \<le> 9999 then show_padded 4 y
      else if y < 0 then ''-'' @ show_padded 6 (- y) else ''+'' @ show_padded 6 y)"

definition toISOString :: "instant \<Rightarrow> string" where
  "toISOString t =
     (let days = t div 86400000;
          ms = t mod 86400000;
          (y, m, d) = civil_from_days days
      in show_year y @ ''-'' @ show_padded 2 m @ ''-'' @ show_padded 2 d @ ''T''
           @ show_padded 2 (ms div 3600000) @ '':'' @ show_padded 2 (ms div 60000 mod 60) @ '':''
           @ show_padded 2 (ms div 1000 mod 60) @ ''.'' @ show_padded 3 (ms mod 1000) @ ''Z'')"

section \<open>JSON strings\<close>

text \<open>\<open>JSON.stringify\<close> of a string.\<close>

definition hex_digit :: "nat \<Rightarrow> char" where
  "hex_digit d = char_of (if d < 10 then 48 + d else 87 + d)"

definition json_char :: "char \<Rightarrow> string" where
  "json_char c =
     (let n = (of_char c :: nat)
      in if n = 34 then [CHR 0x5C, CHR 0x22]
         else if n = 92 then [CHR 0x5C, CHR 0x5C]
         else if n = 8 then [CHR 0x5C, CHR ''b'']
         else if n = 9 then [CHR 0x5C, CHR ''t'']
         else if n = 10 then [CHR 0x5C, CHR ''n'']
         else if n = 12 then [CHR 0x5C, CHR ''f'']
         else if n = 13 then [CHR 0x5C, CHR ''r'']
         else if n < 32 then [CHR 0x5C, CHR ''u'', CHR ''0'', CHR ''0'', hex_digit (n div 16), hex_digit (n mod 16)]
         else [c])"

definition json_string :: "string \<Rightarrow> string" where
  "json_string s = [CHR 0x22] @ concat (map json_char s) @ [CHR 0x22]"

section \<open>Regular expressions\<close>

datatype regex =
    REmpty
  | REps
  | RClass bool "char list" \<comment> \<open>a character class; \<open>True\<close>: negated\<close>
  | RSeq regex regex
  | RAlt regex regex
  | RStar regex

fun class_mem :: "bool \<Rightarrow> char list \<Rightarrow> char \<Rightarrow> bool" where
  "class_mem neg cs c = (if neg then c \<notin> set cs else c \<in> set cs)"

inductive in_lang :: "regex \<Rightarrow> string \<Rightarrow> bool" where
  lang_eps: "in_lang REps []"
| lang_class: "class_mem neg cs c \<Longrightarrow> in_lang (RClass neg cs) [c]"
| lang_seq: "in_lang r u \<Longrightarrow> in_lang s v \<Longrightarrow> in_lang (RSeq r s) (u @ v)"
| lang_alt1: "in_lang r u \<Longrightarrow> in_lang (RAlt r s) u"
| lang_alt2: "in_lang s u \<Longrightarrow> in_lang (RAlt r s) u"
| lang_star0: "in_lang (RStar r) []"
| lang_star: "in_lang r u \<Longrightarrow> in_lang (RStar r) v \<Longrightarrow> in_lang (RStar r) (u @ v)"

inductive_simps lang_empty_iff [simp]: "in_lang REmpty u"
inductive_simps lang_eps_iff [simp]: "in_lang REps u"
inductive_simps lang_class_iff [simp]: "in_lang (RClass neg cs) u"
inductive_simps lang_seq_iff: "in_lang (RSeq r s) u"
inductive_simps lang_alt_iff [simp]: "in_lang (RAlt r s) u"

fun nullable :: "regex \<Rightarrow> bool" where
  "nullable REmpty = False"
| "nullable REps = True"
| "nullable (RClass neg cs) = False"
| "nullable (RSeq r s) = (nullable r \<and> nullable s)"
| "nullable (RAlt r s) = (nullable r \<or> nullable s)"
| "nullable (RStar r) = True"

text \<open>The derivative, with the units of sequence and alternation cancelled as it is built.\<close>

fun mk_seq :: "regex \<Rightarrow> regex \<Rightarrow> regex" where
  "mk_seq REmpty s = REmpty"
| "mk_seq REps s = s"
| "mk_seq r s = RSeq r s"

fun mk_alt :: "regex \<Rightarrow> regex \<Rightarrow> regex" where
  "mk_alt REmpty s = s"
| "mk_alt r REmpty = r"
| "mk_alt r s = RAlt r s"

fun deriv :: "char \<Rightarrow> regex \<Rightarrow> regex" where
  "deriv c REmpty = REmpty"
| "deriv c REps = REmpty"
| "deriv c (RClass neg cs) = (if class_mem neg cs c then REps else REmpty)"
| "deriv c (RSeq r s) =
     (if nullable r then mk_alt (mk_seq (deriv c r) s) (deriv c s) else mk_seq (deriv c r) s)"
| "deriv c (RAlt r s) = mk_alt (deriv c r) (deriv c s)"
| "deriv c (RStar r) = mk_seq (deriv c r) (RStar r)"

fun re_matches :: "regex \<Rightarrow> string \<Rightarrow> bool" where
  "re_matches r [] = nullable r"
| "re_matches r (c # cs) = re_matches (deriv c r) cs"

lemma in_lang_mk_seq [simp]: "in_lang (mk_seq r s) u \<longleftrightarrow> in_lang (RSeq r s) u"
  by (cases r) (auto simp: lang_seq_iff)

lemma in_lang_mk_alt [simp]: "in_lang (mk_alt r s) u \<longleftrightarrow> in_lang (RAlt r s) u"
  by (cases r; cases s) auto

lemma nullable_iff: "nullable r \<longleftrightarrow> in_lang r []"
  by (induction r) (auto simp: lang_seq_iff intro: lang_star0)

lemma star_Cons:
  "in_lang (RStar r) (c # w) \<longleftrightarrow> (\<exists>u v. w = u @ v \<and> in_lang r (c # u) \<and> in_lang (RStar r) v)"
proof
  have "\<exists>u v. w = u @ v \<and> in_lang r (c # u) \<and> in_lang (RStar r) v"
    if "in_lang q x" "q = RStar r" "x = c # w" for q x
    using that
  proof (induction arbitrary: w rule: in_lang.induct)
    case (lang_star r' u v)
    then show ?case by (cases u) auto
  qed auto
  then show "in_lang (RStar r) (c # w) \<Longrightarrow> \<exists>u v. w = u @ v \<and> in_lang r (c # u) \<and> in_lang (RStar r) v"
    by blast
next
  assume "\<exists>u v. w = u @ v \<and> in_lang r (c # u) \<and> in_lang (RStar r) v"
  then show "in_lang (RStar r) (c # w)" by (metis append_Cons lang_star)
qed

lemma seq_Cons:
  "in_lang (RSeq r s) (c # w) \<longleftrightarrow>
     (\<exists>u v. w = u @ v \<and> in_lang r (c # u) \<and> in_lang s v) \<or> (in_lang r [] \<and> in_lang s (c # w))"
  by (auto simp: lang_seq_iff Cons_eq_append_conv)

lemma deriv_lang: "in_lang (deriv c r) w \<longleftrightarrow> in_lang r (c # w)"
proof (induction r arbitrary: w)
  case (RSeq r s)
  then show ?case
    by (auto simp: seq_Cons nullable_iff lang_seq_iff [of "deriv c r" s w])
next
  case (RStar r)
  then show ?case by (auto simp: star_Cons lang_seq_iff [of "deriv c r" "RStar r" w])
qed auto

lemma re_matches_lang: "re_matches r s \<longleftrightarrow> in_lang r s"
  by (induction s arbitrary: r) (simp_all add: nullable_iff deriv_lang)

text \<open>
  A \<open>RegExp\<close> without flags: a body with optional anchors. \<open>test\<close> looks for a match anywhere the
  anchors allow.
\<close>

record reg_exp =
  rx_start :: bool
  rx_body :: regex
  rx_end :: bool

definition RAny :: regex where
  "RAny = RStar (RClass True [])"

definition regex_of :: "reg_exp \<Rightarrow> regex" where
  "regex_of p =
     (let body = (if rx_end p then rx_body p else RSeq (rx_body p) RAny)
      in if rx_start p then body else RSeq RAny body)"

definition re_test :: "reg_exp \<Rightarrow> string \<Rightarrow> bool" where
  "re_test p s = re_matches (regex_of p) s"

text \<open>A literal, and the alternation of several.\<close>

fun RLit :: "string \<Rightarrow> regex" where
  "RLit [] = REps"
| "RLit (c # cs) = RSeq (RClass False [c]) (RLit cs)"

fun RAlts :: "regex list \<Rightarrow> regex" where
  "RAlts [] = REmpty"
| "RAlts (r # rs) = RAlt r (RAlts rs)"

lemma in_lang_lit [simp]: "in_lang (RLit w) u \<longleftrightarrow> u = w"
  by (induction w arbitrary: u) (auto simp: lang_seq_iff)

lemma in_lang_alts [simp]: "in_lang (RAlts rs) u \<longleftrightarrow> (\<exists>r \<in> set rs. in_lang r u)"
  by (induction rs) auto

lemma in_lang_any [simp]: "in_lang RAny u"
proof (induction u)
  case (Cons c u)
  have "in_lang (RClass True []) [c]" by simp
  then have "in_lang RAny ([c] @ u)" using Cons unfolding RAny_def by (rule lang_star)
  then show ?case by simp
qed (simp add: RAny_def lang_star0)

text \<open>\<open>/^literal/\<close> is a prefix test.\<close>

lemma re_test_prefix:
  "re_test \<lparr>rx_start = True, rx_body = RLit w, rx_end = False\<rparr> s \<longleftrightarrow> prefix w s"
  by (auto simp: re_test_def regex_of_def re_matches_lang lang_seq_iff prefix_def)

section \<open>Case\<close>

text \<open>The ASCII letters, which is what the \<open>i\<close> flag and \<open>toLowerCase\<close> change among the texts compared here.\<close>

definition lower_char :: "char \<Rightarrow> char" where
  "lower_char c = (if 65 \<le> (of_char c :: nat) \<and> (of_char c :: nat) \<le> 90 then char_of ((of_char c :: nat) + 32) else c)"

section \<open>White space\<close>

text \<open>\<open>\s\<close> among the Latin-1 code units.\<close>

definition WHITESPACE :: "char list" where
  "WHITESPACE = [CHR 0x09, CHR 0x0A, CHR 0x0B, CHR 0x0C, CHR 0x0D, CHR 0x20, CHR 0xA0]"

definition is_space :: "char \<Rightarrow> bool" where
  "is_space c \<longleftrightarrow> c \<in> set WHITESPACE"

text \<open>\<open>String.trim\<close>.\<close>

definition js_trim :: "string \<Rightarrow> string" where
  "js_trim s = rev (dropWhile is_space (rev (dropWhile is_space s)))"

lemma dropWhile_hd: "\<not> P (hd xs) \<Longrightarrow> dropWhile P xs = xs"
  by (cases xs) auto

lemma js_trim_nonspace: "s \<noteq> [] \<Longrightarrow> \<not> is_space (hd s) \<Longrightarrow> \<not> is_space (last s) \<Longrightarrow> js_trim s = s"
  by (simp add: js_trim_def dropWhile_hd hd_rev)

text \<open>\<open>r{n}\<close>.\<close>

primrec RTimes :: "nat \<Rightarrow> regex \<Rightarrow> regex" where
  "RTimes 0 r = REps"
| "RTimes (Suc n) r = RSeq r (RTimes n r)"

lemma in_lang_times_class:
  "in_lang (RTimes n (RClass False cs)) u \<longleftrightarrow> length u = n \<and> set u \<subseteq> set cs"
proof (induction n arbitrary: u)
  case (Suc n)
  then show ?case
  proof (cases u)
    case Nil
    then show ?thesis by (simp add: lang_seq_iff)
  next
    case (Cons c w)
    then show ?thesis using Suc by (auto simp: seq_Cons)
  qed
qed auto

end
