(* ===== verification/Domain.thy ===== *)
theory Domain
  imports Js_Text
begin

text \<open>
  The vocabulary of \<open>packages/core\<close>: account states, quota windows, policies, the error hierarchy
  with its HTTP statuses and walls, and the reset deadline every cooldown is built from.
\<close>

section \<open>Enumerations (\<open>domain/account.ts\<close>, \<open>domain/provider.ts\<close>, \<open>domain/routing.ts\<close>)\<close>

datatype account_status = Active | Disabled | CoolingDown | Exhausted | NeedsReauth

datatype quota_window_kind = FiveHour | SevenDay | SevenDayOpus | SevenDaySonnet | Overage

datatype utilization_source = Continuous | ThresholdTriggered | NoSignal

datatype reset_source = ProviderReported | Estimated | UnknownReset

datatype routing_policy = Sticky | RoundRobin | Weighted | LeastUsed | PriorityFailover | QuotaAware

datatype auth_kind = OAuth | ApiKey | NoAuth

datatype provider_id =
    AnthropicOAuth | AnthropicApi | OpenAiOAuth | OpenAiApi | OpenRouter | Zai | Kimi | Minimax
  | Gemini | Groq | DeepSeek | Xai | Mistral | Together | Cerebras | OpenCodeGo | Ollama
  | OpenAiCompatible | AnthropicCompatible

text \<open>A standing block needs somebody to act; only \<open>cooling_down\<close> is recovered by a clock alone.\<close>

definition isStandingBlock :: "account_status \<Rightarrow> bool" where
  "isStandingBlock s \<longleftrightarrow> s = Disabled \<or> s = Exhausted \<or> s = NeedsReauth"

definition DEFAULT_ROUTING_POLICY :: routing_policy where
  "DEFAULT_ROUTING_POLICY = Sticky"

fun QUOTA_WINDOW_SPAN_MS :: "quota_window_kind \<Rightarrow> int option" where
  "QUOTA_WINDOW_SPAN_MS FiveHour = Some (5 * 60 * 60 * 1000)"
| "QUOTA_WINDOW_SPAN_MS SevenDay = Some (7 * 24 * 60 * 60 * 1000)"
| "QUOTA_WINDOW_SPAN_MS SevenDayOpus = Some (7 * 24 * 60 * 60 * 1000)"
| "QUOTA_WINDOW_SPAN_MS SevenDaySonnet = Some (7 * 24 * 60 * 60 * 1000)"
| "QUOTA_WINDOW_SPAN_MS Overage = None"

section \<open>Quota windows\<close>

datatype evidence_state = EvCurrent | EvExpired | EvSupersededByRecovery

text \<open>
  \<open>QuotaWindowState\<close> with its durable evidence fields (\<open>QuotaEvidence\<close> of \<open>quota-evidence.ts\<close> adds
  none). An absent field is \<open>None\<close>.
\<close>

record quota_window =
  qw_window :: quota_window_kind
  qw_utilization :: "rat option"
  qw_utilizationSource :: utilization_source
  qw_resetsAt :: "instant option"
  qw_resetSource :: reset_source
  qw_lastCheckedAt :: instant
  qw_advisory :: "bool option"
  qw_revision :: "nat option"
  qw_evidenceState :: "evidence_state option"
  qw_blocksRouting :: "bool option"
  qw_retiredAt :: "instant option"

section \<open>The reset deadline (\<open>reset-deadline.ts\<close>)\<close>

definition DEFAULT_UNKNOWN_RESET_RETRY_AFTER_SECONDS :: int where
  "DEFAULT_UNKNOWN_RESET_RETRY_AFTER_SECONDS = 30"

definition MAX_TIME_VALUE :: rat where
  "MAX_TIME_VALUE = 8640000000000000"

text \<open>
  The later of the absolute and the relative constraint, among those that are finite, ahead of the
  clock and representable. \<open>new Date\<close> drops the fraction of a millisecond.
\<close>

definition latestResetDeadline :: "js_date option \<Rightarrow> js_number option \<Rightarrow> instant \<Rightarrow> instant option" where
  "latestResetDeadline resetsAt retryAfterSeconds now =
     (let absolute = (case resetsAt of Some (Instant t) \<Rightarrow> [of_int t] | _ \<Rightarrow> []);
          relative = (case retryAfterSeconds of
                        Some (Fin s) \<Rightarrow> (if 0 < s then [of_int now + s * 1000] else [])
                      | _ \<Rightarrow> []);
          deadlines = filter (\<lambda>v. of_int now < v \<and> v \<le> MAX_TIME_VALUE) (absolute @ relative)
      in case deadlines of
           [] \<Rightarrow> None
         | v # vs \<Rightarrow> Some (js_trunc (fold max vs v)))"

section \<open>Errors (\<open>errors.ts\<close>) and walls (\<open>wall.ts\<close>)\<close>

datatype router_error_code =
    NoHealthyAccount | QuotaExhausted | CreditsExhausted | ScopeViolation | KeyRevoked
  | KeyRateLimited | KeyVerificationUnavailable | AdminAuthFailed | CsrfTokenInvalid
  | UpstreamAuthFailed | UpstreamTimeout | UpstreamOverloaded | CredentialDecryptFailed
  | TranslationFailed | ModelNotFound | RequestTooLarge | InvalidRequest
  | UnsupportedContentEncoding

text \<open>One class, one code, one HTTP status.\<close>

fun status_of :: "router_error_code \<Rightarrow> nat" where
  "status_of NoHealthyAccount = 503"
| "status_of QuotaExhausted = 429"
| "status_of CreditsExhausted = 402"
| "status_of ScopeViolation = 403"
| "status_of KeyRevoked = 401"
| "status_of KeyRateLimited = 429"
| "status_of KeyVerificationUnavailable = 503"
| "status_of AdminAuthFailed = 401"
| "status_of CsrfTokenInvalid = 403"
| "status_of UpstreamAuthFailed = 502"
| "status_of UpstreamTimeout = 504"
| "status_of UpstreamOverloaded = 503"
| "status_of CredentialDecryptFailed = 500"
| "status_of TranslationFailed = 400"
| "status_of ModelNotFound = 404"
| "status_of RequestTooLarge = 413"
| "status_of InvalidRequest = 400"
| "status_of UnsupportedContentEncoding = 415"

datatype wall = ClockWall | CapacityWall | HumanWall | ScopeWall | RequestWall | InternalWall

datatype wall_scope = PoolScope | AccountScope | SessionScope | KeyWallScope | RequestScope | RouterScope

fun WALL_OF :: "router_error_code \<Rightarrow> wall \<times> wall_scope" where
  "WALL_OF NoHealthyAccount = (CapacityWall, PoolScope)"
| "WALL_OF QuotaExhausted = (ClockWall, PoolScope)"
| "WALL_OF CreditsExhausted = (HumanWall, PoolScope)"
| "WALL_OF ScopeViolation = (ScopeWall, KeyWallScope)"
| "WALL_OF KeyRevoked = (HumanWall, KeyWallScope)"
| "WALL_OF KeyRateLimited = (ClockWall, KeyWallScope)"
| "WALL_OF KeyVerificationUnavailable = (CapacityWall, RouterScope)"
| "WALL_OF AdminAuthFailed = (RequestWall, RequestScope)"
| "WALL_OF CsrfTokenInvalid = (RequestWall, RequestScope)"
| "WALL_OF UpstreamAuthFailed = (HumanWall, AccountScope)"
| "WALL_OF UpstreamTimeout = (CapacityWall, AccountScope)"
| "WALL_OF UpstreamOverloaded = (ClockWall, PoolScope)"
| "WALL_OF CredentialDecryptFailed = (HumanWall, AccountScope)"
| "WALL_OF TranslationFailed = (RequestWall, RequestScope)"
| "WALL_OF ModelNotFound = (ScopeWall, KeyWallScope)"
| "WALL_OF RequestTooLarge = (RequestWall, RequestScope)"
| "WALL_OF InvalidRequest = (RequestWall, RequestScope)"
| "WALL_OF UnsupportedContentEncoding = (RequestWall, RequestScope)"

definition wallOf :: "router_error_code \<Rightarrow> wall" where
  "wallOf c = fst (WALL_OF c)"

definition defaultWallScope :: "router_error_code \<Rightarrow> wall_scope" where
  "defaultWallScope c = snd (WALL_OF c)"

definition isRetryableWall :: "wall \<Rightarrow> bool" where
  "isRetryableWall w \<longleftrightarrow> w = ClockWall \<or> w = CapacityWall"

text \<open>One account a verdict names: \<open>(id, state, resetsAt)\<close>.\<close>

record walled_account =
  wa_accountId :: account_id
  wa_state :: string
  wa_resetsAt :: "instant option"

record router_error_detail =
  ed_scope :: "wall_scope option"
  ed_signal :: "string option"
  ed_resetSource :: "reset_source option"
  ed_accounts :: "walled_account list option"
  ed_pools :: "string list option"

definition NO_DETAIL :: router_error_detail where
  "NO_DETAIL = \<lparr>ed_scope = None, ed_signal = None, ed_resetSource = None, ed_accounts = None, ed_pools = None\<rparr>"

text \<open>
  A thrown error: its class (by code), message and detail, with the fields the retryable classes and
  \<open>NoHealthyAccountError\<close> add.
\<close>

record router_error =
  re_code :: router_error_code
  re_message :: string
  re_detail :: router_error_detail
  re_retryAfterSeconds :: "int option"
  re_resetsAt :: "instant option"
  re_wall :: wall

definition NoHealthyAccountError :: "string \<Rightarrow> wall option \<Rightarrow> router_error_detail \<Rightarrow> router_error" where
  "NoHealthyAccountError message w detail =
     \<lparr>re_code = NoHealthyAccount, re_message = message, re_detail = detail,
      re_retryAfterSeconds = None, re_resetsAt = None,
      re_wall = (case w of None \<Rightarrow> CapacityWall | Some x \<Rightarrow> x)\<rparr>"

definition QuotaExhaustedError ::
  "string \<Rightarrow> int option \<Rightarrow> instant option \<Rightarrow> router_error_detail \<Rightarrow> router_error" where
  "QuotaExhaustedError message retryAfter resetsAt detail =
     \<lparr>re_code = QuotaExhausted, re_message = message, re_detail = detail,
      re_retryAfterSeconds = retryAfter, re_resetsAt = resetsAt, re_wall = wallOf QuotaExhausted\<rparr>"

definition CreditsExhaustedError :: "string \<Rightarrow> router_error_detail \<Rightarrow> router_error" where
  "CreditsExhaustedError message detail =
     \<lparr>re_code = CreditsExhausted, re_message = message, re_detail = detail,
      re_retryAfterSeconds = None, re_resetsAt = None, re_wall = wallOf CreditsExhausted\<rparr>"

definition ScopeViolationError :: "string \<Rightarrow> router_error_detail \<Rightarrow> router_error" where
  "ScopeViolationError message detail =
     \<lparr>re_code = ScopeViolation, re_message = message, re_detail = detail,
      re_retryAfterSeconds = None, re_resetsAt = None, re_wall = wallOf ScopeViolation\<rparr>"

definition KeyRateLimitedError :: "string \<Rightarrow> int \<Rightarrow> router_error" where
  "KeyRateLimitedError message retryAfter =
     \<lparr>re_code = KeyRateLimited, re_message = message, re_detail = NO_DETAIL,
      re_retryAfterSeconds = Some retryAfter, re_resetsAt = None, re_wall = wallOf KeyRateLimited\<rparr>"

lemmas error_class_defs [record_defs] =
  NoHealthyAccountError_def QuotaExhaustedError_def CreditsExhaustedError_def ScopeViolationError_def
  KeyRateLimitedError_def

section \<open>Facts\<close>

lemma latestResetDeadline_None:
  "latestResetDeadline None None now = None"
  by (simp add: latestResetDeadline_def)

lemma fold_max_ge: "v \<le> fold max vs (v :: rat)"
  by (induction vs arbitrary: v) (auto, meson max.cobounded2 order_trans)

lemma fold_max_in: "fold max vs v \<in> insert (v :: rat) (set vs)"
proof (induction vs arbitrary: v)
  case (Cons a vs)
  have "fold max vs (max a v) \<in> insert (max a v) (set vs)" by (rule Cons.IH)
  moreover have "max a v \<in> {a, v}" by (simp add: max_def)
  ultimately show ?case by auto
qed simp

text \<open>The deadline is representable and never behind the clock.\<close>

lemma latestResetDeadline_bounds:
  assumes "latestResetDeadline r s now = Some d" and "0 \<le> now"
  shows "now \<le> d \<and> of_int d \<le> MAX_TIME_VALUE"
proof -
  define ds where "ds = filter (\<lambda>v. of_int now < v \<and> v \<le> MAX_TIME_VALUE)
     ((case r of Some (Instant t) \<Rightarrow> [of_int t] | _ \<Rightarrow> []) @
      (case s of Some (Fin s) \<Rightarrow> (if 0 < s then [of_int now + s * 1000] else []) | _ \<Rightarrow> []))"
  have "(case ds of [] \<Rightarrow> None | v # vs \<Rightarrow> Some (js_trunc (fold max vs v))) = Some d"
    using assms(1) by (simp add: latestResetDeadline_def ds_def Let_def)
  then obtain v vs where ds: "ds = v # vs" and vs: "d = js_trunc (fold max vs v)"
    by (auto split: list.splits)
  have range: "of_int now < x \<and> x \<le> MAX_TIME_VALUE" if "x \<in> insert v (set vs)" for x
  proof -
    have "x \<in> set ds" using that ds by simp
    then show ?thesis unfolding ds_def by auto
  qed
  let ?m = "fold max vs v"
  have m: "of_int now < ?m" "?m \<le> MAX_TIME_VALUE" using range [OF fold_max_in] by simp_all
  have "0 \<le> ?m" using m(1) assms(2) by (meson le_less_trans less_imp_le of_int_0_le_iff)
  then have "d = \<lfloor>?m\<rfloor>" using vs by (simp add: js_trunc_def)
  then show ?thesis using m by (simp add: le_floor_iff) (meson of_int_floor_le order_trans)
qed

end
