(* ===== verification/Routing_Types.thy ===== *)
theory Routing_Types
  imports Domain
begin

text \<open>
  The inputs (\<open>services/routing/types.ts\<close>) and outputs (\<open>services/routing/result.ts\<close>) of account
  selection, and the failure a finished attempt reports (\<open>failover.ts\<close>). Interfaces are records, unions
  are datatypes; an optional field is an \<open>option\<close>, except the flags the code only ever compares
  with \<open>true\<close>, which are \<open>bool\<close>.
\<close>

section \<open>Inputs\<close>

datatype cooldown_reason = CredentialRejected

record limiter_reading =
  lr_resetsAt :: "instant option"
  lr_limiter :: string
  lr_utilization :: "rat option"
  lr_utilizationSource :: utilization_source

record account_health =
  ah_cooldownUntil :: "instant option"
  ah_cooldownSource :: "reset_source option"
  ah_cooldownReason :: "cooldown_reason option"
  ah_consecutiveFailures :: nat
  ah_probeHeldUntil :: "instant option"
  ah_inFlight :: nat
  ah_recentTokens :: nat

datatype recovery_state = Pending | Issued | Succeeded | Failed | Uncertain | Cancelled

record recovery_snapshot =
  rs_localAvailable :: bool
  rs_retryAt :: "instant option"
  rs_revision :: nat
  rs_generation :: string
  rs_lifecycleVersion :: nat
  rs_state :: recovery_state
  rs_nextAllowedAt :: instant
  rs_quotaRevisions :: "(quota_window_kind \<times> nat) list"

text \<open>
  An alias map lists its entries in the object's own key order; a stored value that is not a string
  is \<open>None\<close>.
\<close>

record account_snapshot =
  acc_recovery :: "recovery_snapshot option"
  acc_id :: account_id
  acc_label :: string
  acc_provider :: provider_id
  acc_status :: account_status
  acc_weight :: int
  acc_priority :: int
  acc_supportedModels :: "string list option"
  acc_modelFamily :: "reg_exp list option"
  acc_understandsContextTags :: bool
  acc_modelAliases :: "(string \<times> string option) list option"
  acc_quotaWindows :: "quota_window list option"
  acc_limiterWindows :: "limiter_reading list option"
  acc_health :: account_health

record pool_membership =
  pm_accountId :: account_id
  pm_weight :: "int option"
  pm_priority :: "int option"

record pool_snapshot =
  pool_id :: pool_id
  pool_name :: string
  pool_policy :: routing_policy
  pool_members :: "pool_membership list"
  pool_overflowAccountId :: "account_id option"
  pool_rotationCounter :: "int option"

datatype key_scope = ScopeAll | ScopePools "pool_id list" | ScopeAccounts "account_id list"

record session_binding =
  sb_accountId :: account_id
  sb_sdkSessionId :: "string option"

record selection_request =
  rq_sessionKey :: string
  rq_model :: string
  rq_keyScope :: key_scope
  rq_binding :: "session_binding option"
  rq_rotationCounter :: "int option"

record routing_snapshot =
  rt_accounts :: "account_snapshot list"
  rt_pools :: "pool_snapshot list"
  rt_now :: instant

datatype least_used_measure = InFlight | RecentTokens

datatype bound_cooldown_behavior = FailBound | RebindBound

record selection_options =
  so_unpooledPolicy :: "routing_policy option"
  so_leastUsedMeasure :: "least_used_measure option"
  so_quotaSpentThreshold :: "rat option"
  so_boundAccountCoolingDown :: "bound_cooldown_behavior option"
  so_carryBoundSessions :: bool
  so_unknownResetRetryAfterSeconds :: "int option"

definition NO_OPTIONS :: selection_options where
  "NO_OPTIONS =
     \<lparr>so_unpooledPolicy = None, so_leastUsedMeasure = None, so_quotaSpentThreshold = None,
      so_boundAccountCoolingDown = None, so_carryBoundSessions = False,
      so_unknownResetRetryAfterSeconds = None\<rparr>"

record scoped_account =
  sa_account :: account_snapshot
  sa_poolId :: "pool_id option"
  sa_weight :: int
  sa_priority :: int
  sa_order :: nat

record candidate = scoped_account +
  cd_upstreamModel :: string
  cd_halfOpen :: bool
  cd_recoveryPermit :: bool
  cd_aliased :: bool

abbreviation sa_id :: "'a scoped_account_scheme \<Rightarrow> account_id" where
  "sa_id m \<equiv> acc_id (sa_account m)"

record scope_group =
  sg_poolId :: "pool_id option"
  sg_poolName :: "string option"
  sg_policy :: routing_policy
  sg_rotationCounter :: int
  sg_members :: "scoped_account list"
  sg_overflow :: "scoped_account option"

section \<open>Outputs\<close>

datatype filter_reason =
    FDisabled | FNeedsReauth | FExhausted | FCoolingDown | FCredentialRejected | FProbeInFlight
  | FQuotaWindowSpent | FModelUnsupported

definition RECOVERABLE_FILTER_REASONS :: "filter_reason list" where
  "RECOVERABLE_FILTER_REASONS = [FCoolingDown, FProbeInFlight, FQuotaWindowSpent]"

definition isRecoverableFilterReason :: "filter_reason \<Rightarrow> bool" where
  "isRecoverableFilterReason r \<longleftrightarrow> r \<in> set RECOVERABLE_FILTER_REASONS"

lemma isRecoverable_simps [simp]:
  "isRecoverableFilterReason FCoolingDown" "isRecoverableFilterReason FProbeInFlight"
  "isRecoverableFilterReason FQuotaWindowSpent" "\<not> isRecoverableFilterReason FDisabled"
  "\<not> isRecoverableFilterReason FNeedsReauth" "\<not> isRecoverableFilterReason FExhausted"
  "\<not> isRecoverableFilterReason FCredentialRejected" "\<not> isRecoverableFilterReason FModelUnsupported"
  by (simp_all add: isRecoverableFilterReason_def RECOVERABLE_FILTER_REASONS_def)

record rejected_candidate =
  rj_accountId :: account_id
  rj_label :: string
  rj_reason :: filter_reason
  rj_resetsAt :: "instant option"
  rj_resetSource :: "reset_source option"
  rj_window :: "quota_window_kind option"

datatype policy_note =
    BindingPinned account_id
  | HalfOpenDemoted "account_id list"
  | AffinityKept account_id
  | RecoveryPromoted "account_id list"
  | AliasedDeferred "account_id list"
  | OverflowEngaged account_id
  | WeightsAbsent "account_id list"
  | PolicyDegraded routing_policy routing_policy "account_id list"
  | QuotaRanked "account_id list" "account_id list"

text \<open>The source names one string per reason; \<open>invalidationFor\<close> is the identity on filter reasons.\<close>

datatype binding_invalidation_reason = AccountMissing | OutOfScope | DroppedFor filter_reason

datatype binding_decision =
    NoBinding
  | Honored account_id
  | Blocked account_id filter_reason "instant option" "reset_source option"
  | Invalidated account_id binding_invalidation_reason

record scope_diagnostics =
  sd_scope :: key_scope
  sd_inScopeAccountIds :: "account_id list"
  sd_unresolvedTargetIds :: "string list"

record group_decision =
  gd_poolId :: "pool_id option"
  gd_poolName :: "string option"
  gd_policy :: routing_policy
  gd_ordered :: "account_id list"
  gd_notes :: "policy_note list"

record selection_decision =
  dn_scope :: scope_diagnostics
  dn_groups :: "group_decision list"
  dn_rejected :: "rejected_candidate list"
  dn_binding :: binding_decision
  dn_usedOverflow :: bool

datatype selection_result =
    SelectionSuccess "candidate list" selection_decision
  | SelectionFailure router_error selection_decision

section \<open>Failures\<close>

datatype failure_kind =
    RateLimited | CreditsDrained | ServerError | Connection | Timeout | AuthFailure | ClientError
  | ModelUnsupported | StaleSession | BusySession | Overloaded

record attempt_failure =
  af_kind :: failure_kind
  af_status :: "nat option"
  af_resetsAt :: "js_date option"
  af_retryAfterSeconds :: "js_number option"
  af_resetSource :: "reset_source option"
  af_message :: string

end
