(* ===== verification/Breaker.thy ===== *)
theory Breaker
  imports Routing_Types
begin

text \<open>
  The circuit breaker: \<open>backoff.ts\<close>, \<open>credential-rejection.ts\<close> and \<open>breaker.ts\<close> of
  \<open>services/routing\<close>. A state is a record, a transition a function of the state, the failure, the
  clock and the options.
\<close>

section \<open>Backoff (\<open>backoff.ts\<close>)\<close>

record breaker_options =
  bo_baseBackoffMs :: "int option"
  bo_maxBackoffMs :: "int option"
  bo_failureThreshold :: "nat option"
  bo_recoveryProbe :: bool
  bo_jitter :: "js_number option"
  bo_authKind :: "auth_kind option"
  bo_authFailureCooldownMs :: "int option"
  bo_authFailureMaxCooldownMs :: "int option"

definition NO_BREAKER_OPTIONS :: breaker_options where
  "NO_BREAKER_OPTIONS =
     \<lparr>bo_baseBackoffMs = None, bo_maxBackoffMs = None, bo_failureThreshold = None,
      bo_recoveryProbe = False, bo_jitter = None, bo_authKind = None,
      bo_authFailureCooldownMs = None, bo_authFailureMaxCooldownMs = None\<rparr>"

definition or_default :: "'a option \<Rightarrow> 'a \<Rightarrow> 'a" where
  "or_default x d = (case x of None \<Rightarrow> d | Some v \<Rightarrow> v)"

lemma or_default_simps [simp]: "or_default None d = d" "or_default (Some v) d = v"
  by (simp_all add: or_default_def)

definition DEFAULT_BASE_BACKOFF_MS :: int where "DEFAULT_BASE_BACKOFF_MS = 1000"
definition DEFAULT_MAX_BACKOFF_MS :: int where "DEFAULT_MAX_BACKOFF_MS = 300000"
definition JITTER_FRACTION :: rat where "JITTER_FRACTION = 1 / 5"

fun clampJitter :: "js_number \<Rightarrow> rat" where
  "clampJitter (Fin v) = min (max v 0) 1"
| "clampJitter _ = 0"

text \<open>
  The number of failures is a natural number, so \<open>Math.max(0, n - 1)\<close> is \<open>n - 1\<close>. The doubling
  saturates: past the cap the exact product and the double's infinity both yield the cap.
\<close>

definition backoffMs :: "nat \<Rightarrow> breaker_options \<Rightarrow> int" where
  "backoffMs consecutiveFailures opts =
     (let base = or_default (bo_baseBackoffMs opts) DEFAULT_BASE_BACKOFF_MS;
          cap = or_default (bo_maxBackoffMs opts) DEFAULT_MAX_BACKOFF_MS;
          steps = consecutiveFailures - 1;
          capped = min (base * 2 ^ steps) cap;
          jitter = clampJitter (or_default (bo_jitter opts) (Fin 0))
      in js_round (of_int capped * (1 + JITTER_FRACTION * jitter)))"

definition reportedReset :: "attempt_failure \<Rightarrow> instant \<Rightarrow> instant option" where
  "reportedReset failure now = latestResetDeadline (af_resetsAt failure) (af_retryAfterSeconds failure) now"

section \<open>States (\<open>breaker.ts\<close>)\<close>

record breaker_state =
  bs_status :: account_status
  bs_cooldownUntil :: "instant option"
  bs_cooldownSource :: reset_source
  bs_cooldownReason :: "cooldown_reason option"
  bs_consecutiveFailures :: nat

definition HEALTHY :: breaker_state where
  "HEALTHY =
     \<lparr>bs_status = Active, bs_cooldownUntil = None, bs_cooldownSource = UnknownReset,
      bs_cooldownReason = None, bs_consecutiveFailures = 0\<rparr>"

datatype auth_failure_landing = LandNeedsReauth | LandCredentialRejected

fun AUTH_FAILURE_LANDING :: "auth_kind \<Rightarrow> auth_failure_landing" where
  "AUTH_FAILURE_LANDING OAuth = LandNeedsReauth"
| "AUTH_FAILURE_LANDING ApiKey = LandCredentialRejected"
| "AUTH_FAILURE_LANDING NoAuth = LandCredentialRejected"

definition DEFAULT_FAILURE_THRESHOLD :: nat where "DEFAULT_FAILURE_THRESHOLD = 3"

datatype breaker_phase = Closed | Open | HalfOpen | BlockedPhase

definition phase :: "breaker_state \<Rightarrow> instant \<Rightarrow> breaker_phase" where
  "phase s now =
     (if bs_status s = Exhausted \<or> bs_status s = NeedsReauth then BlockedPhase
      else if bs_status s = Disabled then BlockedPhase
      else if bs_status s \<noteq> CoolingDown then Closed
      else case bs_cooldownUntil s of
             None \<Rightarrow> Open
           | Some until \<Rightarrow> if until > now then Open else HalfOpen)"

section \<open>Credential rejection (\<open>credential-rejection.ts\<close>)\<close>

definition DEFAULT_AUTH_FAILURE_COOLDOWN_MS :: int where
  "DEFAULT_AUTH_FAILURE_COOLDOWN_MS = 15 * 60000"

definition DEFAULT_AUTH_FAILURE_MAX_COOLDOWN_MS :: int where
  "DEFAULT_AUTH_FAILURE_MAX_COOLDOWN_MS = 4 * 60 * 60000"

definition refusalStands :: "breaker_state \<Rightarrow> instant \<Rightarrow> bool" where
  "refusalStands s now \<longleftrightarrow>
     bs_cooldownReason s = Some CredentialRejected \<and>
     (case bs_cooldownUntil s of None \<Rightarrow> False | Some until \<Rightarrow> until > now)"

definition rejectCredential :: "breaker_state \<Rightarrow> instant \<Rightarrow> breaker_options \<Rightarrow> breaker_state" where
  "rejectCredential s now opts =
     (if refusalStands s now then s
      else
        let base = or_default (bo_authFailureCooldownMs opts) DEFAULT_AUTH_FAILURE_COOLDOWN_MS;
            cap = max base (or_default (bo_authFailureMaxCooldownMs opts) DEFAULT_AUTH_FAILURE_MAX_COOLDOWN_MS);
            labeled = (bs_cooldownReason s = Some CredentialRejected);
            refusals = (if labeled then bs_consecutiveFailures s else 0) + 1;
            waitMs = backoffMs refusals
              (NO_BREAKER_OPTIONS\<lparr>bo_baseBackoffMs := Some base, bo_maxBackoffMs := Some cap,
                 bo_jitter := Some (or_default (bo_jitter opts) (Fin 0))\<rparr>);
            until = now + waitMs;
            existing = (if bs_status s = CoolingDown then bs_cooldownUntil s else None);
            longer = (case existing of None \<Rightarrow> False | Some e \<Rightarrow> e \<ge> until)
        in \<lparr>bs_status = CoolingDown,
            bs_cooldownUntil = (if longer then existing else Some until),
            bs_cooldownSource = (if longer then bs_cooldownSource s else Estimated),
            bs_cooldownReason = Some CredentialRejected,
            bs_consecutiveFailures = refusals\<rparr>)"

text \<open>A limiter reading may push a standing refusal's re-test out; it moves nothing else.\<close>

definition lengthenRefusal :: "breaker_state \<Rightarrow> attempt_failure \<Rightarrow> instant \<Rightarrow> breaker_state" where
  "lengthenRefusal s reading now =
     (case (reportedReset reading now, bs_cooldownUntil s) of
        (Some reset, Some standing) \<Rightarrow>
          if standing \<ge> reset then s
          else s\<lparr>bs_cooldownUntil := Some reset,
                 bs_cooldownSource := or_default (af_resetSource reading) ProviderReported\<rparr>
      | _ \<Rightarrow> s)"

section \<open>Transitions (\<open>breaker.ts\<close>)\<close>

definition trip ::
  "breaker_state \<Rightarrow> attempt_failure \<Rightarrow> instant \<Rightarrow> breaker_options \<Rightarrow> nat \<Rightarrow> breaker_state" where
  "trip s failure now opts failures =
     (let reported = reportedReset failure now;
          until = (case reported of Some r \<Rightarrow> r | None \<Rightarrow> now + backoffMs failures opts);
          source = (case reported of
                      None \<Rightarrow> Estimated
                    | Some _ \<Rightarrow> or_default (af_resetSource failure) ProviderReported);
          existing = (if bs_status s = CoolingDown then bs_cooldownUntil s else None)
      in case existing of
           Some e \<Rightarrow>
             if e \<ge> until
             then \<lparr>bs_status = CoolingDown, bs_cooldownUntil = Some e,
                   bs_cooldownSource = bs_cooldownSource s, bs_cooldownReason = None,
                   bs_consecutiveFailures = failures\<rparr>
             else \<lparr>bs_status = CoolingDown, bs_cooldownUntil = Some until, bs_cooldownSource = source,
                   bs_cooldownReason = None, bs_consecutiveFailures = failures\<rparr>
         | None \<Rightarrow> \<lparr>bs_status = CoolingDown, bs_cooldownUntil = Some until, bs_cooldownSource = source,
                   bs_cooldownReason = None, bs_consecutiveFailures = failures\<rparr>)"

text \<open>\<open>credits-exhausted\<close> and a refused token: a standing block with no instant.\<close>

definition park :: "account_status \<Rightarrow> breaker_state \<Rightarrow> breaker_state" where
  "park status s =
     \<lparr>bs_status = status, bs_cooldownUntil = None, bs_cooldownSource = UnknownReset,
      bs_cooldownReason = None, bs_consecutiveFailures = bs_consecutiveFailures s + 1\<rparr>"

text \<open>The \<open>default\<close> branch: server errors, connection failures and timeouts.\<close>

definition strike :: "breaker_state \<Rightarrow> attempt_failure \<Rightarrow> instant \<Rightarrow> breaker_options \<Rightarrow> breaker_state" where
  "strike s failure now opts =
     (if refusalStands s now then s
      else
        let failures = bs_consecutiveFailures s + 1
        in if \<not> bo_recoveryProbe opts \<and> phase s now \<noteq> HalfOpen
              \<and> failures < or_default (bo_failureThreshold opts) DEFAULT_FAILURE_THRESHOLD
           then s\<lparr>bs_consecutiveFailures := failures\<rparr>
           else trip s failure now opts failures)"

definition recordFailure ::
  "breaker_state \<Rightarrow> attempt_failure \<Rightarrow> instant \<Rightarrow> breaker_options \<Rightarrow> breaker_state" where
  "recordFailure s failure now opts =
     (case af_kind failure of
        ClientError \<Rightarrow> s
      | StaleSession \<Rightarrow> s
      | BusySession \<Rightarrow> s
      | ModelUnsupported \<Rightarrow> s
      | Overloaded \<Rightarrow> s
      | CreditsDrained \<Rightarrow> park Exhausted s
      | AuthFailure \<Rightarrow>
          (case bo_authKind opts of
             None \<Rightarrow> park NeedsReauth s
           | Some k \<Rightarrow>
               if AUTH_FAILURE_LANDING k = LandNeedsReauth then park NeedsReauth s
               else rejectCredential s now opts)
      | RateLimited \<Rightarrow>
          if refusalStands s now then s
          else trip s failure now opts (bs_consecutiveFailures s + 1)
      | ServerError \<Rightarrow> strike s failure now opts
      | Connection \<Rightarrow> strike s failure now opts
      | Timeout \<Rightarrow> strike s failure now opts)"

definition recordSuccess :: breaker_state where
  "recordSuccess = HEALTHY"

section \<open>Backoff bounds\<close>

lemma clampJitter_range: "0 \<le> clampJitter j \<and> clampJitter j \<le> 1"
  by (cases j) auto

lemma jitter_factor: "1 \<le> 1 + JITTER_FRACTION * clampJitter j \<and> 1 + JITTER_FRACTION * clampJitter j \<le> 6 / 5"
  using clampJitter_range [of j] by (simp add: JITTER_FRACTION_def)

definition backoff_step :: "nat \<Rightarrow> breaker_options \<Rightarrow> int" where
  "backoff_step n opts =
     min (or_default (bo_baseBackoffMs opts) DEFAULT_BASE_BACKOFF_MS * 2 ^ (n - 1))
         (or_default (bo_maxBackoffMs opts) DEFAULT_MAX_BACKOFF_MS)"

lemma backoffMs_step:
  "backoffMs n opts =
     js_round (of_int (backoff_step n opts) *
       (1 + JITTER_FRACTION * clampJitter (or_default (bo_jitter opts) (Fin 0))))"
  by (simp add: backoffMs_def backoff_step_def Let_def)

lemma backoffMs_ge_step:
  assumes "0 \<le> backoff_step n opts"
  shows "backoff_step n opts \<le> backoffMs n opts"
proof -
  let ?f = "1 + JITTER_FRACTION * clampJitter (or_default (bo_jitter opts) (Fin 0))"
  have "of_int (backoff_step n opts) * 1 \<le> of_int (backoff_step n opts) * ?f"
    using assms jitter_factor by (intro mult_left_mono) simp_all
  then have "js_round (of_int (backoff_step n opts)) \<le> backoffMs n opts"
    unfolding backoffMs_step by (intro js_round_mono) simp
  then show ?thesis by simp
qed

lemma backoffMs_le_cap:
  assumes "0 \<le> backoff_step n opts"
  shows "backoffMs n opts \<le>
     js_round (of_int (or_default (bo_maxBackoffMs opts) DEFAULT_MAX_BACKOFF_MS) * (6 / 5))"
proof -
  let ?f = "1 + JITTER_FRACTION * clampJitter (or_default (bo_jitter opts) (Fin 0))"
  have "backoff_step n opts \<le> or_default (bo_maxBackoffMs opts) DEFAULT_MAX_BACKOFF_MS"
    by (simp add: backoff_step_def)
  then have "of_int (backoff_step n opts) * ?f
      \<le> of_int (or_default (bo_maxBackoffMs opts) DEFAULT_MAX_BACKOFF_MS) * (6 / 5)"
    using assms jitter_factor [of "or_default (bo_jitter opts) (Fin 0)"]
    by (intro mult_mono) simp_all
  then show ?thesis unfolding backoffMs_step by (rule js_round_mono)
qed

lemma backoff_step_nonneg:
  assumes "0 \<le> or_default (bo_baseBackoffMs opts) DEFAULT_BASE_BACKOFF_MS"
    and "0 \<le> or_default (bo_maxBackoffMs opts) DEFAULT_MAX_BACKOFF_MS"
  shows "0 \<le> backoff_step n opts"
  using assms by (simp add: backoff_step_def)

lemma backoff_step_mono:
  assumes "0 \<le> or_default (bo_baseBackoffMs opts) DEFAULT_BASE_BACKOFF_MS" and "m \<le> n"
  shows "backoff_step m opts \<le> backoff_step n opts"
proof -
  have "m - 1 \<le> n - 1" using assms(2) by simp
  then have "(2 :: int) ^ (m - 1) \<le> 2 ^ (n - 1)" by (rule power_increasing) simp
  then have "or_default (bo_baseBackoffMs opts) DEFAULT_BASE_BACKOFF_MS * 2 ^ (m - 1)
    \<le> or_default (bo_baseBackoffMs opts) DEFAULT_BASE_BACKOFF_MS * 2 ^ (n - 1)"
    using assms(1) by (rule mult_left_mono)
  then show ?thesis by (simp add: backoff_step_def min.coboundedI1)
qed

lemma backoffMs_mono:
  assumes "0 \<le> or_default (bo_baseBackoffMs opts) DEFAULT_BASE_BACKOFF_MS" and "m \<le> n"
  shows "backoffMs m opts \<le> backoffMs n opts"
proof -
  let ?f = "1 + JITTER_FRACTION * clampJitter (or_default (bo_jitter opts) (Fin 0))"
  have "0 \<le> ?f" using jitter_factor [of "or_default (bo_jitter opts) (Fin 0)"] by linarith
  moreover have "(of_int (backoff_step m opts) :: rat) \<le> of_int (backoff_step n opts)"
    using backoff_step_mono [OF assms] by simp
  ultimately have "of_int (backoff_step m opts) * ?f \<le> of_int (backoff_step n opts) * ?f"
    by (rule mult_right_mono [rotated])
  then show ?thesis unfolding backoffMs_step by (rule js_round_mono)
qed

section \<open>The breaker as a machine\<close>

datatype breaker_event =
    FailAt attempt_failure instant breaker_options
  | SucceedAt
  | LengthenAt attempt_failure instant

fun breaker_step :: "breaker_event \<Rightarrow> breaker_state \<Rightarrow> breaker_state" where
  "breaker_step (FailAt f now opts) s = recordFailure s f now opts"
| "breaker_step SucceedAt s = recordSuccess"
| "breaker_step (LengthenAt r now) s = lengthenRefusal s r now"

text \<open>An instant stands exactly on a cooldown, and a label only on one.\<close>

definition breaker_ok :: "breaker_state \<Rightarrow> bool" where
  "breaker_ok s \<longleftrightarrow>
     (bs_cooldownUntil s \<noteq> None \<longleftrightarrow> bs_status s = CoolingDown) \<and>
     (bs_cooldownReason s \<noteq> None \<longrightarrow> bs_status s = CoolingDown)"

lemma trip_cooling [simp]: "bs_status (trip s f now opts n) = CoolingDown"
  by (auto simp: trip_def Let_def split: option.splits)

lemma trip_ok: "breaker_ok (trip s f now opts n)"
  by (auto simp: trip_def Let_def breaker_ok_def split: option.splits)

lemma park_status [simp]: "bs_status (park st s) = st"
  by (simp add: park_def)

lemma park_ok: "st \<noteq> CoolingDown \<Longrightarrow> breaker_ok (park st s)"
  by (simp add: park_def breaker_ok_def)

lemma rejectCredential_ok: "breaker_ok s \<Longrightarrow> breaker_ok (rejectCredential s now opts)"
  by (auto simp: rejectCredential_def Let_def breaker_ok_def split: option.splits)

lemma strike_ok: "breaker_ok s \<Longrightarrow> breaker_ok (strike s f now opts)"
  using trip_ok by (auto simp: strike_def Let_def breaker_ok_def)

lemma recordFailure_ok: "breaker_ok s \<Longrightarrow> breaker_ok (recordFailure s f now opts)"
  by (auto simp: recordFailure_def trip_ok park_ok rejectCredential_ok strike_ok
      split: failure_kind.splits option.splits)

lemma lengthenRefusal_ok: "breaker_ok s \<Longrightarrow> breaker_ok (lengthenRefusal s r now)"
  by (auto simp: lengthenRefusal_def breaker_ok_def split: option.splits)

lemma HEALTHY_ok: "breaker_ok HEALTHY"
  by (simp add: HEALTHY_def breaker_ok_def)

interpretation breaker: invariant_machine HEALTHY breaker_step breaker_ok
proof
  show "breaker_ok HEALTHY" by (rule HEALTHY_ok)
  show "breaker_ok (breaker_step e s)" if "breaker_ok s" for e s
    using that
    by (cases e) (auto simp: recordFailure_ok lengthenRefusal_ok recordSuccess_def HEALTHY_ok)
qed

lemma phase_blocked: "phase s now = BlockedPhase \<longleftrightarrow> isStandingBlock (bs_status s)"
  by (cases "bs_status s") (auto simp: phase_def isStandingBlock_def split: option.splits)

text \<open>
  (C7) Whatever failures, successes and limiter readings arrive, in whatever order and at whatever
  clock values, a breaker that started healthy keeps the two states apart: a standing block
  (\<open>exhausted\<close>, \<open>needs_reauth\<close>) carries no reset instant and is \<open>blocked\<close> at every clock value,
  a cooldown always carries one and comes back to a probe at it, and the \<open>credential-rejected\<close>
  label stands only on a cooldown.
\<close>

theorem breaker_states_never_conflated:
  "let s = fold breaker_step es HEALTHY in
     (if isStandingBlock (bs_status s)
      then bs_cooldownUntil s = None \<and> bs_cooldownReason s = None \<and> (\<forall>t. phase s t = BlockedPhase)
      else if bs_status s = CoolingDown
      then (\<exists>u. bs_cooldownUntil s = Some u \<and> (\<forall>t. phase s t = (if t < u then Open else HalfOpen)))
      else bs_cooldownUntil s = None \<and> bs_cooldownReason s = None \<and> (\<forall>t. phase s t = Closed))"
proof -
  define s where "s = fold breaker_step es HEALTHY"
  have ok: "breaker_ok s" unfolding s_def by (rule breaker.run_inv)
  show ?thesis unfolding s_def [symmetric] Let_def
    by (cases "bs_status s") (use ok in \<open>auto simp: breaker_ok_def phase_def isStandingBlock_def\<close>)
qed

section \<open>Cooldowns\<close>

lemma trip_extends:
  assumes "bs_status s = CoolingDown" "bs_cooldownUntil s = Some e"
  shows "\<exists>e'. bs_cooldownUntil (trip s f now opts n) = Some e' \<and> e \<le> e'"
  using assms by (auto simp: trip_def Let_def)

lemma rejectCredential_extends:
  assumes "bs_status s = CoolingDown" "bs_cooldownUntil s = Some e"
  shows "\<exists>e'. bs_cooldownUntil (rejectCredential s now opts) = Some e' \<and> e \<le> e'"
  using assms by (auto simp: rejectCredential_def Let_def)

lemma strike_extends:
  assumes "bs_status s = CoolingDown" "bs_cooldownUntil s = Some e"
  shows "\<exists>e'. bs_cooldownUntil (strike s f now opts) = Some e' \<and> e \<le> e'"
  using assms trip_extends [OF assms] by (auto simp: strike_def Let_def)

lemma lengthenRefusal_extends:
  assumes "bs_cooldownUntil s = Some e"
  shows "\<exists>e'. bs_cooldownUntil (lengthenRefusal s r now) = Some e' \<and> e \<le> e'"
  using assms by (auto simp: lengthenRefusal_def split: option.splits)

text \<open>
  (C33) Two concurrent failures cannot un-learn the longer reset: while an account is cooling down,
  a further failure, whatever its kind, clock and options, either parks it for a human or leaves it
  cooling down until an instant that is no earlier.
\<close>

theorem cooldown_never_shortened:
  assumes "bs_status s = CoolingDown" "bs_cooldownUntil s = Some e"
  shows "isStandingBlock (bs_status (recordFailure s f now opts)) \<or>
         (bs_status (recordFailure s f now opts) = CoolingDown \<and>
          (\<exists>e'. bs_cooldownUntil (recordFailure s f now opts) = Some e' \<and> e \<le> e'))"
proof -
  have "bs_status (rejectCredential s now opts) = CoolingDown"
    "bs_status (strike s f now opts) = CoolingDown"
    using assms by (auto simp: rejectCredential_def strike_def Let_def)
  then show ?thesis
    using assms trip_extends [OF assms] rejectCredential_extends [OF assms] strike_extends [OF assms]
    by (cases "af_kind f")
      (auto simp: recordFailure_def isStandingBlock_def split: option.splits)
qed

theorem cooldown_never_shortened_witness:
  "let s = \<lparr>bs_status = CoolingDown, bs_cooldownUntil = Some 9000, bs_cooldownSource = Estimated,
            bs_cooldownReason = None, bs_consecutiveFailures = 1\<rparr>;
       f = \<lparr>af_kind = RateLimited, af_status = Some 429, af_resetsAt = None,
            af_retryAfterSeconds = Some (Fin 2), af_resetSource = None, af_message = []\<rparr>;
       s' = recordFailure s f 1000 NO_BREAKER_OPTIONS
   in bs_cooldownUntil s' = Some 9000 \<and>
      (isStandingBlock (bs_status s') \<or>
       (bs_status s' = CoolingDown \<and> (\<exists>e'. bs_cooldownUntil s' = Some e' \<and> 9000 \<le> e')))"
proof -
  define s :: breaker_state where "s = \<lparr>bs_status = CoolingDown, bs_cooldownUntil = Some 9000,
    bs_cooldownSource = Estimated, bs_cooldownReason = None, bs_consecutiveFailures = 1\<rparr>"
  define f :: attempt_failure where "f = \<lparr>af_kind = RateLimited, af_status = Some 429, af_resetsAt = None,
    af_retryAfterSeconds = Some (Fin 2), af_resetSource = None, af_message = []\<rparr>"
  have "bs_cooldownUntil (recordFailure s f 1000 NO_BREAKER_OPTIONS) = Some 9000"
    unfolding s_def f_def by code_simp
  then show ?thesis
    using cooldown_never_shortened [of s 9000 f 1000 NO_BREAKER_OPTIONS]
    by (simp add: s_def [symmetric] f_def [symmetric] Let_def) (simp add: s_def)
qed

text \<open>
  One refusal is one incident. While the cooldown of a refused key is running, a further
  verdict changes neither its count, its label nor its instant, unless it is a drained balance or
  an authentication failure on an account whose credential can be re-authorized.
\<close>

theorem refusal_absorbs_siblings:
  assumes "refusalStands s now" and "af_kind f \<noteq> CreditsDrained"
    and "af_kind f = AuthFailure \<Longrightarrow> bo_authKind opts = Some ApiKey \<or> bo_authKind opts = Some NoAuth"
  shows "recordFailure s f now opts = s"
  using assms
  by (cases "af_kind f") (auto simp: recordFailure_def strike_def rejectCredential_def)

theorem refusal_absorbs_siblings_witness:
  "let s = \<lparr>bs_status = CoolingDown, bs_cooldownUntil = Some 900000, bs_cooldownSource = Estimated,
            bs_cooldownReason = Some CredentialRejected, bs_consecutiveFailures = 1\<rparr>;
       f = \<lparr>af_kind = AuthFailure, af_status = Some 403, af_resetsAt = None,
            af_retryAfterSeconds = None, af_resetSource = None, af_message = []\<rparr>
   in recordFailure s f 5 (NO_BREAKER_OPTIONS\<lparr>bo_authKind := Some ApiKey\<rparr>) = s"
  unfolding Let_def
  by (rule refusal_absorbs_siblings) (simp_all add: refusalStands_def NO_BREAKER_OPTIONS_def)

section \<open>The failure threshold\<close>

definition strikes :: "failure_kind \<Rightarrow> bool" where
  "strikes k \<longleftrightarrow> k = ServerError \<or> k = Connection \<or> k = Timeout"

lemma recordFailure_strike: "strikes (af_kind f) \<Longrightarrow> recordFailure s f now opts = strike s f now opts"
  by (auto simp: strikes_def recordFailure_def)

lemma not_standing_unlabeled: "bs_cooldownReason s = None \<Longrightarrow> \<not> refusalStands s now"
  by (simp add: refusalStands_def)

lemma strike_active:
  assumes "bs_status s = Active" "bs_cooldownReason s = None" "\<not> bo_recoveryProbe opts"
  shows "strike s f now opts =
    (if bs_consecutiveFailures s + 1 < or_default (bo_failureThreshold opts) DEFAULT_FAILURE_THRESHOLD
     then s\<lparr>bs_consecutiveFailures := bs_consecutiveFailures s + 1\<rparr>
     else trip s f now opts (bs_consecutiveFailures s + 1))"
  using assms by (simp add: strike_def not_standing_unlabeled phase_def Let_def)

lemma trip_unlabeled: "bs_cooldownReason (trip s f now opts n) = None"
  by (auto simp: trip_def Let_def split: option.splits)

lemma strike_cooling:
  assumes "bs_status s = CoolingDown" "bs_cooldownReason s = None"
  shows "bs_status (strike s f now opts) = CoolingDown \<and> bs_cooldownReason (strike s f now opts) = None"
  using assms by (auto simp: strike_def Let_def trip_unlabeled)

definition strike_run :: "breaker_options \<Rightarrow> (attempt_failure \<times> instant) list \<Rightarrow> breaker_state" where
  "strike_run opts fs = foldl (\<lambda>s (f, t). recordFailure s f t opts) HEALTHY fs"

lemma strike_run_state:
  assumes "\<And>f t. (f, t) \<in> set fs \<Longrightarrow> strikes (af_kind f)" and "\<not> bo_recoveryProbe opts"
  defines "k \<equiv> max 1 (or_default (bo_failureThreshold opts) DEFAULT_FAILURE_THRESHOLD)"
  shows "if length fs < k
         then strike_run opts fs = HEALTHY\<lparr>bs_consecutiveFailures := length fs\<rparr>
         else bs_status (strike_run opts fs) = CoolingDown \<and> bs_cooldownReason (strike_run opts fs) = None"
  using assms(1)
proof (induction fs rule: rev_induct)
  case Nil
  then show ?case by (simp add: strike_run_def k_def HEALTHY_def)
next
  case (snoc x fs)
  obtain f t where x: "x = (f, t)" by (cases x)
  have step: "strike_run opts (fs @ [x]) = strike (strike_run opts fs) f t opts"
    using snoc.prems [of f t] by (simp add: strike_run_def x recordFailure_strike)
  have IH: "if length fs < k
         then strike_run opts fs = HEALTHY\<lparr>bs_consecutiveFailures := length fs\<rparr>
         else bs_status (strike_run opts fs) = CoolingDown \<and> bs_cooldownReason (strike_run opts fs) = None"
    by (rule snoc.IH) (rule snoc.prems, auto)
  show ?case
  proof (cases "length fs < k")
    case True
    then have "strike_run opts fs = HEALTHY\<lparr>bs_consecutiveFailures := length fs\<rparr>" using IH by simp
    then show ?thesis
      using step assms(2) True by (auto simp: strike_active HEALTHY_def trip_unlabeled k_def)
  next
    case False
    then show ?thesis using IH step strike_cooling by simp
  qed
qed

text \<open>
  The breaker trips on the configured failure, not before and not after: from a healthy
  account, a run of server errors, connection failures and timeouts at any clock values leaves it
  eligible with the streak counted while the run is shorter than the threshold, and cooling down
  from the threshold on.
\<close>

theorem breaker_trips_at_threshold:
  assumes "\<And>f t. (f, t) \<in> set fs \<Longrightarrow> strikes (af_kind f)" and "\<not> bo_recoveryProbe opts"
    and "0 < or_default (bo_failureThreshold opts) DEFAULT_FAILURE_THRESHOLD"
  shows "if length fs < or_default (bo_failureThreshold opts) DEFAULT_FAILURE_THRESHOLD
         then phase (strike_run opts fs) now = Closed \<and>
              bs_consecutiveFailures (strike_run opts fs) = length fs
         else bs_status (strike_run opts fs) = CoolingDown"
  using strike_run_state [OF assms(1,2)] assms(3)
  by (auto simp: max_def phase_def HEALTHY_def Suc_le_eq split: if_splits)

theorem breaker_trips_at_threshold_witness:
  "let f = \<lparr>af_kind = ServerError, af_status = Some 500, af_resetsAt = None,
            af_retryAfterSeconds = None, af_resetSource = None, af_message = []\<rparr>
   in phase (strike_run NO_BREAKER_OPTIONS [(f, 1), (f, 2)]) 7 = Closed \<and>
      bs_status (strike_run NO_BREAKER_OPTIONS [(f, 1), (f, 2), (f, 3)]) = CoolingDown"
proof -
  define f :: attempt_failure where "f = \<lparr>af_kind = ServerError, af_status = Some 500, af_resetsAt = None,
    af_retryAfterSeconds = None, af_resetSource = None, af_message = []\<rparr>"
  have k: "strikes (af_kind f)" by (simp add: f_def strikes_def)
  have o: "\<not> bo_recoveryProbe NO_BREAKER_OPTIONS"
    "or_default (bo_failureThreshold NO_BREAKER_OPTIONS) DEFAULT_FAILURE_THRESHOLD = 3"
    by (simp_all add: NO_BREAKER_OPTIONS_def DEFAULT_FAILURE_THRESHOLD_def)
  show ?thesis
    using breaker_trips_at_threshold [of "[(f, 1), (f, 2)]" NO_BREAKER_OPTIONS 7]
      breaker_trips_at_threshold [of "[(f, 1), (f, 2), (f, 3)]" NO_BREAKER_OPTIONS 7] k o
    by (auto simp: f_def [symmetric] Let_def)
qed

text \<open>
  A failed probe takes the account out again at once: where the failure names no reset, a
  rate limit, and a strike while the breaker is half-open, leave it cooling down for at least the
  backoff step of its streak and at most the configured cap widened by the jitter.
\<close>

theorem failed_probe_reopens:
  assumes "phase s now = HalfOpen" and "bs_cooldownReason s = None"
    and "af_kind f = RateLimited \<or> strikes (af_kind f)" and "reportedReset f now = None"
    and "0 < or_default (bo_baseBackoffMs opts) DEFAULT_BASE_BACKOFF_MS"
    and "0 < or_default (bo_maxBackoffMs opts) DEFAULT_MAX_BACKOFF_MS"
  shows "phase (recordFailure s f now opts) now = Open \<and>
    (\<exists>u. bs_cooldownUntil (recordFailure s f now opts) = Some u \<and>
       now + backoff_step (bs_consecutiveFailures s + 1) opts \<le> u \<and>
       u \<le> now + js_round (of_int (or_default (bo_maxBackoffMs opts) DEFAULT_MAX_BACKOFF_MS) * (6 / 5)))"
proof -
  let ?n = "bs_consecutiveFailures s + 1"
  have cool: "bs_status s = CoolingDown" and until: "\<exists>u. bs_cooldownUntil s = Some u \<and> u \<le> now"
    using assms(1) by (auto simp: phase_def split: if_splits option.splits)
  have rec: "recordFailure s f now opts = trip s f now opts ?n"
    using assms(1-3) by (auto simp: recordFailure_def strike_def strikes_def not_standing_unlabeled Let_def)
  have pos: "0 < backoff_step ?n opts" using assms(5,6) by (simp add: backoff_step_def)
  then have "0 < backoffMs ?n opts" using backoffMs_ge_step [of ?n opts] by linarith
  then have u: "bs_cooldownUntil (trip s f now opts ?n) = Some (now + backoffMs ?n opts)"
    using cool until assms(4) by (auto simp: trip_def Let_def)
  show ?thesis
    using rec u pos backoffMs_ge_step [of ?n opts] backoffMs_le_cap [of ?n opts] \<open>0 < backoffMs ?n opts\<close>
    by (auto simp: phase_def)
qed

theorem failed_probe_reopens_witness:
  "let s = \<lparr>bs_status = CoolingDown, bs_cooldownUntil = Some 4000, bs_cooldownSource = Estimated,
            bs_cooldownReason = None, bs_consecutiveFailures = 3\<rparr>;
       f = \<lparr>af_kind = Timeout, af_status = None, af_resetsAt = None,
            af_retryAfterSeconds = None, af_resetSource = None, af_message = []\<rparr>;
       s' = recordFailure s f 5000 NO_BREAKER_OPTIONS
   in phase s' 5000 = Open \<and> bs_cooldownUntil s' = Some 13000"
proof -
  define s :: breaker_state where "s = \<lparr>bs_status = CoolingDown, bs_cooldownUntil = Some 4000,
    bs_cooldownSource = Estimated, bs_cooldownReason = None, bs_consecutiveFailures = 3\<rparr>"
  define f :: attempt_failure where "f = \<lparr>af_kind = Timeout, af_status = None, af_resetsAt = None,
    af_retryAfterSeconds = None, af_resetSource = None, af_message = []\<rparr>"
  have h: "phase s 5000 = HalfOpen" "reportedReset f 5000 = None"
    unfolding s_def f_def by code_simp+
  have "bs_cooldownUntil (recordFailure s f 5000 NO_BREAKER_OPTIONS) = Some 13000"
    unfolding s_def f_def by code_simp
  then show ?thesis
    using failed_probe_reopens [OF h(1) _ _ h(2), of NO_BREAKER_OPTIONS]
    by (simp add: s_def [symmetric] f_def [symmetric] Let_def)
      (simp add: s_def f_def strikes_def NO_BREAKER_OPTIONS_def DEFAULT_BASE_BACKOFF_MS_def DEFAULT_MAX_BACKOFF_MS_def)
qed

text \<open>
  A reset below one millisecond is an elapsed deadline. The provider's \<open>Retry-After\<close> of half a
  millisecond (\<open>retry-after-ms: 0.5\<close>) passes the test that it lies ahead of the clock and then loses
  its fraction, so the rate-limited account is half-open at the very instant it was refused, where
  the same refusal without the header excludes it for a second.
\<close>

theorem submillisecond_reset_is_elapsed:
  "let f = \<lparr>af_kind = RateLimited, af_status = Some 429, af_resetsAt = None,
            af_retryAfterSeconds = Some (Fin (1 / 2000)), af_resetSource = None, af_message = []\<rparr>
   in latestResetDeadline None (Some (Fin (1 / 2000))) 1700000000000 = Some 1700000000000 \<and>
      phase (recordFailure HEALTHY f 1700000000000 NO_BREAKER_OPTIONS) 1700000000000 = HalfOpen \<and>
      phase (recordFailure HEALTHY (f\<lparr>af_retryAfterSeconds := None\<rparr>) 1700000000000 NO_BREAKER_OPTIONS)
        1700000000999 = Open"
  by code_simp

end
