(* ===== verification/Js_Map.thy ===== *)
theory Js_Map
  imports Prelude
begin

text \<open>
  JavaScript's \<open>Map\<close>: entries in insertion order. \<open>set\<close> on a present key keeps its position, on an
  absent one appends; \<open>delete\<close> removes. The caches, the limiter, the health store and the recovery
  queues keep their state in such maps and depend on the order (the first key is the oldest one).

  The interface is the locale \<open>keyed_store\<close>; the clients' lemmas about entry counts and lookups
  are proved from its laws.
\<close>

type_synonym ('k, 'v) js_map = "('k \<times> 'v) list"

definition map_get :: "('k, 'v) js_map \<Rightarrow> 'k \<Rightarrow> 'v option" where
  "map_get m k = map_of m k"

fun map_set :: "'k \<Rightarrow> 'v \<Rightarrow> ('k, 'v) js_map \<Rightarrow> ('k, 'v) js_map" where
  "map_set k v [] = [(k, v)]"
| "map_set k v ((k', v') # m) = (if k' = k then (k, v) # m else (k', v') # map_set k v m)"

definition map_delete :: "'k \<Rightarrow> ('k, 'v) js_map \<Rightarrow> ('k, 'v) js_map" where
  "map_delete k m = filter (\<lambda>e. fst e \<noteq> k) m"

definition map_has :: "'k \<Rightarrow> ('k, 'v) js_map \<Rightarrow> bool" where
  "map_has k m \<longleftrightarrow> k \<in> fst ` set m"

definition map_size :: "('k, 'v) js_map \<Rightarrow> nat" where
  "map_size m = length m"

definition map_keys :: "('k, 'v) js_map \<Rightarrow> 'k list" where
  "map_keys m = map fst m"

definition map_values :: "('k, 'v) js_map \<Rightarrow> 'v list" where
  "map_values m = map snd m"

text \<open>\<open>new Map(entries)\<close>: entries set one after the other.\<close>

definition map_from :: "('k \<times> 'v) list \<Rightarrow> ('k, 'v) js_map" where
  "map_from es = fold (\<lambda>(k, v) m. map_set k v m) es []"

text \<open>The representation invariant: one entry per key.\<close>

definition map_ok :: "('k, 'v) js_map \<Rightarrow> bool" where
  "map_ok m \<longleftrightarrow> distinct (map fst m)"

section \<open>Laws\<close>

lemma map_ok_Nil [simp]: "map_ok []"
  by (simp add: map_ok_def)

lemma map_get_Nil [simp]: "map_get [] k = None"
  by (simp add: map_get_def)

lemma map_get_set [simp]: "map_get (map_set k v m) k' = (if k' = k then Some v else map_get m k')"
  by (induction k v m rule: map_set.induct) (auto simp: map_get_def)

lemma map_get_delete [simp]: "map_get (map_delete k m) k' = (if k' = k then None else map_get m k')"
  by (induction m) (auto simp: map_get_def map_delete_def)

lemma keys_set: "fst ` set (map_set k v m) = insert k (fst ` set m)"
  by (induction k v m rule: map_set.induct) auto

lemma keys_delete: "fst ` set (map_delete k m) = fst ` set m - {k}"
  by (auto simp: map_delete_def)

lemma map_ok_set [simp]: "map_ok m \<Longrightarrow> map_ok (map_set k v m)"
proof (induction k v m rule: map_set.induct)
  case (2 k v k' v' m)
  have "set (map fst (map_set k v m)) = insert k (set (map fst m))" by (simp add: keys_set)
  then show ?case using 2 by (auto simp: map_ok_def)
qed (simp add: map_ok_def)

lemma map_ok_delete [simp]: "map_ok m \<Longrightarrow> map_ok (map_delete k m)"
  by (auto simp: map_ok_def map_delete_def intro: distinct_map_filter)

lemma map_has_get: "map_has k m \<longleftrightarrow> map_get m k \<noteq> None"
  by (simp add: map_has_def map_get_def map_of_eq_None_iff)

lemma size_set: "map_size (map_set k v m) = (if map_has k m then map_size m else Suc (map_size m))"
  by (induction k v m rule: map_set.induct) (auto simp: map_size_def map_has_def)

lemma size_delete_absent: "\<not> map_has k m \<Longrightarrow> map_delete k m = m"
  by (induction m) (auto simp: map_delete_def map_has_def)

lemma size_delete_le: "map_size (map_delete k m) \<le> map_size m"
  by (simp add: map_size_def map_delete_def)

lemma size_delete_present:
  assumes "map_ok m" "map_has k m"
  shows "Suc (map_size (map_delete k m)) = map_size m"
  using assms
proof (induction m)
  case (Cons e m)
  show ?case
  proof (cases "fst e = k")
    case True
    then have "\<not> map_has k m" using Cons.prems by (auto simp: map_ok_def map_has_def)
    then show ?thesis using True size_delete_absent [of k m]
      by (simp add: map_size_def map_delete_def)
  next
    case False
    then have "map_ok m" "map_has k m" using Cons.prems by (auto simp: map_ok_def map_has_def)
    then show ?thesis using False Cons.IH by (simp add: map_size_def map_delete_def)
  qed
qed (simp add: map_has_def)

lemma map_set_append: "\<not> map_has k m \<Longrightarrow> map_set k v m = m @ [(k, v)]"
  by (induction k v m rule: map_set.induct) (auto simp: map_has_def)

lemma map_has_delete [simp]: "map_has k (map_delete k' m) \<longleftrightarrow> k \<noteq> k' \<and> map_has k m"
  by (simp add: map_has_get)

lemma map_has_set [simp]: "map_has k (map_set k' v m) \<longleftrightarrow> k = k' \<or> map_has k m"
  by (simp add: map_has_get)

lemma map_get_in: "map_ok m \<Longrightarrow> map_get m k = Some v \<longleftrightarrow> (k, v) \<in> set m"
  by (simp add: map_ok_def map_get_def)

lemma map_delete_in: "e \<in> set (map_delete k m) \<longleftrightarrow> e \<in> set m \<and> fst e \<noteq> k"
  by (auto simp: map_delete_def)

lemma map_ok_fold_set: "map_ok m \<Longrightarrow> map_ok (fold (\<lambda>(k, v) m. map_set k v m) es m)"
  by (induction es arbitrary: m) auto

lemma map_ok_from [simp]: "map_ok (map_from es)"
  by (simp add: map_from_def map_ok_fold_set)

lemma map_get_fold_set:
  "map_get (fold (\<lambda>(k, v) m. map_set k v m) es m) k =
     (case map_of (rev es) k of None \<Rightarrow> map_get m k | Some v \<Rightarrow> Some v)"
proof (induction es arbitrary: m)
  case (Cons e es)
  then show ?case
    by (cases e) (auto simp: map_add_def split: option.splits)
qed simp

text \<open>The last entry of a key wins.\<close>

lemma map_get_from: "map_get (map_from es) k = map_of (rev es) k"
  by (simp add: map_from_def map_get_fold_set split: option.splits)

section \<open>The interface\<close>

text \<open>
  What the stateful components rely on: a store with a lookup, whose entry count moves by at most
  one per write. \<open>evicting\<close> is the bounded-insert idiom all of them share: drop what the component
  chooses, then set.
\<close>

locale keyed_store =
  fixes get :: "'m \<Rightarrow> 'k \<Rightarrow> 'v option"
    and put :: "'k \<Rightarrow> 'v \<Rightarrow> 'm \<Rightarrow> 'm"
    and del :: "'k \<Rightarrow> 'm \<Rightarrow> 'm"
    and size_of :: "'m \<Rightarrow> nat"
    and ok :: "'m \<Rightarrow> bool"
  assumes get_put: "get (put k v m) k' = (if k' = k then Some v else get m k')"
    and get_del: "get (del k m) k' = (if k' = k then None else get m k')"
    and ok_put: "ok m \<Longrightarrow> ok (put k v m)"
    and ok_del: "ok m \<Longrightarrow> ok (del k m)"
    and size_put: "size_of (put k v m) = (if get m k = None then Suc (size_of m) else size_of m)"
    and size_del_le: "size_of (del k m) \<le> size_of m"
    and size_del: "ok m \<Longrightarrow> get m k \<noteq> None \<Longrightarrow> Suc (size_of (del k m)) = size_of m"
begin

text \<open>Replace and refresh: delete, then set again. The count does not move for a present key.\<close>

lemma get_refresh: "get (put k v (del k m)) k' = (if k' = k then Some v else get m k')"
  by (simp add: get_put get_del)

lemma size_refresh: "ok m \<Longrightarrow> get m k \<noteq> None \<Longrightarrow> size_of (put k v (del k m)) = size_of m"
  by (simp add: size_put get_del size_del)

lemma size_put_bound: "size_of m < n \<Longrightarrow> size_of (put k v m) \<le> n"
  by (simp add: size_put)

lemma size_put_present: "size_of m \<le> n \<Longrightarrow> get m k \<noteq> None \<Longrightarrow> size_of (put k v m) \<le> n"
  by (auto simp: size_put)

lemma size_after_evict:
  assumes "ok m" "size_of m \<le> n" "0 < n" "get m old \<noteq> None"
  shows "size_of (put k v (del old m)) \<le> n"
proof -
  have "Suc (size_of (del old m)) = size_of m" using assms by (simp add: size_del)
  then show ?thesis using assms size_put [of k v "del old m"] by auto
qed

end

interpretation jsm: keyed_store map_get map_set map_delete map_size map_ok
proof
  show "map_size (map_set k v m) = (if map_get m k = None then Suc (map_size m) else map_size m)"
    for k v and m :: "('a, 'b) js_map"
    by (simp add: size_set map_has_get)
  show "Suc (map_size (map_delete k m)) = map_size m"
    if "map_ok m" "map_get m k \<noteq> None" for k and m :: "('a, 'b) js_map"
    using that by (simp add: size_delete_present map_has_get)
qed (simp_all add: size_delete_le)

end
