(* ===== verification/Quota.thy ===== *)
theory Quota
  imports Breaker Js_Map "HOL-Library.Option_ord"
begin

text \<open>
  Quota evidence: \<open>quota-evidence.ts\<close>, \<open>quota.ts\<close> and \<open>plan-reset.ts\<close> of \<open>services/routing\<close>. Which of
  two readings of a window stands, whether a window is spent, how much headroom the continuous
  readings leave, and the reset a limit refusal borrows from a plan reading.
\<close>

section \<open>Evidence (\<open>quota-evidence.ts\<close>)\<close>

definition retiredEvidence :: "quota_window \<Rightarrow> bool" where
  "retiredEvidence w \<longleftrightarrow>
     qw_retiredAt w \<noteq> None \<or> qw_blocksRouting w = Some False \<or>
     (qw_evidenceState w \<noteq> None \<and> qw_evidenceState w \<noteq> Some EvCurrent)"

text \<open>\<open>incoming.x !== undefined && (held.x === undefined || incoming.x > held.x)\<close>\<close>

fun exceeds :: "'a::linorder option \<Rightarrow> 'a option \<Rightarrow> bool" where
  "exceeds None _ = False"
| "exceeds (Some x) None = True"
| "exceeds (Some x) (Some y) = (y < x)"

definition mergeQuotaEvidence :: "quota_window \<Rightarrow> quota_window \<Rightarrow> quota_window" where
  "mergeQuotaEvidence held incoming =
     (let clock = qw_lastCheckedAt incoming - qw_lastCheckedAt held
      in if clock \<noteq> 0 then (if clock > 0 then incoming else held)
      else if qw_revision held \<noteq> None \<and> qw_revision incoming \<noteq> None
              \<and> qw_revision held \<noteq> qw_revision incoming
      then (if the (qw_revision incoming) > the (qw_revision held) then incoming else held)
      else if retiredEvidence held then held
      else if retiredEvidence incoming then incoming
      else
        let moreUsed = exceeds (qw_utilization incoming) (qw_utilization held);
            laterReset = exceeds (qw_resetsAt incoming) (qw_resetsAt held)
        in if \<not> moreUsed \<and> \<not> laterReset then held
        else
          let m1 = (if moreUsed
                    then held\<lparr>qw_utilization := qw_utilization incoming,
                              qw_utilizationSource := qw_utilizationSource incoming\<rparr>
                    else held);
              m2 = (if laterReset
                    then m1\<lparr>qw_resetsAt := qw_resetsAt incoming,
                            qw_resetSource := qw_resetSource incoming\<rparr>
                    else m1)
          in if qw_revision incoming = None
             then m2\<lparr>qw_revision := None, qw_retiredAt := None, qw_evidenceState := None,
                     qw_blocksRouting := None\<rparr>
             else m2)"

text \<open>A stored row: \<open>null\<close> columns are \<open>None\<close>; the marker is carried only when it is on.\<close>

record quota_row =
  qr_window :: quota_window_kind
  qr_utilization :: "rat option"
  qr_utilizationSource :: utilization_source
  qr_resetsAt :: "instant option"
  qr_resetSource :: reset_source
  qr_lastCheckedAt :: instant
  qr_revision :: nat
  qr_retiredAt :: "instant option"
  qr_evidenceState :: evidence_state
  qr_blocksRouting :: bool
  qr_advisory :: "bool option"

definition toQuotaEvidence :: "quota_row \<Rightarrow> quota_window" where
  "toQuotaEvidence row =
     \<lparr>qw_window = qr_window row, qw_utilization = qr_utilization row,
      qw_utilizationSource = qr_utilizationSource row, qw_resetsAt = qr_resetsAt row,
      qw_resetSource = qr_resetSource row, qw_lastCheckedAt = qr_lastCheckedAt row,
      qw_advisory = (if qr_advisory row = Some True then Some True else None),
      qw_revision = Some (qr_revision row), qw_evidenceState = Some (qr_evidenceState row),
      qw_blocksRouting = Some (qr_blocksRouting row), qw_retiredAt = qr_retiredAt row\<rparr>"

text \<open>
  The readings one loop walks: the named windows that are not retired, then the limiters (which have
  none of the retirement fields), as \<open>(utilization, utilizationSource, resetsAt)\<close>.
\<close>

definition headroom_readings :: "account_snapshot \<Rightarrow> (rat option \<times> utilization_source \<times> instant option) list" where
  "headroom_readings a =
     map (\<lambda>w. (qw_utilization w, qw_utilizationSource w, qw_resetsAt w))
       (filter (\<lambda>w. \<not> retiredEvidence w) (or_default (acc_quotaWindows a) []))
     @ map (\<lambda>l. (lr_utilization l, lr_utilizationSource l, lr_resetsAt l))
       (or_default (acc_limiterWindows a) [])"

fun live_reading :: "instant \<Rightarrow> rat option \<times> utilization_source \<times> instant option \<Rightarrow> rat option" where
  "live_reading now (u, src, r) =
     (if src \<noteq> Continuous \<or> (case r of None \<Rightarrow> False | Some t \<Rightarrow> t \<le> now) then None else u)"

definition continuousQuotaHeadroom :: "account_snapshot \<Rightarrow> instant \<Rightarrow> rat option" where
  "continuousQuotaHeadroom a now =
     (let peak = fold (\<lambda>w peak.
                   case live_reading now w of
                     None \<Rightarrow> peak
                   | Some u \<Rightarrow> Some (max (or_default peak u) u))
                 (headroom_readings a) None
      in map_option (\<lambda>p. 1 - p) peak)"

section \<open>Window math (\<open>quota.ts\<close>)\<close>

definition DEFAULT_QUOTA_SPENT_THRESHOLD :: rat where "DEFAULT_QUOTA_SPENT_THRESHOLD = 1"

definition isWindowSpent :: "quota_window \<Rightarrow> instant \<Rightarrow> rat \<Rightarrow> bool" where
  "isWindowSpent w now threshold =
     (if retiredEvidence w then False
      else if qw_advisory w = Some True then False
      else case qw_utilization w of
             None \<Rightarrow> False
           | Some u \<Rightarrow>
               if u < threshold then False
               else case qw_resetsAt w of
                      Some r \<Rightarrow> if r \<le> now then False else True
                    | None \<Rightarrow> True)"

definition findSpentWindow :: "account_snapshot \<Rightarrow> instant \<Rightarrow> rat \<Rightarrow> quota_window option" where
  "findSpentWindow a now threshold =
     find (\<lambda>w. isWindowSpent w now threshold) (or_default (acc_quotaWindows a) [])"

definition continuousHeadroom :: "account_snapshot \<Rightarrow> instant \<Rightarrow> rat option" where
  "continuousHeadroom a now = continuousQuotaHeadroom a now"

fun earliestReset_loop :: "instant option list \<Rightarrow> instant option \<Rightarrow> instant option" where
  "earliestReset_loop [] earliest = earliest"
| "earliestReset_loop (None # ws) earliest = earliestReset_loop ws earliest"
| "earliestReset_loop (Some c # ws) earliest =
     earliestReset_loop ws
       (case earliest of None \<Rightarrow> Some c | Some e \<Rightarrow> if c < e then Some c else Some e)"

definition earliestReset :: "instant option list \<Rightarrow> instant option" where
  "earliestReset ws = earliestReset_loop ws None"

definition mergeQuotaObservation :: "quota_window \<Rightarrow> quota_window \<Rightarrow> quota_window" where
  "mergeQuotaObservation held incoming = mergeQuotaEvidence held incoming"

definition fold_observation ::
  "quota_window \<Rightarrow> (quota_window_kind, quota_window) js_map \<Rightarrow> (quota_window_kind, quota_window) js_map" where
  "fold_observation c merged =
     map_set (qw_window c)
       (case map_get merged (qw_window c) of
          None \<Rightarrow> c
        | Some previous \<Rightarrow> mergeQuotaObservation previous c)
       merged"

definition mergeQuotaWindows :: "quota_window list \<Rightarrow> quota_window list option \<Rightarrow> quota_window list" where
  "mergeQuotaWindows held incoming =
     (if incoming = None \<or> incoming = Some [] then held
      else map_values (fold fold_observation (the incoming)
             (map_from (map (\<lambda>w. (qw_window w, w)) held))))"

section \<open>The reset a plan lends (\<open>plan-reset.ts\<close>)\<close>

text \<open>The instant a window lends: fresh, provider-reported, spent, ahead of the clock.\<close>

definition lent_reset :: "instant \<Rightarrow> int \<Rightarrow> quota_window \<Rightarrow> instant option" where
  "lent_reset now maxAgeMs w =
     (if retiredEvidence w then None
      else if now - qw_lastCheckedAt w \<ge> maxAgeMs then None
      else if qw_resetSource w \<noteq> ProviderReported then None
      else case qw_resetsAt w of
             None \<Rightarrow> None
           | Some r \<Rightarrow>
               if (case qw_utilization w of None \<Rightarrow> True | Some u \<Rightarrow> u < 1) then None
               else if r \<le> now then None
               else Some r)"

definition spentPlanReset :: "quota_window list \<Rightarrow> instant \<Rightarrow> int \<Rightarrow> instant option" where
  "spentPlanReset windows now maxAgeMs =
     fold (\<lambda>w latest.
        case lent_reset now maxAgeMs w of
          None \<Rightarrow> latest
        | Some r \<Rightarrow> (case latest of None \<Rightarrow> Some r | Some l \<Rightarrow> if r > l then Some r else Some l))
       windows None"

definition withPlanReset ::
  "attempt_failure \<Rightarrow> quota_window list \<Rightarrow> instant \<Rightarrow> int \<Rightarrow> attempt_failure" where
  "withPlanReset failure windows now maxAgeMs =
     (if af_kind failure \<noteq> RateLimited then failure
      else
        let stated = (reportedReset failure now \<noteq> None \<and> af_resetSource failure \<noteq> Some Estimated)
        in if stated then failure
        else case spentPlanReset windows now maxAgeMs of
               None \<Rightarrow> failure
             | Some planReset \<Rightarrow>
                 failure\<lparr>af_retryAfterSeconds := None, af_resetsAt := Some (Instant planReset),
                         af_resetSource := Some ProviderReported\<rparr>)"

section \<open>Merging as a join\<close>

text \<open>
  The contract of folding observations into a held one: through a \<open>view\<close>, merging is a commutative
  and associative join, so the arrival order of a batch is irrelevant.
\<close>

locale observation_merge =
  fixes merge :: "'w \<Rightarrow> 'w \<Rightarrow> 'w"
    and view :: "'w \<Rightarrow> 'v"
    and join :: "'v \<Rightarrow> 'v \<Rightarrow> 'v"
    and plain :: "'w \<Rightarrow> bool"
  assumes view_merge: "plain a \<Longrightarrow> plain b \<Longrightarrow> view (merge a b) = join (view a) (view b)"
    and plain_merge: "plain a \<Longrightarrow> plain b \<Longrightarrow> plain (merge a b)"
    and join_comm: "join x y = join y x"
    and join_assoc: "join (join x y) z = join x (join y z)"
begin

lemma view_foldl:
  "plain a \<Longrightarrow> (\<And>b. b \<in> set bs \<Longrightarrow> plain b) \<Longrightarrow>
     view (foldl merge a bs) = foldl join (view a) (map view bs)"
  by (induction bs arbitrary: a) (simp_all add: view_merge plain_merge)

lemma join_swap: "join (join x y) z = join (join x z) y"
  by (metis join_assoc join_comm)

lemma foldl_join_step: "foldl join (join x y) zs = join (foldl join x zs) y"
  by (induction zs arbitrary: x) (simp_all add: join_swap)

lemma foldl_join_mset: "mset xs = mset ys \<Longrightarrow> foldl join z xs = foldl join z ys"
proof (induction xs arbitrary: ys)
  case (Cons x xs)
  then have "x \<in> set ys" by (metis list.set_intros(1) set_mset_mset)
  then obtain us vs where ys: "ys = us @ x # vs" by (auto simp: in_set_conv_decomp)
  then have "mset xs = mset (us @ vs)" using Cons.prems by simp
  then have IH: "foldl join z xs = foldl join z (us @ vs)" by (rule Cons.IH)
  have "foldl join z (x # xs) = join (foldl join z xs) x"
    by (simp add: foldl_join_step)
  also have "\<dots> = join (foldl join z (us @ vs)) x" by (simp only: IH)
  also have "\<dots> = foldl join z ys" by (simp add: ys foldl_join_step)
  finally show ?case .
qed simp

lemma foldl_join_mset_head:
  assumes "mset (x # xs) = mset (y # ys)"
  shows "foldl join x xs = foldl join y ys"
proof (cases "x = y")
  case False
  then have "y \<in> set xs" using assms by (metis list.set_intros(1) set_ConsD set_mset_mset)
  then obtain us vs where xs: "xs = us @ y # vs" by (auto simp: in_set_conv_decomp)
  then have ys: "mset ys = mset (x # us @ vs)" using assms by simp
  have "foldl join x xs = foldl join (join x y) (us @ vs)" by (simp add: xs foldl_join_step)
  also have "\<dots> = foldl join y (x # us @ vs)" by (simp add: join_comm)
  also have "\<dots> = foldl join y ys" using ys [symmetric] by (rule foldl_join_mset)
  finally show ?thesis .
qed (use assms in \<open>auto intro: foldl_join_mset\<close>)

lemma view_order_independent:
  assumes "plain a" and "\<And>b. b \<in> set bs \<Longrightarrow> plain b" and "mset bs = mset cs"
  shows "view (foldl merge a bs) = view (foldl merge a cs)"
proof -
  have same: "set bs = set cs" using assms(3) by (metis set_mset_mset)
  have "mset (map view bs) = mset (map view cs)" using assms(3) by simp
  then have "foldl join (view a) (map view bs) = foldl join (view a) (map view cs)"
    by (rule foldl_join_mset)
  moreover have "view (foldl merge a bs) = foldl join (view a) (map view bs)"
    using assms(1,2) by (rule view_foldl)
  moreover have "view (foldl merge a cs) = foldl join (view a) (map view cs)"
    by (rule view_foldl) (use assms same in auto)
  ultimately show ?thesis by simp
qed

lemma view_order_independent_head:
  assumes "\<And>c. c \<in> set (b # bs) \<Longrightarrow> plain c" and "mset (b # bs) = mset (d # ds)"
  shows "view (foldl merge b bs) = view (foldl merge d ds)"
proof -
  have same: "set (b # bs) = set (d # ds)" using assms(2) by (metis set_mset_mset)
  have pd: "\<And>c. c \<in> set (d # ds) \<Longrightarrow> plain c" using assms(1) same by blast
  have "mset (map view (b # bs)) = mset (map view (d # ds))" using assms(2) by (metis mset_map)
  then have "foldl join (view b) (map view bs) = foldl join (view d) (map view ds)"
    by (intro foldl_join_mset_head) simp
  then show ?thesis using assms(1) pd by (simp add: view_foldl)
qed

end

text \<open>What two replicas must agree on: the observation clock, the utilization and the reset.\<close>

type_synonym quota_view = "instant \<times> rat option \<times> instant option"

definition quota_reading :: "quota_window \<Rightarrow> quota_view" where
  "quota_reading w = (qw_lastCheckedAt w, qw_utilization w, qw_resetsAt w)"

fun join_reading :: "quota_view \<Rightarrow> quota_view \<Rightarrow> quota_view" where
  "join_reading (c, u, r) (c', u', r') =
     (if c < c' then (c', u', r') else if c' < c then (c, u, r) else (c, max u u', max r r'))"

text \<open>Evidence no durable row has touched: what the providers' own responses produce.\<close>

definition local_evidence :: "quota_window \<Rightarrow> bool" where
  "local_evidence w \<longleftrightarrow> qw_revision w = None \<and> \<not> retiredEvidence w"

lemma exceeds_self [simp]: "\<not> exceeds x x"
  by (cases x) auto

lemma exceeds_max: "(if exceeds x y then x else y) = max y x"
  by (cases x; cases y) (auto simp: max_def)

lemma max_exceeds:
  "exceeds x y \<Longrightarrow> max y x = x" "\<not> exceeds x y \<Longrightarrow> max y x = y"
  using exceeds_max [of x y] by auto

lemma local_evidence_unmarked:
  "local_evidence w \<Longrightarrow> qw_retiredAt w = None \<and> qw_revision w = None"
  by (auto simp: local_evidence_def retiredEvidence_def)

interpretation quota_merge: observation_merge mergeQuotaEvidence quota_reading join_reading local_evidence
proof
  fix a b :: quota_window
  assume a: "local_evidence a" and b: "local_evidence b"
  show "quota_reading (mergeQuotaEvidence a b) = join_reading (quota_reading a) (quota_reading b)"
    using a b
    by (auto simp: mergeQuotaEvidence_def quota_reading_def Let_def local_evidence_def max_exceeds)
  show "local_evidence (mergeQuotaEvidence a b)"
    using a b by (auto simp: mergeQuotaEvidence_def Let_def local_evidence_def retiredEvidence_def)
next
  fix x y z :: quota_view
  show "join_reading x y = join_reading y x"
    by (cases x; cases y) (auto simp: max.commute)
  show "join_reading (join_reading x y) z = join_reading x (join_reading y z)"
    by (cases x; cases y; cases z) (auto simp: max.assoc)
qed

section \<open>Merging window sets\<close>

lemma merge_window [simp]:
  "qw_window a = qw_window b \<Longrightarrow> qw_window (mergeQuotaEvidence a b) = qw_window a"
  by (simp add: mergeQuotaEvidence_def Let_def)

lemma merge_self [simp]: "mergeQuotaEvidence a a = a"
  by (simp add: mergeQuotaEvidence_def Let_def)

lemma merge_clock:
  "qw_lastCheckedAt (mergeQuotaEvidence a b) = max (qw_lastCheckedAt a) (qw_lastCheckedAt b)"
  by (auto simp: mergeQuotaEvidence_def Let_def max_def)

text \<open>Per kind, the merged set holds the held window with that kind's observations folded in.\<close>

definition of_kind :: "quota_window_kind \<Rightarrow> quota_window list \<Rightarrow> quota_window list" where
  "of_kind k ws = filter (\<lambda>w. qw_window w = k) ws"

lemma fold_observation_get:
  "map_get (fold fold_observation ws m) k =
     (case map_get m k of
        None \<Rightarrow> (case of_kind k ws of [] \<Rightarrow> None | w # rest \<Rightarrow> Some (foldl mergeQuotaEvidence w rest))
      | Some h \<Rightarrow> Some (foldl mergeQuotaEvidence h (of_kind k ws)))"
proof (induction ws arbitrary: m)
  case (Cons w ws)
  have step: "map_get (fold_observation w m) j =
     (if j = qw_window w then Some (case map_get m j of None \<Rightarrow> w | Some h \<Rightarrow> mergeQuotaEvidence h w)
      else map_get m j)" for j
    by (auto simp: fold_observation_def mergeQuotaObservation_def split: option.splits)
  show ?case using Cons.IH [of "fold_observation w m"]
    by (cases "map_get m k"; cases "k = qw_window w") (simp_all add: step of_kind_def)
qed (simp add: of_kind_def split: option.splits)

lemma fold_observation_ok: "map_ok m \<Longrightarrow> map_ok (fold fold_observation ws m)"
  by (induction ws arbitrary: m) (simp_all add: fold_observation_def)

definition window_keyed :: "(quota_window_kind, quota_window) js_map \<Rightarrow> bool" where
  "window_keyed m \<longleftrightarrow> (\<forall>(k, w) \<in> set m. qw_window w = k)"

lemma window_keyed_set: "window_keyed m \<Longrightarrow> qw_window w = k \<Longrightarrow> window_keyed (map_set k w m)"
  by (induction k w m rule: map_set.induct) (auto simp: window_keyed_def)

lemma window_keyed_get: "window_keyed m \<Longrightarrow> map_get m k = Some w \<Longrightarrow> qw_window w = k"
  by (auto simp: window_keyed_def map_get_def dest: map_of_SomeD)

lemma fold_observation_keyed: "window_keyed m \<Longrightarrow> window_keyed (fold fold_observation ws m)"
proof (induction ws arbitrary: m)
  case (Cons w ws)
  have "window_keyed (fold_observation w m)"
    using Cons.prems window_keyed_get [OF Cons.prems]
    by (auto simp: fold_observation_def mergeQuotaObservation_def intro!: window_keyed_set
        split: option.splits)
  then show ?case using Cons.IH by simp
qed simp

text \<open>A window set with one window per kind: what the store and the catalog hold.\<close>

definition windows_ok :: "quota_window list \<Rightarrow> bool" where
  "windows_ok ws \<longleftrightarrow> distinct (map qw_window ws)"

lemma fold_map_set_distinct:
  assumes "distinct (map fst (m @ es))"
  shows "fold (\<lambda>(k, v) m. map_set k v m) es m = m @ es"
  using assms
proof (induction es arbitrary: m)
  case (Cons e es)
  obtain k v where e: "e = (k, v)" by (cases e)
  have "\<not> map_has k m" using Cons.prems e by (auto simp: map_has_def)
  then have "map_set k v m = m @ [e]" using e by (simp add: map_set_append)
  then show ?case using Cons.IH [of "m @ [e]"] Cons.prems e by simp
qed simp

lemma map_from_distinct: "distinct (map fst es) \<Longrightarrow> map_from es = es"
  using fold_map_set_distinct [of "[]" es] by (simp add: map_from_def)

definition window_of :: "quota_window list \<Rightarrow> quota_window_kind \<Rightarrow> quota_window option" where
  "window_of ws k = find (\<lambda>w. qw_window w = k) ws"

lemma window_of_values:
  "window_keyed m \<Longrightarrow> window_of (map_values m) k = map_get m k"
  by (induction m) (auto simp: window_of_def map_values_def map_get_def window_keyed_def)

lemma windows_ok_values: "map_ok m \<Longrightarrow> window_keyed m \<Longrightarrow> windows_ok (map_values m)"
proof -
  assume a: "map_ok m" "window_keyed m"
  have "map qw_window (map_values m) = map fst m"
    using a(2) by (auto simp: map_values_def window_keyed_def)
  then show ?thesis using a(1) by (simp add: windows_ok_def map_ok_def)
qed

definition held_map :: "quota_window list \<Rightarrow> (quota_window_kind, quota_window) js_map" where
  "held_map held = map_from (map (\<lambda>w. (qw_window w, w)) held)"

lemma held_map_ok:
  assumes "windows_ok held"
  shows "map_values (held_map held) = held" "window_keyed (held_map held)" "map_ok (held_map held)"
    "map_get (held_map held) k = window_of held k"
proof -
  have eq: "held_map held = map (\<lambda>w. (qw_window w, w)) held"
    using assms map_from_distinct [of "map (\<lambda>w. (qw_window w, w)) held"]
    by (simp add: held_map_def windows_ok_def o_def)
  show v: "map_values (held_map held) = held" by (simp add: eq map_values_def o_def)
  show keyed: "window_keyed (held_map held)" by (auto simp: eq window_keyed_def)
  show "map_ok (held_map held)" by (simp add: held_map_def)
  show "map_get (held_map held) k = window_of held k"
    using window_of_values [OF keyed, of k] v by simp
qed

text \<open>The two facts the clients use: the set stays one-per-kind, and what stands per kind.\<close>

lemma mergeQuotaWindows_ok:
  assumes "windows_ok held"
  shows "windows_ok (mergeQuotaWindows held incoming)"
  using assms held_map_ok [OF assms]
  by (cases incoming) (auto simp: mergeQuotaWindows_def held_map_def [symmetric]
      intro!: windows_ok_values fold_observation_ok fold_observation_keyed)

lemma mergeQuotaWindows_window_of:
  assumes "windows_ok held"
  shows "window_of (mergeQuotaWindows held (Some ws)) k =
     (case window_of held k of
        None \<Rightarrow> (case of_kind k ws of [] \<Rightarrow> None | w # rest \<Rightarrow> Some (foldl mergeQuotaEvidence w rest))
      | Some h \<Rightarrow> Some (foldl mergeQuotaEvidence h (of_kind k ws)))"
proof (cases "ws = []")
  case True
  then show ?thesis by (simp add: mergeQuotaWindows_def of_kind_def split: option.splits)
next
  case False
  have "window_of (mergeQuotaWindows held (Some ws)) k = map_get (fold fold_observation ws (held_map held)) k"
    using False window_of_values [OF fold_observation_keyed [OF held_map_ok(2) [OF assms]], of ws k]
    by (simp add: mergeQuotaWindows_def held_map_def)
  then show ?thesis by (simp add: fold_observation_get held_map_ok(4) [OF assms])
qed

text \<open>
  (C34) Arrival order is irrelevant: two replicas that fold the same provider observations into the
  same held windows in any two orders agree, kind by kind, on the observation clock, the utilization
  and the reset that stand.
\<close>

theorem quota_merge_order_independent:
  assumes "windows_ok held" and "\<And>w. w \<in> set held \<union> set ws \<Longrightarrow> local_evidence w"
    and "mset ws = mset ws'"
  shows "map_option quota_reading (window_of (mergeQuotaWindows held (Some ws)) k) =
         map_option quota_reading (window_of (mergeQuotaWindows held (Some ws')) k)"
proof -
  have ms: "mset (of_kind k ws) = mset (of_kind k ws')"
    using assms(3) by (simp add: of_kind_def mset_filter)
  have plain: "local_evidence w" if "w \<in> set (of_kind k ws)" for w
    using that assms(2) by (auto simp: of_kind_def)
  show ?thesis
  proof (cases "window_of held k")
    case (Some h)
    then have "local_evidence h" using assms(2) find_SomeD [of _ held h] by (auto simp: window_of_def)
    then have "quota_reading (foldl mergeQuotaEvidence h (of_kind k ws)) =
        quota_reading (foldl mergeQuotaEvidence h (of_kind k ws'))"
      using plain ms by (rule quota_merge.view_order_independent)
    then show ?thesis using Some by (simp add: mergeQuotaWindows_window_of assms(1))
  next
    case None
    show ?thesis
    proof (cases "of_kind k ws")
      case Nil
      then have "of_kind k ws' = []" using ms by simp
      then show ?thesis using None Nil by (simp add: mergeQuotaWindows_window_of assms(1))
    next
      case (Cons w rest)
      then obtain w' rest' where c': "of_kind k ws' = w' # rest'" using ms by (cases "of_kind k ws'") auto
      have "quota_reading (foldl mergeQuotaEvidence w rest) = quota_reading (foldl mergeQuotaEvidence w' rest')"
        by (rule quota_merge.view_order_independent_head) (use plain ms Cons c' in simp_all)
      then show ?thesis using None Cons c' by (simp add: mergeQuotaWindows_window_of assms(1))
    qed
  qed
qed

theorem quota_merge_order_independent_witness:
  "let five = \<lparr>qw_window = FiveHour, qw_utilization = Some (1 / 2), qw_utilizationSource = Continuous,
         qw_resetsAt = None, qw_resetSource = UnknownReset, qw_lastCheckedAt = 10, qw_advisory = None,
         qw_revision = None, qw_evidenceState = None, qw_blocksRouting = None, qw_retiredAt = None\<rparr>;
       used = five\<lparr>qw_utilization := Some (9 / 10)\<rparr>;
       later = five\<lparr>qw_resetsAt := Some 99, qw_resetSource := ProviderReported\<rparr>
   in map_option quota_reading (window_of (mergeQuotaWindows [five] (Some [used, later])) FiveHour) =
        map_option quota_reading (window_of (mergeQuotaWindows [five] (Some [later, used])) FiveHour) \<and>
      map_option quota_reading (window_of (mergeQuotaWindows [five] (Some [used, later])) FiveHour) =
        Some (10, Some (9 / 10), Some 99)"
proof -
  define five :: quota_window where "five = \<lparr>qw_window = FiveHour, qw_utilization = Some (1 / 2),
    qw_utilizationSource = Continuous, qw_resetsAt = None, qw_resetSource = UnknownReset,
    qw_lastCheckedAt = 10, qw_advisory = None, qw_revision = None, qw_evidenceState = None,
    qw_blocksRouting = None, qw_retiredAt = None\<rparr>"
  define used where "used = five\<lparr>qw_utilization := Some (9 / 10)\<rparr>"
  define later where "later = five\<lparr>qw_resetsAt := Some 99, qw_resetSource := ProviderReported\<rparr>"
  have "map_option quota_reading (window_of (mergeQuotaWindows [five] (Some [used, later])) FiveHour) =
        map_option quota_reading (window_of (mergeQuotaWindows [five] (Some [later, used])) FiveHour)"
    by (rule quota_merge_order_independent)
      (auto simp: windows_ok_def local_evidence_def retiredEvidence_def five_def used_def later_def)
  moreover have "map_option quota_reading (window_of (mergeQuotaWindows [five] (Some [used, later])) FiveHour) =
        Some (10, Some (9 / 10), Some 99)"
    unfolding used_def later_def five_def by code_simp
  ultimately show ?thesis unfolding Let_def used_def later_def five_def by blast
qed

section \<open>Spent windows\<close>

lemma isWindowSpent_iff:
  "isWindowSpent w now th \<longleftrightarrow>
     \<not> retiredEvidence w \<and> qw_advisory w \<noteq> Some True \<and>
     (\<exists>u. qw_utilization w = Some u \<and> th \<le> u) \<and>
     (\<forall>r. qw_resetsAt w = Some r \<longrightarrow> now < r)"
  by (auto simp: isWindowSpent_def split: option.splits if_splits)

text \<open>
  A provider's observation of the same instant never talks a spent window back into service:
  whatever the second reading of the kind says (less used, nothing at all, no reset), a window that
  blocks the account still blocks it after the merge, provided the reading is not itself durable
  evidence and any reset it adds is still ahead of the clock.
\<close>

theorem equal_clock_never_refills:
  assumes "windows_ok held" and "window_of held k = Some h" and "isWindowSpent h now th"
    and "\<And>w. w \<in> set ws \<Longrightarrow> local_evidence w"
    and "\<And>w. w \<in> set ws \<Longrightarrow> qw_lastCheckedAt w = qw_lastCheckedAt h"
    and "\<And>w r. w \<in> set ws \<Longrightarrow> qw_resetsAt w = Some r \<Longrightarrow> now < r"
  shows "\<exists>m. window_of (mergeQuotaWindows held (Some ws)) k = Some m \<and> isWindowSpent m now th"
proof -
  have step: "isWindowSpent (mergeQuotaEvidence a b) now th
        \<and> qw_lastCheckedAt (mergeQuotaEvidence a b) = qw_lastCheckedAt a"
    if "isWindowSpent a now th" "local_evidence b" "qw_lastCheckedAt b = qw_lastCheckedAt a"
      "\<And>r. qw_resetsAt b = Some r \<Longrightarrow> now < r" for a b
    using that
    by (cases "qw_utilization b"; cases "qw_resetsAt b"; cases "qw_resetsAt a")
      (auto simp: isWindowSpent_iff mergeQuotaEvidence_def Let_def local_evidence_def retiredEvidence_def)
  have "isWindowSpent (foldl mergeQuotaEvidence a bs) now th"
    if "isWindowSpent a now th" "qw_lastCheckedAt a = qw_lastCheckedAt h" "set bs \<subseteq> set ws" for a bs
    using that
  proof (induction bs arbitrary: a)
    case (Cons b bs)
    have "isWindowSpent (mergeQuotaEvidence a b) now th \<and> qw_lastCheckedAt (mergeQuotaEvidence a b) = qw_lastCheckedAt a"
      by (rule step) (use Cons.prems assms(4-6) in auto)
    then show ?case using Cons by simp
  qed simp
  then have "isWindowSpent (foldl mergeQuotaEvidence h (of_kind k ws)) now th"
    using assms(3) by (simp add: of_kind_def)
  then show ?thesis using assms(2) by (simp add: mergeQuotaWindows_window_of assms(1))
qed

theorem equal_clock_never_refills_witness:
  "let spent = \<lparr>qw_window = SevenDay, qw_utilization = Some 1, qw_utilizationSource = ThresholdTriggered,
         qw_resetsAt = Some 900, qw_resetSource = ProviderReported, qw_lastCheckedAt = 10, qw_advisory = None,
         qw_revision = None, qw_evidenceState = None, qw_blocksRouting = None, qw_retiredAt = None\<rparr>;
       silent = spent\<lparr>qw_utilization := None, qw_utilizationSource := NoSignal, qw_resetsAt := None\<rparr>
   in \<exists>m. window_of (mergeQuotaWindows [spent] (Some [silent])) SevenDay = Some m \<and> isWindowSpent m 20 1"
proof -
  define spent :: quota_window where "spent = \<lparr>qw_window = SevenDay, qw_utilization = Some 1,
    qw_utilizationSource = ThresholdTriggered, qw_resetsAt = Some 900, qw_resetSource = ProviderReported,
    qw_lastCheckedAt = 10, qw_advisory = None, qw_revision = None, qw_evidenceState = None,
    qw_blocksRouting = None, qw_retiredAt = None\<rparr>"
  define silent where
    "silent = spent\<lparr>qw_utilization := None, qw_utilizationSource := NoSignal, qw_resetsAt := None\<rparr>"
  have "\<exists>m. window_of (mergeQuotaWindows [spent] (Some [silent])) SevenDay = Some m \<and> isWindowSpent m 20 1"
    by (rule equal_clock_never_refills [where h = spent])
      (auto simp: windows_ok_def window_of_def isWindowSpent_iff local_evidence_def retiredEvidence_def
        spent_def silent_def)
  then show ?thesis unfolding Let_def silent_def spent_def .
qed

section \<open>Headroom\<close>

lemma fold_max_Max: "fold max us u = Max (insert u (set us))" for u :: "'x::linorder"
  using Max.set_eq_fold [of u us] by simp

definition live_utilizations :: "account_snapshot \<Rightarrow> instant \<Rightarrow> rat list" where
  "live_utilizations a now = List.map_filter (live_reading now) (headroom_readings a)"

lemma peak_fold:
  "fold (\<lambda>w peak. case live_reading now w of None \<Rightarrow> peak | Some u \<Rightarrow> Some (max (or_default peak u) u)) ws (Some p)
     = Some (fold max (List.map_filter (live_reading now) ws) p)"
  by (induction ws arbitrary: p) (auto simp: map_filter_simps max.commute split: option.splits)

lemma peak_fold_None:
  "fold (\<lambda>w peak. case live_reading now w of None \<Rightarrow> peak | Some u \<Rightarrow> Some (max (or_default peak u) u)) ws None
     = (case List.map_filter (live_reading now) ws of [] \<Rightarrow> None | u # us \<Rightarrow> Some (fold max us u))"
  by (induction ws) (auto simp: map_filter_simps peak_fold split: option.splits)

lemma continuousHeadroom_alt:
  "continuousHeadroom a now =
     (case live_utilizations a now of [] \<Rightarrow> None | u # us \<Rightarrow> Some (1 - Max (set (u # us))))"
  by (auto simp: continuousHeadroom_def continuousQuotaHeadroom_def peak_fold_None live_utilizations_def
      fold_max_Max simp del: live_reading.simps split: list.splits)

section \<open>Borrowed resets\<close>

lemma spentPlanReset_fold:
  "fold (\<lambda>w latest. case lent_reset now age w of None \<Rightarrow> latest
        | Some r \<Rightarrow> (case latest of None \<Rightarrow> Some r | Some l \<Rightarrow> if r > l then Some r else Some l)) ws (Some l)
     = Some (fold max (List.map_filter (lent_reset now age) ws) l)"
  by (induction ws arbitrary: l) (auto simp: map_filter_simps max_def split: option.splits)

lemma spentPlanReset_alt:
  "spentPlanReset ws now age =
     (case List.map_filter (lent_reset now age) ws of [] \<Rightarrow> None | r # rs \<Rightarrow> Some (Max (set (r # rs))))"
proof -
  have "spentPlanReset ws now age =
     (case List.map_filter (lent_reset now age) ws of [] \<Rightarrow> None | r # rs \<Rightarrow> Some (fold max rs r))"
    unfolding spentPlanReset_def
    by (induction ws) (auto simp: map_filter_simps spentPlanReset_fold split: option.splits)
  then show ?thesis by (auto simp: fold_max_Max split: list.splits)
qed

lemma lent_reset_future: "lent_reset now age w = Some r \<Longrightarrow> now < r"
  by (auto simp: lent_reset_def split: if_splits option.splits)

lemma spentPlanReset_ge:
  assumes "w \<in> set ws" and "lent_reset now age w = Some r"
  shows "\<exists>p. spentPlanReset ws now age = Some p \<and> r \<le> p"
proof -
  have "r \<in> set (List.map_filter (lent_reset now age) ws)"
    using assms by (force simp: set_map_filter)
  then show ?thesis by (auto simp: spentPlanReset_alt split: list.splits)
qed

lemma spentPlanReset_in:
  assumes "spentPlanReset ws now age = Some p"
  shows "\<exists>w \<in> set ws. lent_reset now age w = Some p"
proof -
  obtain r rs where rs: "List.map_filter (lent_reset now age) ws = r # rs" and p: "p = Max (set (r # rs))"
    using assms by (auto simp: spentPlanReset_alt split: list.splits)
  have "p \<in> set (r # rs)" unfolding p by (rule Max_in) auto
  then have "p \<in> set (List.map_filter (lent_reset now age) ws)" by (simp only: rs)
  then show ?thesis by (auto simp: set_map_filter)
qed

lemma trip_until:
  assumes "reportedReset f now = Some r"
  shows "\<exists>u. bs_cooldownUntil (trip s f now opts n) = Some u \<and> r \<le> u"
  using assms by (auto simp: trip_def Let_def split: option.splits)

lemma reportedReset_exact:
  assumes "now < r" and "of_int r \<le> MAX_TIME_VALUE"
    and "af_resetsAt f = Some (Instant r)" "af_retryAfterSeconds f = None"
  shows "reportedReset f now = Some r"
  using assms by (simp add: reportedReset_def latestResetDeadline_def)

text \<open>
  A limit refusal that states no reset of its own cools the account until every fresh spent
  plan window has reopened: the breaker's cooldown is at or past each window's own reset instant,
  instead of the capped backoff.
\<close>

theorem plan_reset_outlasts_spent_windows:
  assumes "af_kind f = RateLimited" and "reportedReset f now = None \<or> af_resetSource f = Some Estimated"
    and "\<not> refusalStands s now"
    and "\<And>v t. v \<in> set ws \<Longrightarrow> qw_resetsAt v = Some t \<Longrightarrow> of_int t \<le> MAX_TIME_VALUE"
    and "w \<in> set ws" and "lent_reset now age w = Some r"
  shows "\<exists>u. bs_cooldownUntil (recordFailure s (withPlanReset f ws now age) now opts) = Some u \<and> r \<le> u"
proof -
  obtain p where p: "spentPlanReset ws now age = Some p" "r \<le> p"
    using spentPlanReset_ge [OF assms(5,6)] by blast
  then obtain v where v: "v \<in> set ws" "lent_reset now age v = Some p" using spentPlanReset_in by blast
  then have "now < p" "of_int p \<le> MAX_TIME_VALUE"
    using assms(4) by (auto simp: lent_reset_future lent_reset_def split: if_splits option.splits)
  moreover define g where "g = withPlanReset f ws now age"
  moreover have "af_resetsAt g = Some (Instant p)" "af_retryAfterSeconds g = None" "af_kind g = RateLimited"
    using assms(1,2) p(1) by (auto simp: g_def withPlanReset_def Let_def)
  ultimately have "reportedReset g now = Some p" by (simp add: reportedReset_exact)
  then obtain u where "bs_cooldownUntil (trip s g now opts (bs_consecutiveFailures s + 1)) = Some u" "p \<le> u"
    using trip_until by blast
  then show ?thesis
    using \<open>af_kind g = RateLimited\<close> assms(3) p(2) by (auto simp: recordFailure_def g_def)
qed

theorem plan_reset_outlasts_spent_windows_witness:
  "let week = \<lparr>qw_window = SevenDay, qw_utilization = Some 1, qw_utilizationSource = Continuous,
         qw_resetsAt = Some 500000, qw_resetSource = ProviderReported, qw_lastCheckedAt = 90,
         qw_advisory = Some True, qw_revision = None, qw_evidenceState = None, qw_blocksRouting = None,
         qw_retiredAt = None\<rparr>;
       f = \<lparr>af_kind = RateLimited, af_status = Some 429, af_resetsAt = None, af_retryAfterSeconds = None,
         af_resetSource = None, af_message = ''2056''\<rparr>
   in \<exists>u. bs_cooldownUntil (recordFailure HEALTHY (withPlanReset f [week] 100 1000) 100 NO_BREAKER_OPTIONS) = Some u
          \<and> 500000 \<le> u"
proof -
  define week :: quota_window where "week = \<lparr>qw_window = SevenDay, qw_utilization = Some 1,
    qw_utilizationSource = Continuous, qw_resetsAt = Some 500000, qw_resetSource = ProviderReported,
    qw_lastCheckedAt = 90, qw_advisory = Some True, qw_revision = None, qw_evidenceState = None,
    qw_blocksRouting = None, qw_retiredAt = None\<rparr>"
  define f where "f = \<lparr>af_kind = RateLimited, af_status = Some 429, af_resetsAt = None,
    af_retryAfterSeconds = None, af_resetSource = None, af_message = ''2056''\<rparr>"
  have "\<exists>u. bs_cooldownUntil (recordFailure HEALTHY (withPlanReset f [week] 100 1000) 100 NO_BREAKER_OPTIONS) = Some u
          \<and> 500000 \<le> u"
    by (rule plan_reset_outlasts_spent_windows [where w = week])
      (auto simp: f_def week_def reportedReset_def latestResetDeadline_None refusalStands_def HEALTHY_def
        MAX_TIME_VALUE_def lent_reset_def retiredEvidence_def)
  then show ?thesis unfolding Let_def f_def week_def .
qed

end
