(* ===== verification/Recovery_Gate.thy ===== *)
theory Recovery_Gate
  imports Quota
begin

text \<open>
  The pure predicates around a recovering account: \<open>recovery-filter.ts\<close> (the durable recovery gate
  and its permit), \<open>cooldown-recheck.ts\<close> (the hourly look) and \<open>exhausted-retest.ts\<close> (the doubling
  clock of an account out of credits).
\<close>

section \<open>The recovery gate (\<open>recovery-filter.ts\<close>)\<close>

definition hasRecoveryPermit :: "account_snapshot \<Rightarrow> bool" where
  "hasRecoveryPermit a \<longleftrightarrow>
     (case acc_recovery a of None \<Rightarrow> False | Some r \<Rightarrow> rs_state r = Issued \<and> rs_localAvailable r)"

definition recoveryIsGated :: "account_snapshot \<Rightarrow> bool" where
  "recoveryIsGated a \<longleftrightarrow>
     (case acc_recovery a of None \<Rightarrow> False | Some r \<Rightarrow> rs_state r \<noteq> Succeeded \<and> rs_state r \<noteq> Cancelled)"

definition recoveryBlocksBackground :: "account_snapshot \<Rightarrow> instant \<Rightarrow> bool" where
  "recoveryBlocksBackground a now =
     (case acc_recovery a of
        None \<Rightarrow> False
      | Some r \<Rightarrow>
          if rs_state r = Issued then True
          else (rs_state r = Failed \<or> rs_state r = Uncertain) \<and> rs_nextAllowedAt r > now)"

definition recoveryAwaitsProbe :: "account_snapshot \<Rightarrow> instant \<Rightarrow> rat \<Rightarrow> bool" where
  "recoveryAwaitsProbe a now threshold =
     (case acc_recovery a of
        None \<Rightarrow> False
      | Some r \<Rightarrow>
          if rs_state r \<noteq> Failed \<and> rs_state r \<noteq> Uncertain then False
          else if rs_nextAllowedAt r > now then False
          else if acc_status a \<noteq> Active \<and> acc_status a \<noteq> CoolingDown then False
          else if (case ah_cooldownUntil (acc_health a) of None \<Rightarrow> False | Some u \<Rightarrow> u > now) then False
          else findSpentWindow a now threshold = None)"

definition recoveryAllowsQuota :: "account_snapshot \<Rightarrow> instant \<Rightarrow> rat \<Rightarrow> bool" where
  "recoveryAllowsQuota a now threshold =
     (if \<not> hasRecoveryPermit a then False
      else list_all (\<lambda>w.
             \<not> isWindowSpent w now threshold \<or>
             (qw_revision w \<noteq> None \<and>
              (case acc_recovery a of
                 None \<Rightarrow> False
               | Some r \<Rightarrow> map_of (rs_quotaRevisions r) (qw_window w) = qw_revision w)))
           (or_default (acc_quotaWindows a) []))"

section \<open>The hourly recheck (\<open>cooldown-recheck.ts\<close>)\<close>

definition cooldownRecheckDue :: "account_snapshot \<Rightarrow> instant \<Rightarrow> int \<Rightarrow> rat \<Rightarrow> bool" where
  "cooldownRecheckDue a now horizonMs threshold =
     (if acc_status a \<noteq> Active \<and> acc_status a \<noteq> CoolingDown then False
      else if ah_cooldownReason (acc_health a) = Some CredentialRejected then False
      else
        let held = ah_cooldownUntil (acc_health a);
            running = (case held of None \<Rightarrow> False | Some h \<Rightarrow> h > now);
            spent = filter (\<lambda>w. isWindowSpent w now threshold) (or_default (acc_quotaWindows a) []);
            noStatedEnd = (acc_status a = CoolingDown \<and> held = None) \<or> list_ex (\<lambda>w. qw_resetsAt w = None) spent
        in if noStatedEnd then True
        else if \<not> running \<and> spent = [] then False
        else
          let clearsAt = fold max (map (\<lambda>w. or_default (qw_resetsAt w) 0) spent)
                           (if running then the held else 0)
          in clearsAt - now > horizonMs)"

definition readingReopened :: "account_snapshot \<Rightarrow> account_snapshot \<Rightarrow> instant \<Rightarrow> rat \<Rightarrow> bool" where
  "readingReopened before after now threshold =
     (let windows = or_default (acc_quotaWindows after) [];
          reread = list_ex (\<lambda>w.
            case find (\<lambda>p. qw_window p = qw_window w) (or_default (acc_quotaWindows before) []) of
              None \<Rightarrow> True
            | Some held \<Rightarrow> qw_lastCheckedAt w > qw_lastCheckedAt held) windows
      in reread \<and> \<not> list_ex (\<lambda>w. isWindowSpent w now threshold) windows)"

section \<open>The exit from \<open>exhausted\<close> (\<open>exhausted-retest.ts\<close>)\<close>

record retest_schedule =
  es_firstMs :: int
  es_maxMs :: int

record exhausted_watch =
  ew_retests :: nat
  ew_dueAt :: instant
  ew_lastRetestAt :: "instant option"

record exhausted_step =
  st_watch :: "exhausted_watch option"
  st_retest :: bool

definition retestWait :: "nat \<Rightarrow> retest_schedule \<Rightarrow> int" where
  "retestWait retests schedule = min (es_firstMs schedule * 2 ^ retests) (es_maxMs schedule)"

definition stepExhaustedWatch ::
  "exhausted_watch option \<Rightarrow> bool \<Rightarrow> instant \<Rightarrow> retest_schedule \<Rightarrow> exhausted_step" where
  "stepExhaustedWatch watch exhausted nowMs schedule =
     (if \<not> exhausted then
        let probation = (case watch of
                           None \<Rightarrow> False
                         | Some w \<Rightarrow> (case ew_lastRetestAt w of
                                       None \<Rightarrow> False
                                     | Some l \<Rightarrow> nowMs - l < es_maxMs schedule))
        in \<lparr>st_watch = (if probation then watch else None), st_retest = False\<rparr>
      else case watch of
             None \<Rightarrow>
               \<lparr>st_watch = Some \<lparr>ew_retests = 0, ew_dueAt = nowMs + retestWait 0 schedule,
                                ew_lastRetestAt = None\<rparr>,
                st_retest = False\<rparr>
           | Some w \<Rightarrow>
               if nowMs < ew_dueAt w then \<lparr>st_watch = watch, st_retest = False\<rparr>
               else
                 let retests = ew_retests w + 1
                 in \<lparr>st_watch = Some \<lparr>ew_retests = retests, ew_dueAt = nowMs + retestWait retests schedule,
                                     ew_lastRetestAt = Some nowMs\<rparr>,
                     st_retest = True\<rparr>)"

section \<open>Facts the filter uses\<close>

lemma recoveryAllowsQuota_permit: "recoveryAllowsQuota a now th \<Longrightarrow> hasRecoveryPermit a"
  by (simp add: recoveryAllowsQuota_def split: if_splits)

lemma permit_gated: "hasRecoveryPermit a \<Longrightarrow> recoveryIsGated a"
  by (auto simp: hasRecoveryPermit_def recoveryIsGated_def split: option.splits)

lemma findSpentWindow_None:
  "findSpentWindow a now th = None \<longleftrightarrow> (\<forall>w \<in> set (or_default (acc_quotaWindows a) []). \<not> isWindowSpent w now th)"
  by (simp add: findSpentWindow_def find_None)

lemma findSpentWindow_Some:
  "findSpentWindow a now th = Some w \<Longrightarrow> w \<in> set (or_default (acc_quotaWindows a) []) \<and> isWindowSpent w now th"
  unfolding findSpentWindow_def by (rule find_SomeD)

end
