(* ===== verification/Model_Resolution.thy ===== *)
theory Model_Resolution
  imports Routing_Types Breaker
begin

text \<open>
  Which model name an account is sent, and whether it serves it: \<open>context-tag.ts\<close>,
  \<open>model-family.ts\<close> and \<open>model.ts\<close> of \<open>services/routing\<close>, \<open>own-entry.ts\<close> of the core package, and the
  three model families the provider drivers declare.
\<close>

section \<open>Context tags (\<open>context-tag.ts\<close>)\<close>

definition tag_char :: "char \<Rightarrow> bool" where
  "tag_char c \<longleftrightarrow>
     (of_char c :: nat) \<in> {48..57} \<union> {65..90} \<union> {97..122}"

text \<open>What \<open>.\<close> refuses: \<open>\n\<close> and \<open>\r\<close> are the line terminators among the Latin-1 code units.\<close>

definition line_terminator :: "char \<Rightarrow> bool" where
  "line_terminator c \<longleftrightarrow> c = CHR 0x0A \<or> c = CHR 0x0D"

text \<open>
  \<open>/^(.+?)\[([a-z0-9]+)\]$/i\<close> read from the end: the bracket, the longest run of tag characters, the
  opening bracket, a non-empty base. The tag cannot hold a bracket, so the split is unique and the
  lazy quantifier has nothing to choose; \<open>splitContextTag_iff\<close> states the expression itself.
\<close>

definition splitContextTag :: "string \<Rightarrow> (string \<times> string) option" where
  "splitContextTag model =
     (case rev model of
        [] \<Rightarrow> None
      | close # r \<Rightarrow>
          if close \<noteq> CHR '']'' then None
          else
            let tag = takeWhile tag_char r
            in case dropWhile tag_char r of
                 [] \<Rightarrow> None
               | opening # b \<Rightarrow>
                   if opening = CHR ''['' \<and> tag \<noteq> [] \<and> b \<noteq> [] \<and> \<not> list_ex line_terminator b
                   then Some (rev b, rev tag) else None)"

section \<open>Model families (\<open>model-family.ts\<close> and the drivers)\<close>

definition inModelFamily :: "reg_exp list \<Rightarrow> string \<Rightarrow> bool" where
  "inModelFamily patterns model = list_ex (\<lambda>p. re_test p model) patterns"

definition prefix_pattern :: "regex \<Rightarrow> reg_exp" where
  "prefix_pattern r = \<lparr>rx_start = True, rx_body = r, rx_end = False\<rparr>"

definition CODEX_MODEL_FAMILY :: "reg_exp list" where
  "CODEX_MODEL_FAMILY =
     [prefix_pattern (RLit ''gpt-''), prefix_pattern (RLit ''codex-''),
      prefix_pattern (RSeq (RLit ''o'') (RClass False ''0123456789''))]"

definition CLAUDE_ALIASES :: "string list" where
  "CLAUDE_ALIASES = [''opus'', ''sonnet'', ''haiku'', ''fable'', ''best'', ''default'', ''opusplan'']"

definition RPlus :: "regex \<Rightarrow> regex" where
  "RPlus r = RSeq r (RStar r)"

definition CLAUDE_MODEL_FAMILY :: "reg_exp list" where
  "CLAUDE_MODEL_FAMILY =
     [prefix_pattern (RLit ''claude-''),
      \<lparr>rx_start = True,
       rx_body = RSeq (RAlts (map RLit CLAUDE_ALIASES))
                   (RAlt (RSeq (RLit ''['') (RSeq (RPlus (RClass True '']'')) (RLit '']''))) REps),
       rx_end = True\<rparr>]"

definition NAMESPACED_MODEL_ID :: reg_exp where
  "NAMESPACED_MODEL_ID =
     \<lparr>rx_start = True,
      rx_body = RSeq (RPlus (RClass True (CHR ''/'' # WHITESPACE)))
                  (RSeq (RLit ''/'') (RSeq (RClass True (CHR ''/'' # WHITESPACE)) (RStar (RClass True WHITESPACE)))),
      rx_end = True\<rparr>"

section \<open>Resolution (\<open>model.ts\<close>)\<close>

text \<open>
  \<open>ownEntry\<close> sees own properties only; an alias map's entries are its own properties, so a name like
  \<open>constructor\<close> is found only when the operator wrote it.
\<close>

definition ownEntry :: "(string \<times> 'v) list option \<Rightarrow> string \<Rightarrow> 'v option" where
  "ownEntry rec k = (case rec of None \<Rightarrow> None | Some es \<Rightarrow> map_of es k)"

record model_resolution =
  mr_upstreamModel :: string
  mr_supported :: bool
  mr_aliased :: bool
  mr_strippedContextTag :: "string option"

definition serves :: "account_snapshot \<Rightarrow> string \<Rightarrow> bool" where
  "serves a upstreamModel =
     (let byFamily = (case acc_modelFamily a of
                        Some family \<Rightarrow> inModelFamily family upstreamModel
                      | None \<Rightarrow> True)
      in case acc_supportedModels a of
           None \<Rightarrow> byFamily
         | Some declared \<Rightarrow> if declared \<noteq> [] then upstreamModel \<in> set declared else byFamily)"

definition resolveExact :: "account_snapshot \<Rightarrow> string \<Rightarrow> model_resolution" where
  "resolveExact a requestedModel =
     (let alias = (case ownEntry (acc_modelAliases a) requestedModel of Some (Some v) \<Rightarrow> Some v | _ \<Rightarrow> None);
          upstreamModel = or_default alias requestedModel
      in \<lparr>mr_upstreamModel = upstreamModel, mr_supported = serves a upstreamModel,
          mr_aliased = (alias \<noteq> None), mr_strippedContextTag = None\<rparr>)"

definition resolveModel :: "account_snapshot \<Rightarrow> string \<Rightarrow> model_resolution" where
  "resolveModel a requestedModel =
     (let exact = resolveExact a requestedModel
      in if mr_aliased exact \<or> acc_understandsContextTags a then exact
      else case splitContextTag requestedModel of
             None \<Rightarrow> exact
           | Some (base, tag) \<Rightarrow>
               if (case acc_supportedModels a of None \<Rightarrow> False | Some ms \<Rightarrow> requestedModel \<in> set ms)
               then exact
               else (resolveExact a base)\<lparr>mr_strippedContextTag := Some tag\<rparr>)"

definition advertisedModels :: "account_snapshot \<Rightarrow> string list" where
  "advertisedModels a =
     (let names = js_unique (or_default (acc_supportedModels a) [] @ map fst (or_default (acc_modelAliases a) []))
      in filter (\<lambda>name. mr_supported (resolveModel a name)) names)"

section \<open>The split is the expression\<close>

lemma takeWhile_tag_append:
  "list_all tag_char t \<Longrightarrow> \<not> tag_char c \<Longrightarrow>
     takeWhile tag_char (t @ c # b) = t \<and> dropWhile tag_char (t @ c # b) = c # b"
  by (induction t) auto

lemma bracket_not_tag [simp]: "\<not> tag_char CHR ''[''" "\<not> tag_char CHR '']''"
  by (simp_all add: tag_char_def)

lemma splitContextTag_iff:
  "splitContextTag model = Some (base, tag) \<longleftrightarrow>
     model = base @ ''['' @ tag @ '']'' \<and>
     base \<noteq> [] \<and> \<not> list_ex line_terminator base \<and> tag \<noteq> [] \<and> list_all tag_char tag"
proof
  assume "splitContextTag model = Some (base, tag)"
  then obtain r b where m: "rev model = CHR '']'' # r" and d: "dropWhile tag_char r = CHR ''['' # b"
    and rest: "takeWhile tag_char r \<noteq> []" "b \<noteq> []" "\<not> list_ex line_terminator b"
      "base = rev b" "tag = rev (takeWhile tag_char r)"
    by (auto simp: splitContextTag_def Let_def split: list.splits if_splits)
  have "r = rev tag @ CHR ''['' # rev base"
    using takeWhile_dropWhile_id [of tag_char r] d rest by simp
  then have "model = base @ ''['' @ tag @ '']''"
    using arg_cong [OF m, of rev] by simp
  moreover have "list_all tag_char tag" using rest(5) by (auto simp: list_all_iff dest: set_takeWhileD)
  ultimately show "model = base @ ''['' @ tag @ '']'' \<and>
     base \<noteq> [] \<and> \<not> list_ex line_terminator base \<and> tag \<noteq> [] \<and> list_all tag_char tag"
    using rest by (auto simp: list_ex_iff)
next
  assume a: "model = base @ ''['' @ tag @ '']'' \<and>
     base \<noteq> [] \<and> \<not> list_ex line_terminator base \<and> tag \<noteq> [] \<and> list_all tag_char tag"
  then have "rev model = CHR '']'' # rev tag @ CHR ''['' # rev base" by simp
  moreover have "list_all tag_char (rev tag)" using a by (simp add: list_all_iff)
  ultimately show "splitContextTag model = Some (base, tag)"
    using a takeWhile_tag_append [of "rev tag" "CHR ''[''" "rev base"]
    by (auto simp: splitContextTag_def Let_def list_ex_iff)
qed

lemma advertisedModels_set:
  "name \<in> set (advertisedModels a) \<longleftrightarrow>
     mr_supported (resolveModel a name) \<and>
     (name \<in> set (or_default (acc_supportedModels a) []) \<or>
      name \<in> fst ` set (or_default (acc_modelAliases a) []))"
  by (auto simp: advertisedModels_def Let_def)

text \<open>
  A context tag is a hint, not a name: on an account whose provider does not read tags, a
  tagged request the operator neither listed nor aliased is served exactly when its base name is,
  under the same upstream name, with the tag recorded.
\<close>

theorem context_tag_is_dropped:
  assumes "\<not> acc_understandsContextTags a"
    and "base \<noteq> []" "\<not> list_ex line_terminator base" "tag \<noteq> []" "list_all tag_char tag"
    and "base @ ''['' @ tag @ '']'' \<notin> set (or_default (acc_supportedModels a) [])"
    and "ownEntry (acc_modelAliases a) (base @ ''['' @ tag @ '']'') = None"
  shows "resolveModel a (base @ ''['' @ tag @ '']'') =
     (resolveExact a base)\<lparr>mr_strippedContextTag := Some tag\<rparr>"
proof -
  have "splitContextTag (base @ ''['' @ tag @ '']'') = Some (base, tag)"
    using assms(2-5) by (simp add: splitContextTag_iff)
  moreover have "\<not> mr_aliased (resolveExact a (base @ ''['' @ tag @ '']''))"
    using assms(7) by (simp add: resolveExact_def Let_def)
  ultimately show ?thesis
    using assms(1,6) by (auto simp: resolveModel_def split: option.splits)
qed

definition EMPTY_HEALTH :: account_health where
  "EMPTY_HEALTH =
     \<lparr>ah_cooldownUntil = None, ah_cooldownSource = None, ah_cooldownReason = None,
      ah_consecutiveFailures = 0, ah_probeHeldUntil = None, ah_inFlight = 0, ah_recentTokens = 0\<rparr>"

text \<open>A plain account, the base of the concrete instances.\<close>

definition plain_account :: "account_id \<Rightarrow> provider_id \<Rightarrow> account_snapshot" where
  "plain_account i p =
     \<lparr>acc_recovery = None, acc_id = i, acc_label = i, acc_provider = p, acc_status = Active,
      acc_weight = 1, acc_priority = 0, acc_supportedModels = None, acc_modelFamily = None,
      acc_understandsContextTags = False, acc_modelAliases = None, acc_quotaWindows = None,
      acc_limiterWindows = None, acc_health = EMPTY_HEALTH\<rparr>"

theorem context_tag_is_dropped_witness:
  "let a = (plain_account ''acc_1'' OpenAiOAuth)\<lparr>acc_modelFamily := Some CODEX_MODEL_FAMILY\<rparr>
   in resolveModel a ''gpt-6.1-sol[1m]'' = (resolveExact a ''gpt-6.1-sol'')\<lparr>mr_strippedContextTag := Some ''1m''\<rparr>
      \<and> mr_supported (resolveModel a ''gpt-6.1-sol[1m]'')"
proof -
  define a where "a = (plain_account ''acc_1'' OpenAiOAuth)\<lparr>acc_modelFamily := Some CODEX_MODEL_FAMILY\<rparr>"
  have "resolveModel a (''gpt-6.1-sol'' @ ''['' @ ''1m'' @ '']'') =
      (resolveExact a ''gpt-6.1-sol'')\<lparr>mr_strippedContextTag := Some ''1m''\<rparr>"
    by (rule context_tag_is_dropped)
      (simp_all add: a_def plain_account_def ownEntry_def line_terminator_def tag_char_def)
  moreover have "mr_supported (resolveExact a ''gpt-6.1-sol'')"
  proof -
    have "re_test (prefix_pattern (RLit ''gpt-'')) ''gpt-6.1-sol''" by (simp add: prefix_pattern_def re_test_prefix del: RLit.simps)
    then show ?thesis
      by (simp add: resolveExact_def serves_def a_def plain_account_def ownEntry_def inModelFamily_def CODEX_MODEL_FAMILY_def
          del: RLit.simps)
  qed
  ultimately show ?thesis unfolding Let_def a_def by simp
qed

section \<open>Families\<close>

lemma re_test_prefix_pattern: "re_test (prefix_pattern r) s \<longleftrightarrow> (\<exists>u v. s = u @ v \<and> in_lang r u)"
  by (simp add: re_test_def regex_of_def prefix_pattern_def re_matches_lang lang_seq_iff)

lemma codex_head:
  assumes "inModelFamily CODEX_MODEL_FAMILY name"
  shows "prefix ''gpt-'' name \<or> prefix ''codex-'' name \<or>
         (\<exists>d rest. name = CHR ''o'' # d # rest \<and> d \<in> set ''0123456789'')"
  using assms
  by (auto simp: inModelFamily_def CODEX_MODEL_FAMILY_def re_test_prefix_pattern prefix_def lang_seq_iff)

lemma claude_head:
  assumes "inModelFamily CLAUDE_MODEL_FAMILY name"
  shows "prefix ''claude-'' name \<or> (\<exists>w \<in> set CLAUDE_ALIASES. prefix w name)"
  using assms
  by (auto simp: inModelFamily_def CLAUDE_MODEL_FAMILY_def re_test_prefix_pattern prefix_def
      re_test_def [of "\<lparr>rx_start = True, rx_body = _, rx_end = True\<rparr>"] regex_of_def re_matches_lang
      lang_seq_iff)

text \<open>
  The two subscription families never overlap: with nothing declared, no model name is served
  by both a Claude subscription and a ChatGPT subscription, so a key scoped to one of each always
  has the vendor decided by the name the client sent.
\<close>

theorem subscription_families_disjoint:
  "\<not> (inModelFamily CODEX_MODEL_FAMILY name \<and> inModelFamily CLAUDE_MODEL_FAMILY name)"
proof
  assume "inModelFamily CODEX_MODEL_FAMILY name \<and> inModelFamily CLAUDE_MODEL_FAMILY name"
  then show False
    using codex_head [of name] claude_head [of name]
    by (auto simp: CLAUDE_ALIASES_def prefix_def)
qed

end
