(* ===== verification/Candidate_Filter.thy ===== *)
theory Candidate_Filter
  imports Recovery_Gate Model_Resolution
begin

text \<open>
  \<open>filter.ts\<close> of \<open>services/routing\<close>: of the in-scope accounts, the ones that can serve this request,
  and for each other one the reason it was dropped. The verdict's meaning is stated apart from the
  code's order of checks as \<open>admissible\<close>; selection and the session binding rely on the contract
  \<open>candidate_gate\<close>.
\<close>

datatype candidate_verdict = Admitted candidate | Dropped rejected_candidate

definition drop_verdict ::
  "account_snapshot \<Rightarrow> filter_reason \<Rightarrow> instant option \<Rightarrow> reset_source option \<Rightarrow> quota_window_kind option
     \<Rightarrow> candidate_verdict" where
  "drop_verdict a reason resetsAt source w =
     Dropped \<lparr>rj_accountId = acc_id a, rj_label = acc_label a, rj_reason = reason, rj_resetsAt = resetsAt,
              rj_resetSource = source, rj_window = w\<rparr>"

definition providerReportedCooldown :: "account_snapshot \<Rightarrow> instant \<Rightarrow> bool" where
  "providerReportedCooldown a now \<longleftrightarrow>
     (let h = acc_health a
      in ah_cooldownSource h = Some ProviderReported \<and> ah_cooldownReason h \<noteq> Some CredentialRejected \<and>
         (case ah_cooldownUntil h of None \<Rightarrow> False | Some u \<Rightarrow> u > now))"

definition coolingDown :: "account_snapshot \<Rightarrow> instant \<Rightarrow> bool" where
  "coolingDown a now =
     (let until = ah_cooldownUntil (acc_health a)
      in if (case until of None \<Rightarrow> False | Some u \<Rightarrow> u > now) then True
         else acc_status a = CoolingDown \<and> until = None)"

definition evaluateCandidate ::
  "scoped_account \<Rightarrow> string \<Rightarrow> instant \<Rightarrow> selection_options \<Rightarrow> candidate_verdict" where
  "evaluateCandidate m model now opts =
     (let a = sa_account m
      in if acc_status a = Disabled then drop_verdict a FDisabled None None None
      else if acc_status a = NeedsReauth then drop_verdict a FNeedsReauth None None None
      else if acc_status a = Exhausted then drop_verdict a FExhausted None None None
      else
        let resolution = resolveModel a model
        in if \<not> mr_supported resolution then drop_verdict a FModelUnsupported None None None
        else
          let threshold = or_default (so_quotaSpentThreshold opts) DEFAULT_QUOTA_SPENT_THRESHOLD;
              spent = findSpentWindow a now threshold;
              spentDrop = (case spent of
                 None \<Rightarrow> None
               | Some w \<Rightarrow>
                   if \<not> recoveryAllowsQuota a now threshold
                   then Some (drop_verdict a FQuotaWindowSpent (qw_resetsAt w) (Some (qw_resetSource w)) (Some (qw_window w)))
                   else None);
              coolingDrop = drop_verdict a
                 (if ah_cooldownReason (acc_health a) = Some CredentialRejected then FCredentialRejected else FCoolingDown)
                 (ah_cooldownUntil (acc_health a)) (ah_cooldownSource (acc_health a)) None
          in if providerReportedCooldown a now then coolingDrop
          else if spentDrop \<noteq> None \<and> map_option qw_resetSource spent = Some ProviderReported then the spentDrop
          else
            let permit = hasRecoveryPermit a
            in if recoveryIsGated a \<and> \<not> permit
            then drop_verdict a FProbeInFlight
                   (case acc_recovery a of
                      None \<Rightarrow> None
                    | Some r \<Rightarrow> (case rs_retryAt r of Some t \<Rightarrow> Some t | None \<Rightarrow> Some (rs_nextAllowedAt r)))
                   (Some Estimated) None
            else if coolingDown a now \<and> (\<not> permit \<or> ah_cooldownUntil (acc_health a) \<noteq> None) then coolingDrop
            else if acc_status a = CoolingDown \<and>
                    (case ah_probeHeldUntil (acc_health a) of None \<Rightarrow> False | Some h \<Rightarrow> h > now)
            then drop_verdict a FProbeInFlight (ah_probeHeldUntil (acc_health a)) (Some Estimated) None
            else case spentDrop of
                   Some d \<Rightarrow> d
                 | None \<Rightarrow>
                     Admitted \<lparr>sa_account = sa_account m, sa_poolId = sa_poolId m, sa_weight = sa_weight m,
                       sa_priority = sa_priority m, sa_order = sa_order m,
                       cd_upstreamModel = mr_upstreamModel resolution,
                       cd_halfOpen = (acc_status a = CoolingDown \<or> permit),
                       cd_recoveryPermit = permit,
                       cd_aliased = (mr_upstreamModel resolution \<noteq> model)\<rparr>)"

record filter_result =
  fr_eligible :: "candidate list"
  fr_rejected :: "rejected_candidate list"

definition push_verdict :: "filter_result \<Rightarrow> candidate_verdict \<Rightarrow> filter_result" where
  "push_verdict r v =
     (case v of
        Admitted c \<Rightarrow> r\<lparr>fr_eligible := fr_eligible r @ [c]\<rparr>
      | Dropped d \<Rightarrow> r\<lparr>fr_rejected := fr_rejected r @ [d]\<rparr>)"

definition filterCandidates ::
  "scoped_account list \<Rightarrow> string \<Rightarrow> instant \<Rightarrow> selection_options \<Rightarrow> filter_result" where
  "filterCandidates members model now opts =
     foldl (\<lambda>r m. push_verdict r (evaluateCandidate m model now opts))
       \<lparr>fr_eligible = [], fr_rejected = []\<rparr> members"

section \<open>What a verdict means\<close>

definition spent_threshold :: "selection_options \<Rightarrow> rat" where
  "spent_threshold opts = or_default (so_quotaSpentThreshold opts) DEFAULT_QUOTA_SPENT_THRESHOLD"

definition revision_captured :: "account_snapshot \<Rightarrow> quota_window \<Rightarrow> bool" where
  "revision_captured a w \<longleftrightarrow>
     (\<exists>r n. acc_recovery a = Some r \<and> qw_revision w = Some n \<and> map_of (rs_quotaRevisions r) (qw_window w) = Some n)"

definition admissible :: "account_snapshot \<Rightarrow> string \<Rightarrow> instant \<Rightarrow> rat \<Rightarrow> bool" where
  "admissible a model now th \<longleftrightarrow>
     acc_status a \<in> {Active, CoolingDown} \<and>
     mr_supported (resolveModel a model) \<and>
     (\<forall>t. ah_cooldownUntil (acc_health a) = Some t \<longrightarrow> t \<le> now) \<and>
     (acc_status a = CoolingDown \<and> ah_cooldownUntil (acc_health a) = None \<longrightarrow> hasRecoveryPermit a) \<and>
     (recoveryIsGated a \<longrightarrow> hasRecoveryPermit a) \<and>
     (acc_status a = CoolingDown \<longrightarrow> (\<forall>h. ah_probeHeldUntil (acc_health a) = Some h \<longrightarrow> h \<le> now)) \<and>
     (\<forall>w \<in> set (or_default (acc_quotaWindows a) []).
        isWindowSpent w now th \<longrightarrow> hasRecoveryPermit a \<and> revision_captured a w)"

lemma recoveryAllowsQuota_iff:
  "recoveryAllowsQuota a now th \<longleftrightarrow>
     hasRecoveryPermit a \<and>
     (\<forall>w \<in> set (or_default (acc_quotaWindows a) []). isWindowSpent w now th \<longrightarrow> revision_captured a w)"
  by (auto simp: recoveryAllowsQuota_def list_all_iff revision_captured_def split: option.splits)

lemma quota_clause:
  "(findSpentWindow a now th = None \<or> recoveryAllowsQuota a now th) \<longleftrightarrow>
     (\<forall>w \<in> set (or_default (acc_quotaWindows a) []).
        isWindowSpent w now th \<longrightarrow> hasRecoveryPermit a \<and> revision_captured a w)"
  by (cases "findSpentWindow a now th")
    (auto simp: findSpentWindow_None recoveryAllowsQuota_iff dest: findSpentWindow_Some)

lemma drop_not_admitted [simp]: "drop_verdict a r t s w \<noteq> Admitted c" "Admitted c \<noteq> drop_verdict a r t s w"
  by (simp_all add: drop_verdict_def)

definition candidate_of :: "scoped_account \<Rightarrow> string \<Rightarrow> candidate" where
  "candidate_of m model =
     \<lparr>sa_account = sa_account m, sa_poolId = sa_poolId m, sa_weight = sa_weight m,
      sa_priority = sa_priority m, sa_order = sa_order m,
      cd_upstreamModel = mr_upstreamModel (resolveModel (sa_account m) model),
      cd_halfOpen = (acc_status (sa_account m) = CoolingDown \<or> hasRecoveryPermit (sa_account m)),
      cd_recoveryPermit = hasRecoveryPermit (sa_account m),
      cd_aliased = (mr_upstreamModel (resolveModel (sa_account m) model) \<noteq> model)\<rparr>"

lemma coolingDown_iff:
  "coolingDown a now \<longleftrightarrow>
     (\<exists>t. ah_cooldownUntil (acc_health a) = Some t \<and> now < t) \<or>
     (acc_status a = CoolingDown \<and> ah_cooldownUntil (acc_health a) = None)"
  by (auto simp: coolingDown_def Let_def split: option.splits)

lemma providerReportedCooldown_cooling: "providerReportedCooldown a now \<Longrightarrow> coolingDown a now"
  by (auto simp: coolingDown_iff providerReportedCooldown_def Let_def split: option.splits)

text \<open>The verdict with the quota and clock tests named once.\<close>

definition quota_blocked :: "account_snapshot \<Rightarrow> instant \<Rightarrow> rat \<Rightarrow> quota_window option" where
  "quota_blocked a now th =
     (case findSpentWindow a now th of
        None \<Rightarrow> None
      | Some w \<Rightarrow> if recoveryAllowsQuota a now th then None else Some w)"

definition spent_drop :: "account_snapshot \<Rightarrow> quota_window \<Rightarrow> candidate_verdict" where
  "spent_drop a w = drop_verdict a FQuotaWindowSpent (qw_resetsAt w) (Some (qw_resetSource w)) (Some (qw_window w))"

definition cooling_drop :: "account_snapshot \<Rightarrow> candidate_verdict" where
  "cooling_drop a =
     drop_verdict a
       (if ah_cooldownReason (acc_health a) = Some CredentialRejected then FCredentialRejected else FCoolingDown)
       (ah_cooldownUntil (acc_health a)) (ah_cooldownSource (acc_health a)) None"

definition probe_held :: "account_snapshot \<Rightarrow> instant \<Rightarrow> bool" where
  "probe_held a now \<longleftrightarrow>
     acc_status a = CoolingDown \<and> (\<exists>h. ah_probeHeldUntil (acc_health a) = Some h \<and> now < h)"

lemma evaluateCandidate_cases:
  assumes a: "a = sa_account m" and st: "acc_status a = Active \<or> acc_status a = CoolingDown"
    and sup: "mr_supported (resolveModel a model)"
  shows "evaluateCandidate m model now opts =
     (if providerReportedCooldown a now then cooling_drop a
      else if \<exists>w. quota_blocked a now (spent_threshold opts) = Some w \<and> qw_resetSource w = ProviderReported
      then spent_drop a (the (quota_blocked a now (spent_threshold opts)))
      else if recoveryIsGated a \<and> \<not> hasRecoveryPermit a
      then drop_verdict a FProbeInFlight
             (case acc_recovery a of
                None \<Rightarrow> None
              | Some r \<Rightarrow> (case rs_retryAt r of Some t \<Rightarrow> Some t | None \<Rightarrow> Some (rs_nextAllowedAt r)))
             (Some Estimated) None
      else if coolingDown a now \<and> (\<not> hasRecoveryPermit a \<or> ah_cooldownUntil (acc_health a) \<noteq> None)
      then cooling_drop a
      else if probe_held a now
      then drop_verdict a FProbeInFlight (ah_probeHeldUntil (acc_health a)) (Some Estimated) None
      else case quota_blocked a now (spent_threshold opts) of
             Some w \<Rightarrow> spent_drop a w
           | None \<Rightarrow> Admitted (candidate_of m model))"
proof -
  have not: "acc_status (sa_account m) \<noteq> Disabled" "acc_status (sa_account m) \<noteq> NeedsReauth"
    "acc_status (sa_account m) \<noteq> Exhausted" using st a by auto
  have held: "(acc_status a = CoolingDown \<and> (case ah_probeHeldUntil (acc_health a) of None \<Rightarrow> False | Some h \<Rightarrow> h > now))
     = probe_held a now"
    by (auto simp: probe_held_def split: option.splits)
  show ?thesis
    unfolding evaluateCandidate_def Let_def a [symmetric] held cooling_drop_def [symmetric]
      spent_threshold_def [symmetric]
    using not sup a
    by (cases "findSpentWindow a now (spent_threshold opts)")
      (auto simp: quota_blocked_def spent_drop_def candidate_of_def)
qed

lemma evaluateCandidate_standing:
  "acc_status (sa_account m) \<notin> {Active, CoolingDown} \<or> \<not> mr_supported (resolveModel (sa_account m) model) \<Longrightarrow>
     \<exists>r. evaluateCandidate m model now opts = drop_verdict (sa_account m) r None None None \<and>
         r \<in> {FDisabled, FNeedsReauth, FExhausted, FModelUnsupported} \<and>
         (r = FModelUnsupported \<longleftrightarrow> acc_status (sa_account m) \<in> {Active, CoolingDown})"
  by (cases "acc_status (sa_account m)") (auto simp: evaluateCandidate_def Let_def)

lemma quota_blocked_None:
  "quota_blocked a now th = None \<longleftrightarrow>
     (\<forall>w \<in> set (or_default (acc_quotaWindows a) []).
        isWindowSpent w now th \<longrightarrow> hasRecoveryPermit a \<and> revision_captured a w)"
  unfolding quota_clause [symmetric] by (auto simp: quota_blocked_def split: option.splits)

lemma quota_blocked_Some:
  "quota_blocked a now th = Some w \<Longrightarrow> isWindowSpent w now th"
  by (auto simp: quota_blocked_def split: option.splits if_splits dest: findSpentWindow_Some)

lemma evaluate_admitted_iff:
  "evaluateCandidate m model now opts = Admitted c \<longleftrightarrow>
     admissible (sa_account m) model now (spent_threshold opts) \<and> c = candidate_of m model"
proof (cases "acc_status (sa_account m) \<in> {Active, CoolingDown} \<and> mr_supported (resolveModel (sa_account m) model)")
  case True
  define a where "a = sa_account m"
  note ev = evaluateCandidate_cases [OF a_def, of model now opts]
  have st: "acc_status a = Active \<or> acc_status a = CoolingDown" "mr_supported (resolveModel a model)"
    using True by (auto simp: a_def)
  have adm: "admissible a model now (spent_threshold opts) \<longleftrightarrow>
      \<not> (coolingDown a now \<and> (\<not> hasRecoveryPermit a \<or> ah_cooldownUntil (acc_health a) \<noteq> None)) \<and>
      \<not> (recoveryIsGated a \<and> \<not> hasRecoveryPermit a) \<and> \<not> probe_held a now \<and>
      quota_blocked a now (spent_threshold opts) = None"
    using st unfolding admissible_def quota_blocked_None coolingDown_iff probe_held_def
    by (cases "ah_cooldownUntil (acc_health a)"; cases "ah_probeHeldUntil (acc_health a)") auto
  have prov: "providerReportedCooldown a now \<Longrightarrow> coolingDown a now \<and> ah_cooldownUntil (acc_health a) \<noteq> None"
    using providerReportedCooldown_cooling [of a now]
    by (auto simp: providerReportedCooldown_def Let_def split: option.splits)
  show ?thesis
    unfolding a_def [symmetric] adm ev [OF st]
    using prov by (auto simp: cooling_drop_def spent_drop_def split: option.splits)
next
  case False
  then obtain r where "evaluateCandidate m model now opts = drop_verdict (sa_account m) r None None None"
    using evaluateCandidate_standing [of m model now opts] by auto
  then show ?thesis using False by (auto simp: admissible_def)
qed

lemma evaluate_dropped_id:
  "evaluateCandidate m model now opts = Dropped d \<Longrightarrow>
     rj_accountId d = sa_id m \<and> rj_label d = acc_label (sa_account m)"
  by (auto simp: evaluateCandidate_def Let_def drop_verdict_def split: if_splits option.splits)

section \<open>The contract of the filter\<close>

locale candidate_gate =
  fixes evaluate :: "scoped_account \<Rightarrow> candidate_verdict"
    and may_serve :: "account_snapshot \<Rightarrow> bool"
    and as_candidate :: "scoped_account \<Rightarrow> candidate"
  assumes admits: "evaluate m = Admitted c \<longleftrightarrow> may_serve (sa_account m) \<and> c = as_candidate m"
    and names: "evaluate m = Dropped d \<Longrightarrow> rj_accountId d = sa_id m"
    and keeps: "scoped_account.truncate (as_candidate m) = m"
begin

definition eligible :: "scoped_account list \<Rightarrow> candidate list" where
  "eligible ms = map as_candidate (filter (\<lambda>m. may_serve (sa_account m)) ms)"

definition dropped :: "scoped_account list \<Rightarrow> rejected_candidate list" where
  "dropped ms = List.map_filter (\<lambda>m. case evaluate m of Dropped d \<Rightarrow> Some d | Admitted _ \<Rightarrow> None) ms"

lemma keeps_account [simp]: "sa_account (as_candidate m) = sa_account m"
  using keeps [of m] by (cases "as_candidate m"; cases m) (simp add: scoped_account.truncate_def)

lemma fold_push:
  "foldl (\<lambda>r m. push_verdict r (evaluate m)) r ms =
     \<lparr>fr_eligible = fr_eligible r @ eligible ms, fr_rejected = fr_rejected r @ dropped ms\<rparr>"
proof (induction ms arbitrary: r)
  case (Cons m ms)
  show ?case
  proof (cases "evaluate m")
    case (Admitted c)
    then have "may_serve (sa_account m)" "c = as_candidate m" using admits by auto
    then show ?thesis
      using Admitted Cons.IH by (simp add: push_verdict_def eligible_def dropped_def map_filter_simps)
  next
    case (Dropped d)
    then have "\<not> may_serve (sa_account m)" using admits [of m "as_candidate m"] by auto
    then show ?thesis
      using Dropped Cons.IH by (simp add: push_verdict_def eligible_def dropped_def map_filter_simps)
  qed
qed (simp add: eligible_def dropped_def map_filter_simps)

lemma eligible_ids: "map (\<lambda>c. sa_id c) (eligible ms) = map (\<lambda>m. sa_id m) (filter (\<lambda>m. may_serve (sa_account m)) ms)"
  by (simp add: eligible_def)

lemma dropped_ids:
  "map rj_accountId (dropped ms) = map (\<lambda>m. sa_id m) (filter (\<lambda>m. \<not> may_serve (sa_account m)) ms)"
proof (induction ms)
  case (Cons m ms)
  show ?case
  proof (cases "evaluate m")
    case (Admitted c)
    then have "may_serve (sa_account m)" using admits by auto
    then show ?thesis using Admitted Cons by (simp add: dropped_def map_filter_simps)
  next
    case (Dropped d)
    then have "\<not> may_serve (sa_account m)" using admits [of m "as_candidate m"] by auto
    then show ?thesis using Dropped Cons names [OF Dropped] by (simp add: dropped_def map_filter_simps)
  qed
qed (simp add: dropped_def map_filter_simps)

end

interpretation gate: candidate_gate
  "\<lambda>m. evaluateCandidate m model now opts"
  "\<lambda>a. admissible a model now (spent_threshold opts)"
  "\<lambda>m. candidate_of m model"
  for model now opts
proof
  show "evaluateCandidate m model now opts = Admitted c \<longleftrightarrow>
      admissible (sa_account m) model now (spent_threshold opts) \<and> c = candidate_of m model" for m c
    by (rule evaluate_admitted_iff)
  show "rj_accountId d = sa_id m" if "evaluateCandidate m model now opts = Dropped d" for m d
    using evaluate_dropped_id [OF that] by simp
  show "scoped_account.truncate (candidate_of m model) = m" for m
    by (simp add: candidate_of_def scoped_account.truncate_def)
qed

lemma filterCandidates_alt:
  "filterCandidates ms model now opts =
     \<lparr>fr_eligible = gate.eligible model now opts ms, fr_rejected = gate.dropped model now opts ms\<rparr>"
  by (simp add: filterCandidates_def gate.fold_push)

section \<open>Properties\<close>

text \<open>
  (C25) The filter loses nobody and invents nobody: the eligible list is exactly the in-scope members
  that are admissible (usable status, supported model, no running cooldown, no foreign probe or
  recovery hold, no spent window beyond the permit's captured revisions), in order, and every other
  member is in the rejection list under its own id, in order.
\<close>

theorem filter_partitions_members:
  "fr_eligible (filterCandidates ms model now opts) =
     map (\<lambda>m. candidate_of m model) (filter (\<lambda>m. admissible (sa_account m) model now (spent_threshold opts)) ms) \<and>
   map rj_accountId (fr_rejected (filterCandidates ms model now opts)) =
     map (\<lambda>m. sa_id m) (filter (\<lambda>m. \<not> admissible (sa_account m) model now (spent_threshold opts)) ms)"
  by (simp add: filterCandidates_alt gate.eligible_def gate.dropped_ids)

lemma dropped_reason_cases:
  assumes "evaluateCandidate m model now opts = Dropped d" and "isRecoverableFilterReason (rj_reason d)"
  shows "acc_status (sa_account m) \<in> {Active, CoolingDown} \<and> mr_supported (resolveModel (sa_account m) model)"
proof (rule ccontr)
  assume "\<not> ?thesis"
  then have "acc_status (sa_account m) \<notin> {Active, CoolingDown} \<or> \<not> mr_supported (resolveModel (sa_account m) model)"
    by blast
  then obtain r where "evaluateCandidate m model now opts = drop_verdict (sa_account m) r None None None"
      and "r \<in> {FDisabled, FNeedsReauth, FExhausted, FModelUnsupported}"
    using evaluateCandidate_standing by blast
  then show False using assms by (auto simp: drop_verdict_def)
qed

text \<open>
  A "come back later" is never a lie: an account dropped for a reason a clock clears does
  serve the model and is not parked for a human; the reset it states for a cooldown or a spent
  window is ahead of the clock; and the router's own probe hold is named only when no clock the
  provider itself reported keeps the account out.
\<close>

theorem recoverable_drop_is_honest:
  assumes "evaluateCandidate m model now opts = Dropped d" and "isRecoverableFilterReason (rj_reason d)"
  shows "mr_supported (resolveModel (sa_account m) model) \<and> \<not> isStandingBlock (acc_status (sa_account m)) \<and>
    (rj_reason d \<noteq> FProbeInFlight \<longrightarrow> (\<forall>t. rj_resetsAt d = Some t \<longrightarrow> now < t)) \<and>
    (rj_reason d = FProbeInFlight \<longrightarrow>
       \<not> providerReportedCooldown (sa_account m) now \<and>
       (\<forall>w. findSpentWindow (sa_account m) now (spent_threshold opts) = Some w \<longrightarrow>
            qw_resetSource w = ProviderReported \<longrightarrow>
            recoveryAllowsQuota (sa_account m) now (spent_threshold opts)))"
proof -
  define a where "a = sa_account m"
  have st: "acc_status a = Active \<or> acc_status a = CoolingDown" "mr_supported (resolveModel a model)"
    using dropped_reason_cases [OF assms] by (auto simp: a_def)
  note ev = evaluateCandidate_cases [OF a_def st, of now opts]
  let ?th = "spent_threshold opts"
  have cooling: "now < t" if "ah_cooldownUntil (acc_health a) = Some t" "coolingDown a now" for t
    using that by (auto simp: coolingDown_iff)
  have spent: "now < t" if "quota_blocked a now ?th = Some w" "qw_resetsAt w = Some t" for w t
    using quota_blocked_Some [OF that(1)] that(2) by (simp add: isWindowSpent_iff)
  have "rj_reason d \<noteq> FProbeInFlight \<longrightarrow> (\<forall>t. rj_resetsAt d = Some t \<longrightarrow> now < t)"
    using assms(1) ev cooling spent providerReportedCooldown_cooling [of a now]
    by (auto simp: cooling_drop_def spent_drop_def drop_verdict_def split: if_splits option.splits)
  moreover have "rj_reason d = FProbeInFlight \<longrightarrow> \<not> providerReportedCooldown a now \<and>
      (\<forall>w. findSpentWindow a now ?th = Some w \<longrightarrow> qw_resetSource w = ProviderReported \<longrightarrow> recoveryAllowsQuota a now ?th)"
    using assms(1) ev
    by (auto simp: cooling_drop_def spent_drop_def drop_verdict_def quota_blocked_def split: if_splits option.splits)
  ultimately show ?thesis using st by (auto simp: a_def isStandingBlock_def)
qed

definition scoped_plain :: "account_snapshot \<Rightarrow> scoped_account" where
  "scoped_plain a =
     \<lparr>sa_account = a, sa_poolId = None, sa_weight = acc_weight a, sa_priority = acc_priority a, sa_order = 0\<rparr>"

theorem recoverable_drop_is_honest_witness:
  "let m = scoped_plain ((plain_account ''acc_1'' AnthropicApi)\<lparr>acc_status := CoolingDown,
             acc_health := EMPTY_HEALTH\<lparr>ah_cooldownUntil := Some 500, ah_cooldownSource := Some ProviderReported\<rparr>\<rparr>)
   in \<exists>d. evaluateCandidate m ''m'' 100 NO_OPTIONS = Dropped d \<and> rj_reason d = FCoolingDown \<and>
          mr_supported (resolveModel (sa_account m) ''m'') \<and> (\<forall>t. rj_resetsAt d = Some t \<longrightarrow> 100 < t)"
proof -
  define m where "m = scoped_plain ((plain_account ''acc_1'' AnthropicApi)\<lparr>acc_status := CoolingDown,
    acc_health := EMPTY_HEALTH\<lparr>ah_cooldownUntil := Some 500, ah_cooldownSource := Some ProviderReported\<rparr>\<rparr>)"
  define d where "d = \<lparr>rj_accountId = ''acc_1'', rj_label = ''acc_1'', rj_reason = FCoolingDown,
    rj_resetsAt = Some 500, rj_resetSource = Some ProviderReported, rj_window = None\<rparr>"
  have ev: "evaluateCandidate m ''m'' 100 NO_OPTIONS = Dropped d"
    unfolding m_def d_def by code_simp
  moreover have "rj_reason d = FCoolingDown" by (simp add: d_def)
  ultimately show ?thesis
    using recoverable_drop_is_honest [OF ev] unfolding Let_def m_def [symmetric] by auto
qed

text \<open>
  The model catalog and the router cannot disagree: a name \<open>GET /v1/models\<close> advertises for an
  account is never dropped as unsupported when it is requested, and a name the operator wrote down
  (declared, or on the client side of the alias map) that is not advertised is never served.
\<close>

theorem advertised_never_unsupported:
  assumes "name \<in> set (or_default (acc_supportedModels (sa_account m)) []) \<or>
           name \<in> fst ` set (or_default (acc_modelAliases (sa_account m)) [])"
  shows "if name \<in> set (advertisedModels (sa_account m))
         then \<forall>d. evaluateCandidate m name now opts = Dropped d \<longrightarrow> rj_reason d \<noteq> FModelUnsupported
         else \<exists>d. evaluateCandidate m name now opts = Dropped d \<and> \<not> isRecoverableFilterReason (rj_reason d)"
proof (cases "name \<in> set (advertisedModels (sa_account m))")
  case True
  then have "mr_supported (resolveModel (sa_account m) name)" by (simp add: advertisedModels_set)
  then show ?thesis
    using True by (auto simp: evaluateCandidate_def Let_def drop_verdict_def split: if_splits option.splits)
next
  case False
  then have "\<not> mr_supported (resolveModel (sa_account m) name)" using assms by (auto simp: advertisedModels_set)
  then show ?thesis
    using False evaluateCandidate_standing [of m name now opts] by (auto simp: drop_verdict_def)
qed

theorem advertised_never_unsupported_witness:
  "let m = scoped_plain ((plain_account ''acc_1'' Zai)\<lparr>acc_supportedModels := Some [''glm-4.6''],
             acc_modelAliases := Some [(''sonnet'', Some ''glm-4.7''), (''opus'', Some ''glm-4.6'')]\<rparr>)
   in advertisedModels (sa_account m) = [''glm-4.6'', ''opus''] \<and>
      (\<exists>d. evaluateCandidate m ''sonnet'' 0 NO_OPTIONS = Dropped d \<and> \<not> isRecoverableFilterReason (rj_reason d))"
proof -
  define m where "m = scoped_plain ((plain_account ''acc_1'' Zai)\<lparr>acc_supportedModels := Some [''glm-4.6''],
    acc_modelAliases := Some [(''sonnet'', Some ''glm-4.7''), (''opus'', Some ''glm-4.6'')]\<rparr>)"
  have adv: "advertisedModels (sa_account m) = [''glm-4.6'', ''opus'']" unfolding m_def by code_simp
  moreover have "\<exists>d. evaluateCandidate m ''sonnet'' 0 NO_OPTIONS = Dropped d \<and> \<not> isRecoverableFilterReason (rj_reason d)"
    using advertised_never_unsupported [of "''sonnet''" m 0 NO_OPTIONS] adv
    by (simp add: m_def scoped_plain_def plain_account_def)
  ultimately show ?thesis unfolding Let_def m_def [symmetric] by blast
qed

end
