(* ===== verification/Js_Sort.thy ===== *)
theory Js_Sort
  imports Prelude
begin

text \<open>
  \<open>Array.prototype.sort\<close> with a comparator: the stable sort every routing policy calls. The
  interface is the locale \<open>js_comparator\<close>, what ECMAScript asks of a consistent comparator; its
  lemmas are what a policy may rely on: the result is a permutation, it is sorted, and where the
  comparator separates the elements it is the only sorted arrangement, so two engines (or two
  replicas that list the accounts in another order) cannot disagree.
\<close>

fun js_insert :: "('a \<Rightarrow> 'a \<Rightarrow> rat) \<Rightarrow> 'a \<Rightarrow> 'a list \<Rightarrow> 'a list" where
  "js_insert cmp x [] = [x]"
| "js_insert cmp x (y # ys) = (if cmp x y \<le> 0 then x # y # ys else y # js_insert cmp x ys)"

definition js_sort :: "('a \<Rightarrow> 'a \<Rightarrow> rat) \<Rightarrow> 'a list \<Rightarrow> 'a list" where
  "js_sort cmp xs = foldr (js_insert cmp) xs []"

lemma mset_js_insert [simp]: "mset (js_insert cmp x xs) = add_mset x (mset xs)"
  by (induction xs) auto

lemma js_sort_Nil [simp]: "js_sort cmp [] = []"
  by (simp add: js_sort_def)

lemma js_sort_Cons: "js_sort cmp (x # xs) = js_insert cmp x (js_sort cmp xs)"
  by (simp add: js_sort_def)

lemma mset_js_sort [simp]: "mset (js_sort cmp xs) = mset xs"
  by (induction xs) (simp_all add: js_sort_Cons)

lemma set_js_sort [simp]: "set (js_sort cmp xs) = set xs"
  by (metis mset_js_sort set_mset_mset)

lemma length_js_sort [simp]: "length (js_sort cmp xs) = length xs"
  by (metis mset_js_sort size_mset)

lemma set_js_insert [simp]: "set (js_insert cmp x xs) = insert x (set xs)"
  by (metis mset_js_insert set_mset_add_mset_insert set_mset_mset)

section \<open>Consistent comparators\<close>

locale js_comparator =
  fixes cmp :: "'a \<Rightarrow> 'a \<Rightarrow> rat"
  assumes cmp_flip: "0 < cmp x y \<longleftrightarrow> cmp y x < 0"
    and cmp_trans: "cmp x y \<le> 0 \<Longrightarrow> cmp y z \<le> 0 \<Longrightarrow> cmp x z \<le> 0"
begin

lemma cmp_self: "cmp x x = 0"
  using cmp_flip [of x x] by linarith

lemma cmp_total: "cmp x y \<le> 0 \<or> cmp y x \<le> 0"
  using cmp_flip [of x y] by linarith

lemma insert_sorted:
  assumes "sorted_wrt (\<lambda>x y. cmp x y \<le> 0) xs"
  shows "sorted_wrt (\<lambda>x y. cmp x y \<le> 0) (js_insert cmp x xs)"
  using assms
proof (induction xs)
  case (Cons y ys)
  show ?case
  proof (cases "cmp x y \<le> 0")
    case True
    then show ?thesis using Cons.prems by (auto intro: cmp_trans)
  next
    case False
    then have "cmp y x \<le> 0" using cmp_flip [of x y] by linarith
    then show ?thesis using Cons False by auto
  qed
qed simp

lemma sort_sorted: "sorted_wrt (\<lambda>x y. cmp x y \<le> 0) (js_sort cmp xs)"
  by (induction xs) (simp_all add: js_sort_Cons insert_sorted)

lemma sort_head_le:
  assumes "js_sort cmp xs = y # ys" and "x \<in> set xs"
  shows "cmp y x \<le> 0"
proof -
  have "sorted_wrt (\<lambda>x y. cmp x y \<le> 0) (y # ys)" using sort_sorted [of xs] assms(1) by simp
  moreover have "x \<in> set (y # ys)" using assms set_js_sort [of cmp xs] by simp
  ultimately show ?thesis by (auto simp: cmp_self)
qed

text \<open>Elements the comparator cannot tell apart keep the order they came in.\<close>

lemma insert_filter:
  assumes "sorted_wrt (\<lambda>x y. cmp x y \<le> 0) xs" and "cmp x k = 0"
  shows "filter (\<lambda>y. cmp y k = 0) (js_insert cmp x xs) = x # filter (\<lambda>y. cmp y k = 0) xs"
  using assms(1)
proof (induction xs)
  case (Cons y ys)
  show ?case
  proof (cases "cmp x y \<le> 0")
    case False
    then have "cmp y x < 0" using cmp_flip [of x y] by simp
    have "cmp y k \<noteq> 0"
    proof
      assume "cmp y k = 0"
      then have "cmp k y \<le> 0" using cmp_flip [of k y] by linarith
      moreover have "cmp x k \<le> 0" using assms(2) by simp
      ultimately have "cmp x y \<le> 0" by (blast intro: cmp_trans)
      then show False using False by simp
    qed
    then show ?thesis using Cons False by simp
  qed (use assms(2) in simp)
qed (use assms(2) in simp)

lemma insert_filter_other:
  "cmp x k \<noteq> 0 \<Longrightarrow> filter (\<lambda>y. cmp y k = 0) (js_insert cmp x xs) = filter (\<lambda>y. cmp y k = 0) xs"
  by (induction xs) auto

lemma sort_stable: "filter (\<lambda>y. cmp y k = 0) (js_sort cmp xs) = filter (\<lambda>y. cmp y k = 0) xs"
proof (induction xs)
  case (Cons x xs)
  then show ?case
    by (cases "cmp x k = 0") (simp_all add: js_sort_Cons insert_filter sort_sorted insert_filter_other)
qed simp

text \<open>A sorted arrangement is unique when distinct elements never compare equal.\<close>

lemma sorted_unique:
  assumes "mset xs = mset ys"
    and "sorted_wrt (\<lambda>x y. cmp x y \<le> 0) xs" and "sorted_wrt (\<lambda>x y. cmp x y \<le> 0) ys"
    and "\<And>x y. x \<in> set xs \<Longrightarrow> y \<in> set xs \<Longrightarrow> cmp x y = 0 \<Longrightarrow> x = y"
  shows "xs = ys"
  using assms
proof (induction xs arbitrary: ys)
  case (Cons x xs)
  obtain y zs where ys: "ys = y # zs" using Cons.prems(1) by (cases ys) auto
  have same: "set (x # xs) = set (y # zs)" using Cons.prems(1) ys by (metis set_mset_mset)
  have "cmp x y \<le> 0"
  proof (cases "y = x")
    case False
    then have "y \<in> set xs" using same by auto
    then show ?thesis using Cons.prems(2) by simp
  qed (simp add: cmp_self)
  moreover have "cmp y x \<le> 0"
  proof (cases "x = y")
    case False
    then have "x \<in> set zs" using same by auto
    then show ?thesis using Cons.prems(3) ys by simp
  qed (simp add: cmp_self)
  ultimately have "cmp x y = 0" using cmp_flip [of x y] cmp_flip [of y x] by linarith
  moreover have "y \<in> set (x # xs)" using same by simp
  ultimately have "x = y" using Cons.prems(4) [of x y] by simp
  then show ?case using Cons.IH [of zs] Cons.prems ys by simp
qed simp

lemma sort_independent:
  assumes "mset xs = mset ys"
    and "\<And>x y. x \<in> set xs \<Longrightarrow> y \<in> set xs \<Longrightarrow> cmp x y = 0 \<Longrightarrow> x = y"
  shows "js_sort cmp xs = js_sort cmp ys"
  by (rule sorted_unique) (use assms in \<open>simp_all add: sort_sorted\<close>)

text \<open>Dropping elements and sorting commute: nobody who stays changes place relative to the others.\<close>

lemma sort_filter:
  assumes "\<And>x y. x \<in> set xs \<Longrightarrow> y \<in> set xs \<Longrightarrow> cmp x y = 0 \<Longrightarrow> x = y"
  shows "js_sort cmp (filter P xs) = filter P (js_sort cmp xs)"
proof (rule sorted_unique)
  show "mset (js_sort cmp (filter P xs)) = mset (filter P (js_sort cmp xs))" by simp
  show "sorted_wrt (\<lambda>x y. cmp x y \<le> 0) (js_sort cmp (filter P xs))" by (rule sort_sorted)
  show "sorted_wrt (\<lambda>x y. cmp x y \<le> 0) (filter P (js_sort cmp xs))"
    by (rule sorted_wrt_filter) (rule sort_sorted)
qed (use assms in auto)

end

text \<open>Comparators are built as the sources build them: a numeric key, and a tiebreak chain.\<close>

lemma key_comparator: "js_comparator (\<lambda>x y. f x - f y)"
  by unfold_locales auto

lemma key_comparator_desc: "js_comparator (\<lambda>x y. f y - f x)"
  by unfold_locales auto

text \<open>The three-way comparison of strings, \<open>l < r ? -1 : l > r ? 1 : 0\<close>.\<close>

definition compare_order :: "'a::linorder \<Rightarrow> 'a \<Rightarrow> rat" where
  "compare_order l r = (if l < r then -1 else if l > r then 1 else 0)"

lemma compare_order_0 [simp]: "compare_order l r = 0 \<longleftrightarrow> l = r"
  by (auto simp: compare_order_def)

lemma order_comparator: "js_comparator (\<lambda>x y. compare_order (f x) (f y))"
  by unfold_locales (auto simp: compare_order_def split: if_splits)

lemma js_comparator_then:
  assumes "js_comparator c" and "js_comparator d"
  shows "js_comparator (\<lambda>x y. if c x y \<noteq> 0 then c x y else d x y)"
proof -
  note c = assms(1) and d = assms(2)
  show ?thesis
  proof
    fix x y
    show "(0 < (if c x y \<noteq> 0 then c x y else d x y)) = ((if c y x \<noteq> 0 then c y x else d y x) < 0)"
      using js_comparator.cmp_flip [OF c, of x y] js_comparator.cmp_flip [OF c, of y x]
        js_comparator.cmp_flip [OF d, of x y] by auto
  next
    fix x y z
    assume xy: "(if c x y \<noteq> 0 then c x y else d x y) \<le> 0"
      and yz: "(if c y z \<noteq> 0 then c y z else d y z) \<le> 0"
    have le: "c x y \<le> 0" "c y z \<le> 0" using xy yz by (auto split: if_splits)
    then have xz: "c x z \<le> 0" by (rule js_comparator.cmp_trans [OF c])
    show "(if c x z \<noteq> 0 then c x z else d x z) \<le> 0"
    proof (cases "c x z = 0")
      case True
      then have "c z x \<le> 0" using js_comparator.cmp_flip [OF c, of z x] by linarith
      have "c y x \<le> 0" using le(2) \<open>c z x \<le> 0\<close> by (rule js_comparator.cmp_trans [OF c])
      then have "c x y = 0" using le(1) js_comparator.cmp_flip [OF c, of y x] by linarith
      have "c z y \<le> 0" using \<open>c z x \<le> 0\<close> le(1) by (rule js_comparator.cmp_trans [OF c])
      then have "c y z = 0" using le(2) js_comparator.cmp_flip [OF c, of z y] by linarith
      then have "d x y \<le> 0" "d y z \<le> 0" using xy yz \<open>c x y = 0\<close> by simp_all
      then show ?thesis using True js_comparator.cmp_trans [OF d] by simp
    qed (use xz in simp)
  qed
qed

end
