(* ===== verification/Rendezvous.thy ===== *)
theory Rendezvous
  imports Js_Sort
begin

text \<open>
  \<open>hash.ts\<close> of \<open>services/routing\<close>: rendezvous hashing on 32-bit words. \<open>Math.imul\<close>, \<open>^\<close> and \<open>>>>\<close> are the
  word operations; the two lanes fill 53 bits, so the score is exact as a double and as a \<^typ>\<open>rat\<close>.
\<close>

unbundle bit_operations_syntax

definition FNV_OFFSET_BASIS :: "32 word" where "FNV_OFFSET_BASIS = 0x811c9dc5"
definition FNV_PRIME :: "32 word" where "FNV_PRIME = 0x01000193"
definition LANE_A :: "32 word" where "LANE_A = 0x9e3779b1"
definition LANE_B :: "32 word" where "LANE_B = 0x85ebca6b"
definition LANE_A_SHIFT :: int where "LANE_A_SHIFT = 2097152"
definition SCORE_SPACE :: int where "SCORE_SPACE = 9007199254740992"

definition charCodeAt :: "char \<Rightarrow> 32 word" where
  "charCodeAt c = of_char c"

definition fnv1a :: "string \<Rightarrow> 32 word \<Rightarrow> 32 word" where
  "fnv1a input seed = foldl (\<lambda>hash c. (hash XOR charCodeAt c) * FNV_PRIME) seed input"

definition fmix32 :: "32 word \<Rightarrow> 32 word" where
  "fmix32 value =
     (let h1 = value XOR drop_bit 16 value;
          h2 = h1 * 0x85ebca6b;
          h3 = h2 XOR drop_bit 13 h2;
          h4 = h3 * 0xc2b2ae35
      in h4 XOR drop_bit 16 h4)"

definition sessionSeed :: "string \<Rightarrow> 32 word" where
  "sessionSeed sessionKey = fnv1a sessionKey FNV_OFFSET_BASIS"

definition scoreWithSeed :: "32 word \<Rightarrow> string \<Rightarrow> rat" where
  "scoreWithSeed seed accountId =
     (let laneA = fmix32 (fnv1a accountId (seed XOR LANE_A));
          laneB = fmix32 (fnv1a accountId (seed XOR LANE_B))
      in of_int (uint laneA * LANE_A_SHIFT + uint (drop_bit 11 laneB)) / of_int SCORE_SPACE)"

definition rendezvousScore :: "string \<Rightarrow> string \<Rightarrow> rat" where
  "rendezvousScore sessionKey accountId = scoreWithSeed (sessionSeed sessionKey) accountId"

definition rank_compare :: "32 word \<Rightarrow> string \<Rightarrow> string \<Rightarrow> rat" where
  "rank_compare seed left right =
     (let delta = scoreWithSeed seed right - scoreWithSeed seed left
      in if delta \<noteq> 0 then delta else compare_order left right)"

definition rendezvousRank :: "string \<Rightarrow> string list \<Rightarrow> string list" where
  "rendezvousRank sessionKey accountIds = js_sort (rank_compare (sessionSeed sessionKey)) accountIds"

section \<open>Bounds\<close>

lemma lane_bound: "0 \<le> uint (a :: 32 word) \<and> uint a < 2 ^ 32"
  using uint_bounded [of a] by simp

lemma lane_low_bound: "0 \<le> uint (drop_bit 11 (b :: 32 word)) \<and> uint (drop_bit 11 b) < LANE_A_SHIFT"
proof -
  have "uint (drop_bit 11 b) = drop_bit 11 (take_bit 32 (uint b))"
    using unsigned_drop_bit_eq [of 11 b, where 'a = int] by simp
  then have "uint (drop_bit 11 b) = uint b div 2 ^ 11"
    using lane_bound [of b] by (simp add: take_bit_int_eq_self drop_bit_eq_div)
  moreover have "0 \<le> x div 2 ^ 11 \<and> x div 2 ^ 11 < 2097152" if "0 \<le> x" "x < 2 ^ 32" for x :: int
  proof -
    have "2048 * (x div 2048) + x mod 2048 = x" "0 \<le> x mod 2048" by simp_all
    then show ?thesis using that by (simp add: pos_imp_zdiv_nonneg_iff)
  qed
  ultimately show ?thesis using lane_bound [of b] by (simp only: LANE_A_SHIFT_def)
qed

lemma scoreWithSeed_range: "0 \<le> scoreWithSeed seed i \<and> scoreWithSeed seed i < 1"
proof -
  define a where "a = fmix32 (fnv1a i (seed XOR LANE_A))"
  define b where "b = fmix32 (fnv1a i (seed XOR LANE_B))"
  define n where "n = uint a * LANE_A_SHIFT + uint (drop_bit 11 b)"
  have "0 \<le> n" "n < SCORE_SPACE"
    using lane_bound [of a] lane_low_bound [of b] by (simp_all add: n_def LANE_A_SHIFT_def SCORE_SPACE_def)
  then have "(0 :: rat) \<le> of_int n" "(of_int n :: rat) < of_int SCORE_SPACE"
    by (simp_all only: of_int_less_iff of_int_0_le_iff)
  moreover have "scoreWithSeed seed i = of_int n / of_int SCORE_SPACE"
    by (simp only: scoreWithSeed_def Let_def n_def a_def b_def)
  ultimately show ?thesis by (simp add: SCORE_SPACE_def)
qed

section \<open>The ranking\<close>

interpretation rank: js_comparator "rank_compare seed" for seed
proof -
  have "js_comparator (\<lambda>l r. if (\<lambda>l r. scoreWithSeed seed r - scoreWithSeed seed l) l r \<noteq> 0
      then (\<lambda>l r. scoreWithSeed seed r - scoreWithSeed seed l) l r else compare_order l r)"
    by (rule js_comparator_then [OF key_comparator_desc order_comparator])
  then show "js_comparator (rank_compare seed)" unfolding rank_compare_def Let_def .
qed

lemma rank_compare_0: "rank_compare seed x y = 0 \<Longrightarrow> x = y"
  by (auto simp: rank_compare_def Let_def split: if_splits)

lemma rank_head_max:
  assumes "rendezvousRank k ids = w # rest" and "i \<in> set ids"
  shows "rendezvousScore k i \<le> rendezvousScore k w"
proof -
  have "rank_compare (sessionSeed k) w i \<le> 0"
    using assms unfolding rendezvousRank_def by (rule rank.sort_head_le)
  then show ?thesis by (simp add: rank_compare_def Let_def rendezvousScore_def split: if_splits)
qed

text \<open>
  Placement does not depend on who computes it: whatever order the accounts are listed in, the
  ranking of a session over them is the same list, and its head has the highest score.
\<close>

theorem rendezvous_rank_deterministic:
  assumes "mset ids = mset ids'"
  shows "rendezvousRank k ids = rendezvousRank k ids' \<and>
    (\<forall>w rest i. rendezvousRank k ids = w # rest \<longrightarrow> i \<in> set ids \<longrightarrow> rendezvousScore k i \<le> rendezvousScore k w)"
  using rank.sort_independent [OF assms] rank_compare_0 rank_head_max unfolding rendezvousRank_def by blast

theorem rendezvous_rank_deterministic_witness:
  "rendezvousRank ''session-alpha'' [''acct-1'', ''acct-2'', ''acct-3'', ''acct-4'', ''acct-5''] =
     rendezvousRank ''session-alpha'' [''acct-5'', ''acct-4'', ''acct-3'', ''acct-2'', ''acct-1''] \<and>
   rendezvousRank ''session-alpha'' [''acct-1'', ''acct-2'', ''acct-3'', ''acct-4'', ''acct-5''] =
     [''acct-3'', ''acct-5'', ''acct-2'', ''acct-1'', ''acct-4'']"
proof
  show "rendezvousRank ''session-alpha'' [''acct-1'', ''acct-2'', ''acct-3'', ''acct-4'', ''acct-5''] =
     rendezvousRank ''session-alpha'' [''acct-5'', ''acct-4'', ''acct-3'', ''acct-2'', ''acct-1'']"
    using rendezvous_rank_deterministic [of "[''acct-1'', ''acct-2'', ''acct-3'', ''acct-4'', ''acct-5'']"
        "[''acct-5'', ''acct-4'', ''acct-3'', ''acct-2'', ''acct-1'']" "''session-alpha''"] by simp
  show "rendezvousRank ''session-alpha'' [''acct-1'', ''acct-2'', ''acct-3'', ''acct-4'', ''acct-5''] =
     [''acct-3'', ''acct-5'', ''acct-2'', ''acct-1'', ''acct-4'']"
    by code_simp
qed

text \<open>
  Minimal disruption: removing accounts from a pool leaves the ranking of the others as it was,
  for every session. So a session moves only when its own account is removed, and adding an account
  moves only the sessions that rank it first.
\<close>

theorem rendezvous_minimal_disruption:
  "rendezvousRank k (filter P ids) = filter P (rendezvousRank k ids)"
  unfolding rendezvousRank_def by (rule rank.sort_filter) (rule rank_compare_0)

text \<open>The pinned vectors of the repository's own test suite, evaluated in the model.\<close>

lemma pinned_scores:
  "rendezvousScore ''session-alpha'' ''acct-1'' = 4199101419375107 / 9007199254740992"
  by code_simp

end
