(* ===== verification/Policies.thy ===== *)
theory Policies
  imports Candidate_Filter Rendezvous
begin

text \<open>
  The six routing policies and the rules around them: \<open>policies/\<close> of \<open>services/routing\<close>. A policy is a
  function from the filtered candidates of one group to an order over them and the notes that
  explain it; \<open>runPolicy\<close> applies the rules common to all. The contract every policy meets is the
  locale \<open>policy_contract\<close>.

  JavaScript compares candidates by reference where this model compares values: within one group
  the declared order separates the candidates, so the two agree.
\<close>

section \<open>Shared primitives (\<open>order.ts\<close>)\<close>

record policy_input =
  pi_now :: instant
  pi_candidates :: "candidate list"
  pi_sessionKey :: string
  pi_rotationCounter :: int
  pi_leastUsedMeasure :: "least_used_measure option"

record policy_output =
  po_ordered :: "candidate list"
  po_notes :: "policy_note list"

definition compareDeclared :: "candidate \<Rightarrow> candidate \<Rightarrow> rat" where
  "compareDeclared left right =
     (if sa_order left \<noteq> sa_order right then of_nat (sa_order left) - of_nat (sa_order right)
      else compare_order (sa_id left) (sa_id right))"

definition sortDeclared :: "candidate list \<Rightarrow> candidate list" where
  "sortDeclared cs = js_sort compareDeclared cs"

definition rotate_by :: "'a list \<Rightarrow> int \<Rightarrow> 'a list" where
  "rotate_by cs counter =
     (if cs = [] then cs
      else
        let size = int (length cs);
            offset = nat (js_rem (js_rem counter size + size) size)
        in drop offset cs @ take offset cs)"

definition accountIds :: "candidate list \<Rightarrow> account_id list" where
  "accountIds cs = map (\<lambda>c. sa_id c) cs"

definition nativeFirst :: "candidate list \<Rightarrow> candidate list \<times> candidate list" where
  "nativeFirst cs =
     (let native = filter (\<lambda>c. \<not> cd_aliased c) cs
      in if length native = length cs \<or> native = [] then (cs, [])
         else
           let deferred = filter cd_aliased cs
           in (native @ deferred, deferred))"

section \<open>The policies\<close>

definition sticky_compare :: "32 word \<Rightarrow> candidate \<Rightarrow> candidate \<Rightarrow> rat" where
  "sticky_compare seed left right =
     (let delta = scoreWithSeed seed (sa_id right) - scoreWithSeed seed (sa_id left)
      in if delta \<noteq> 0 then delta else compareDeclared left right)"

definition sticky :: "policy_input \<Rightarrow> policy_output" where
  "sticky i =
     \<lparr>po_ordered = js_sort (sticky_compare (sessionSeed (pi_sessionKey i))) (pi_candidates i), po_notes = []\<rparr>"

definition roundRobin :: "policy_input \<Rightarrow> policy_output" where
  "roundRobin i = \<lparr>po_ordered = rotate_by (sortDeclared (pi_candidates i)) (pi_rotationCounter i), po_notes = []\<rparr>"

fun pick_loop :: "int list \<Rightarrow> int \<Rightarrow> int \<Rightarrow> nat \<Rightarrow> nat" where
  "pick_loop [] target cumulative index = index - 1"
| "pick_loop (w # ws) target cumulative index =
     (if target < cumulative + w then index else pick_loop ws target (cumulative + w) (Suc index))"

definition pickIndex :: "int list \<Rightarrow> int \<Rightarrow> int \<Rightarrow> nat" where
  "pickIndex weights sumw counter =
     pick_loop weights (js_rem (js_rem counter sumw + sumw) sumw) 0 0"

definition weight_compare :: "candidate \<Rightarrow> candidate \<Rightarrow> rat" where
  "weight_compare left right =
     (let d = of_int (sa_weight right) - of_int (sa_weight left)
      in if d \<noteq> 0 then d else compareDeclared left right)"

definition drop_nth :: "nat \<Rightarrow> 'a list \<Rightarrow> 'a list" where
  "drop_nth k xs = take k xs @ drop (Suc k) xs"

definition weighted :: "policy_input \<Rightarrow> policy_output" where
  "weighted i =
     (let srt = sortDeclared (pi_candidates i);
          weights = map (\<lambda>c. max 0 (sa_weight c)) srt;
          sumw = sum_list weights
      in if sumw = 0
         then \<lparr>po_ordered = rotate_by srt (pi_rotationCounter i), po_notes = [WeightsAbsent (accountIds srt)]\<rparr>
         else
           let headIndex = pickIndex weights sumw (pi_rotationCounter i);
               tail = js_sort weight_compare (drop_nth headIndex srt)
           in \<lparr>po_ordered = (if headIndex < length srt then srt ! headIndex # tail else tail), po_notes = []\<rparr>)"

fun load :: "candidate \<Rightarrow> least_used_measure \<Rightarrow> nat" where
  "load c InFlight = ah_inFlight (acc_health (sa_account c))"
| "load c RecentTokens = ah_recentTokens (acc_health (sa_account c))"

fun other_measure :: "least_used_measure \<Rightarrow> least_used_measure" where
  "other_measure InFlight = RecentTokens"
| "other_measure RecentTokens = InFlight"

definition load_compare :: "least_used_measure \<Rightarrow> candidate \<Rightarrow> candidate \<Rightarrow> rat" where
  "load_compare msr left right =
     (let primary = of_nat (load left msr) - of_nat (load right msr)
      in if primary \<noteq> 0 then primary
      else
        let secondary = of_nat (load left (other_measure msr)) - of_nat (load right (other_measure msr))
        in if secondary \<noteq> 0 then secondary else compareDeclared left right)"

definition leastUsed :: "policy_input \<Rightarrow> policy_output" where
  "leastUsed i =
     (let msr = or_default (pi_leastUsedMeasure i) InFlight
      in \<lparr>po_ordered = js_sort (load_compare msr) (pi_candidates i), po_notes = []\<rparr>)"

definition priority_compare :: "candidate \<Rightarrow> candidate \<Rightarrow> rat" where
  "priority_compare left right =
     (let d = of_int (sa_priority left) - of_int (sa_priority right)
      in if d \<noteq> 0 then d else compareDeclared left right)"

definition priorityFailover :: "policy_input \<Rightarrow> policy_output" where
  "priorityFailover i = \<lparr>po_ordered = js_sort priority_compare (pi_candidates i), po_notes = []\<rparr>"

definition degraded :: "account_id list \<Rightarrow> policy_note" where
  "degraded ids = PolicyDegraded QuotaAware RoundRobin ids"

definition headroom_compare :: "(candidate \<times> rat) \<Rightarrow> (candidate \<times> rat) \<Rightarrow> rat" where
  "headroom_compare left right =
     (let d = snd right - snd left
      in if d \<noteq> 0 then d else compareDeclared (fst left) (fst right))"

definition quotaAware :: "policy_input \<Rightarrow> policy_output" where
  "quotaAware i =
     (let ranked = List.map_filter (\<lambda>c. map_option (Pair c) (continuousHeadroom (sa_account c) (pi_now i))) (pi_candidates i);
          unranked = filter (\<lambda>c. continuousHeadroom (sa_account c) (pi_now i) = None) (pi_candidates i)
      in if ranked = []
         then
           let ordered = rotate_by (sortDeclared (pi_candidates i)) (pi_rotationCounter i)
           in \<lparr>po_ordered = ordered, po_notes = [degraded (accountIds ordered)]\<rparr>
         else
           let srt = js_sort headroom_compare ranked;
               rotatedUnranked = rotate_by (sortDeclared unranked) (pi_rotationCounter i);
               notes = QuotaRanked (map (\<lambda>e. sa_id (fst e)) srt) (accountIds rotatedUnranked)
                       # (if rotatedUnranked \<noteq> [] then [degraded (accountIds rotatedUnranked)] else [])
           in \<lparr>po_ordered = map fst srt @ rotatedUnranked, po_notes = notes\<rparr>)"

section \<open>The registry and the common rules (\<open>index.ts\<close>)\<close>

fun POLICIES :: "routing_policy \<Rightarrow> policy_input \<Rightarrow> policy_output" where
  "POLICIES Sticky = sticky"
| "POLICIES RoundRobin = roundRobin"
| "POLICIES Weighted = weighted"
| "POLICIES LeastUsed = leastUsed"
| "POLICIES PriorityFailover = priorityFailover"
| "POLICIES QuotaAware = quotaAware"

type_synonym adjustment = "candidate list \<times> policy_note list"

definition keepsAffinity :: "candidate \<Rightarrow> bool" where
  "keepsAffinity home \<longleftrightarrow>
     cd_halfOpen home \<and> ah_cooldownReason (acc_health (sa_account home)) \<noteq> Some CredentialRejected"

definition kept_home :: "candidate option \<Rightarrow> candidate option" where
  "kept_home home = (case home of None \<Rightarrow> None | Some h \<Rightarrow> if keepsAffinity h then Some h else None)"

definition is_probe :: "candidate option \<Rightarrow> candidate \<Rightarrow> bool" where
  "is_probe home c \<longleftrightarrow> cd_halfOpen c \<and> Some c \<noteq> kept_home home"

definition demoteHalfOpen :: "candidate list \<Rightarrow> candidate option \<Rightarrow> adjustment" where
  "demoteHalfOpen ordered home =
     (let healthy = filter (\<lambda>c. \<not> is_probe home c) ordered;
          notes = (case kept_home home of None \<Rightarrow> [] | Some k \<Rightarrow> [AffinityKept (sa_id k)])
      in if length healthy = length ordered then (ordered, notes)
         else
           let probes = filter (is_probe home) ordered
           in (healthy @ probes, notes @ [HalfOpenDemoted (accountIds probes)]))"

definition holds_permit :: "candidate option \<Rightarrow> candidate \<Rightarrow> bool" where
  "holds_permit home c \<longleftrightarrow> cd_recoveryPermit c \<and> (home = None \<or> Some c = home)"

definition promoteRecoveryPermit :: "candidate list \<Rightarrow> candidate option \<Rightarrow> adjustment" where
  "promoteRecoveryPermit ordered home =
     (let holders = filter (holds_permit home) ordered
      in if holders = [] then (ordered, [])
         else
           let rest = filter (\<lambda>c. \<not> holds_permit home c) ordered
           in (holders @ rest, [RecoveryPromoted (accountIds holders)]))"

definition deferAliased :: "candidate list \<Rightarrow> adjustment" where
  "deferAliased ordered =
     (let split = nativeFirst ordered
      in if snd split = [] then (ordered, []) else (fst split, [AliasedDeferred (accountIds (snd split))]))"

definition pinBinding :: "candidate list \<Rightarrow> binding_decision \<Rightarrow> adjustment" where
  "pinBinding ordered binding =
     (case binding of
        Honored accountId \<Rightarrow>
          (case find_index (\<lambda>c. sa_id c = accountId) ordered of
             None \<Rightarrow> (ordered, [])
           | Some index \<Rightarrow>
               (ordered ! index # take index ordered @ drop (Suc index) ordered, [BindingPinned accountId]))
      | _ \<Rightarrow> (ordered, []))"

definition policy_home :: "routing_policy \<Rightarrow> candidate list \<Rightarrow> candidate option" where
  "policy_home policy ordered =
     (if policy = Sticky then (case ordered of [] \<Rightarrow> None | c # _ \<Rightarrow> Some c) else None)"

definition runPolicy :: "routing_policy \<Rightarrow> policy_input \<Rightarrow> binding_decision \<Rightarrow> policy_output" where
  "runPolicy policy i binding =
     (let raw = POLICIES policy i;
          home = policy_home policy (po_ordered raw);
          demoted = demoteHalfOpen (po_ordered raw) home;
          promoted = promoteRecoveryPermit (fst demoted) home;
          deferred = deferAliased (fst promoted);
          pinned = pinBinding (fst deferred) binding
      in \<lparr>po_ordered = fst pinned,
          po_notes = po_notes raw @ snd demoted @ snd promoted @ snd deferred @ snd pinned\<rparr>)"

section \<open>Comparators\<close>

interpretation declared: js_comparator compareDeclared
proof -
  have "js_comparator (\<lambda>l r. if (\<lambda>l r. of_nat (sa_order l) - of_nat (sa_order r) :: rat) l r \<noteq> 0
      then (\<lambda>l r. of_nat (sa_order l) - of_nat (sa_order r)) l r
      else compare_order (sa_id l) (sa_id (r :: candidate)))"
    by (rule js_comparator_then [OF key_comparator order_comparator])
  moreover have "compareDeclared = (\<lambda>l r. if (\<lambda>l r. of_nat (sa_order l) - of_nat (sa_order r) :: rat) l r \<noteq> 0
      then (\<lambda>l r. of_nat (sa_order l) - of_nat (sa_order r)) l r
      else compare_order (sa_id l) (sa_id (r :: candidate)))"
    by (auto simp: fun_eq_iff compareDeclared_def)
  ultimately show "js_comparator compareDeclared" by simp
qed

lemma then_declared:
  assumes "js_comparator d"
  shows "js_comparator (\<lambda>l r. if d l r \<noteq> 0 then d l r else compareDeclared l r)"
  using assms declared.js_comparator_axioms by (rule js_comparator_then)

interpretation by_score: js_comparator "sticky_compare seed" for seed
  using then_declared [OF key_comparator_desc [where f = "\<lambda>c. scoreWithSeed seed (sa_id c)"]]
  unfolding sticky_compare_def Let_def .

interpretation by_weight: js_comparator weight_compare
  using then_declared [OF key_comparator_desc [where f = "\<lambda>c. of_int (sa_weight c)"]]
  unfolding weight_compare_def Let_def .

interpretation by_priority: js_comparator priority_compare
  using then_declared [OF key_comparator [where f = "\<lambda>c. of_int (sa_priority c)"]]
  unfolding priority_compare_def Let_def .

interpretation by_load: js_comparator "load_compare msr" for msr
  using js_comparator_then [OF key_comparator [where f = "\<lambda>c. of_nat (load c msr)"]
      then_declared [OF key_comparator [where f = "\<lambda>c. of_nat (load c (other_measure msr))"]]]
  unfolding load_compare_def Let_def .

lemma declared_on_fst: "js_comparator (\<lambda>l r. compareDeclared (fst l) (fst r))"
  using declared.cmp_flip declared.cmp_trans by unfold_locales blast+

interpretation by_headroom: js_comparator headroom_compare
  using js_comparator_then [OF key_comparator_desc [where f = snd] declared_on_fst]
  unfolding headroom_compare_def Let_def .

lemma compareDeclared_0: "compareDeclared x y = 0 \<longleftrightarrow> sa_order x = sa_order y \<and> sa_id x = sa_id y"
  by (auto simp: compareDeclared_def)

lemma sticky_compare_0: "sticky_compare seed x y = 0 \<Longrightarrow> compareDeclared x y = 0"
  by (simp add: sticky_compare_def Let_def split: if_splits)

lemma load_compare_0: "load_compare msr x y = 0 \<Longrightarrow> compareDeclared x y = 0"
  by (simp add: load_compare_def Let_def split: if_splits)

lemma priority_compare_0: "priority_compare x y = 0 \<Longrightarrow> compareDeclared x y = 0"
  by (simp add: priority_compare_def Let_def split: if_splits)

section \<open>The contract of a policy\<close>

text \<open>Candidates of one group: the declared order separates them.\<close>

definition separated :: "candidate list \<Rightarrow> bool" where
  "separated cs \<longleftrightarrow> distinct (map sa_order cs)"

lemma separated_eq: "separated cs \<Longrightarrow> x \<in> set cs \<Longrightarrow> y \<in> set cs \<Longrightarrow> compareDeclared x y = 0 \<Longrightarrow> x = y"
  by (auto simp: separated_def compareDeclared_0 distinct_map inj_on_def)

lemma separated_filter: "separated cs \<Longrightarrow> separated (filter P cs)"
  by (simp add: separated_def distinct_map_filter)

locale policy_contract =
  fixes policy :: "policy_input \<Rightarrow> policy_output"
  assumes permutes: "mset (po_ordered (policy i)) = mset (pi_candidates i)"
    and order_free: "separated (pi_candidates i) \<Longrightarrow> mset cs = mset (pi_candidates i) \<Longrightarrow>
          policy (i\<lparr>pi_candidates := cs\<rparr>) = policy i"
begin

lemma same_set: "set (po_ordered (policy i)) = set (pi_candidates i)"
  using permutes [of i] by (metis set_mset_mset)

lemma same_length: "length (po_ordered (policy i)) = length (pi_candidates i)"
  using permutes [of i] by (metis size_mset)

lemma same_distinct: "distinct (map f (po_ordered (policy i))) = distinct (map f (pi_candidates i))"
  by (rule distinct_map_mset) (rule permutes)

lemma nonempty: "po_ordered (policy i) = [] \<longleftrightarrow> pi_candidates i = []"
  using same_length [of i] by (metis length_0_conv)

end

lemma rotate_by_mset [simp]: "mset (rotate_by cs n) = mset cs"
proof -
  have "mset (drop k cs @ take k cs) = mset cs" for k
    by (metis append_take_drop_id mset_append union_commute)
  then show ?thesis by (simp add: rotate_by_def Let_def del: mset_append)
qed

lemma drop_nth_mset: "k < length xs \<Longrightarrow> mset (xs ! k # drop_nth k xs) = mset xs"
proof -
  assume "k < length xs"
  then have "xs = take k xs @ xs ! k # drop (Suc k) xs" by (rule id_take_nth_drop)
  then have "mset xs = mset (take k xs @ xs ! k # drop (Suc k) xs)" by simp
  then show ?thesis by (simp add: drop_nth_def)
qed

lemma sortDeclared_mset [simp]: "mset (sortDeclared cs) = mset cs"
  by (simp add: sortDeclared_def)

lemma sortDeclared_free: "separated cs \<Longrightarrow> mset ds = mset cs \<Longrightarrow> sortDeclared ds = sortDeclared cs"
  unfolding sortDeclared_def
  by (rule declared.sort_independent [symmetric]) (auto intro: separated_eq)

lemma sort_free:
  assumes "js_comparator cmp" and "separated cs" and "mset ds = mset cs"
    and "\<And>x y. cmp x y = 0 \<Longrightarrow> compareDeclared x y = 0"
  shows "js_sort cmp ds = js_sort cmp cs"
  by (rule js_comparator.sort_independent [OF assms(1) assms(3) [symmetric], symmetric])
    (auto intro: separated_eq [OF assms(2)] assms(4))

interpretation sticky_policy: policy_contract sticky
proof
  show "sticky (i\<lparr>pi_candidates := cs\<rparr>) = sticky i" if "separated (pi_candidates i)" "mset cs = mset (pi_candidates i)" for i cs
    using sort_free [OF by_score.js_comparator_axioms that sticky_compare_0] by (simp add: sticky_def)
qed (simp add: sticky_def)

interpretation round_robin_policy: policy_contract roundRobin
proof
  show "roundRobin (i\<lparr>pi_candidates := cs\<rparr>) = roundRobin i"
    if "separated (pi_candidates i)" "mset cs = mset (pi_candidates i)" for i cs
    using sortDeclared_free [OF that] by (simp add: roundRobin_def)
qed (simp add: roundRobin_def)

interpretation least_used_policy: policy_contract leastUsed
proof
  show "leastUsed (i\<lparr>pi_candidates := cs\<rparr>) = leastUsed i"
    if "separated (pi_candidates i)" "mset cs = mset (pi_candidates i)" for i cs
    using sort_free [OF by_load.js_comparator_axioms that load_compare_0] by (simp add: leastUsed_def Let_def)
qed (simp add: leastUsed_def Let_def)

interpretation priority_policy: policy_contract priorityFailover
proof
  show "priorityFailover (i\<lparr>pi_candidates := cs\<rparr>) = priorityFailover i"
    if "separated (pi_candidates i)" "mset cs = mset (pi_candidates i)" for i cs
    using sort_free [OF by_priority.js_comparator_axioms that priority_compare_0] by (simp add: priorityFailover_def)
qed (simp add: priorityFailover_def)

lemma pick_loop_bound: "index \<le> pick_loop ws t c index + 1 \<and> pick_loop ws t c index \<le> index + length ws - 1"
  by (induction ws t c index rule: pick_loop.induct) auto

lemma pickIndex_lt: "ws \<noteq> [] \<Longrightarrow> pickIndex ws sumw n < length ws"
  using pick_loop_bound [of 0 ws "js_rem (js_rem n sumw + sumw) sumw" 0] by (cases ws) (auto simp: pickIndex_def)

interpretation weighted_policy: policy_contract weighted
proof
  show "weighted (i\<lparr>pi_candidates := cs\<rparr>) = weighted i"
    if "separated (pi_candidates i)" "mset cs = mset (pi_candidates i)" for i cs
    using sortDeclared_free [OF that] by (simp add: weighted_def Let_def)
  show "mset (po_ordered (weighted i)) = mset (pi_candidates i)" for i
  proof -
    define srt where "srt = sortDeclared (pi_candidates i)"
    define ws where "ws = map (\<lambda>c. max 0 (sa_weight c)) srt"
    have ms: "mset srt = mset (pi_candidates i)" by (simp add: srt_def)
    show ?thesis
    proof (cases "sum_list ws = 0")
      case True
      then show ?thesis using ms by (simp add: weighted_def srt_def [symmetric] ws_def [symmetric] Let_def)
    next
      case False
      then have "ws \<noteq> []" by auto
      then have "pickIndex ws (sum_list ws) (pi_rotationCounter i) < length srt"
        using pickIndex_lt [of ws] by (simp add: ws_def)
      then show ?thesis
        using False ms drop_nth_mset [of "pickIndex ws (sum_list ws) (pi_rotationCounter i)" srt]
        by (simp add: weighted_def srt_def [symmetric] ws_def [symmetric] Let_def)
    qed
  qed
qed

abbreviation headroom_of :: "policy_input \<Rightarrow> candidate \<Rightarrow> rat option" where
  "headroom_of i c \<equiv> continuousHeadroom (sa_account c) (pi_now i)"

definition ranked_candidates :: "policy_input \<Rightarrow> candidate list \<Rightarrow> (candidate \<times> rat) list" where
  "ranked_candidates i cs = List.map_filter (\<lambda>c. map_option (Pair c) (headroom_of i c)) cs"

lemma ranked_alt: "ranked_candidates i cs = map (\<lambda>c. (c, the (headroom_of i c))) (filter (\<lambda>c. headroom_of i c \<noteq> None) cs)"
  by (induction cs) (auto simp: ranked_candidates_def map_filter_simps)

lemma quotaAware_alt:
  "quotaAware i =
     (let ranked = ranked_candidates i (pi_candidates i);
          unranked = filter (\<lambda>c. headroom_of i c = None) (pi_candidates i);
          rest = rotate_by (sortDeclared unranked) (pi_rotationCounter i);
          best = js_sort headroom_compare ranked
      in if ranked = [] then \<lparr>po_ordered = rest, po_notes = [degraded (accountIds rest)]\<rparr>
         else \<lparr>po_ordered = map fst best @ rest,
               po_notes = QuotaRanked (map (\<lambda>e. sa_id (fst e)) best) (accountIds rest)
                          # (if rest \<noteq> [] then [degraded (accountIds rest)] else [])\<rparr>)"
proof -
  have "filter (\<lambda>c. headroom_of i c = None) (pi_candidates i) = pi_candidates i" if "ranked_candidates i (pi_candidates i) = []"
    using that by (auto simp: ranked_alt filter_empty_conv intro!: filter_True)
  then show ?thesis by (simp add: quotaAware_def ranked_candidates_def [symmetric] Let_def)
qed

lemma ranked_sort_free:
  assumes "separated cs" and "mset ds = mset cs"
  shows "js_sort headroom_compare (ranked_candidates i ds) = js_sort headroom_compare (ranked_candidates i cs)"
proof (rule by_headroom.sort_independent)
  show "mset (ranked_candidates i ds) = mset (ranked_candidates i cs)" using assms(2) by (simp add: ranked_alt)
  fix x y
  assume "x \<in> set (ranked_candidates i ds)" "y \<in> set (ranked_candidates i ds)" "headroom_compare x y = 0"
  moreover have "set ds = set cs" using assms(2) by (metis set_mset_mset)
  ultimately show "x = y"
    using separated_eq [OF assms(1), of "fst x" "fst y"]
    by (auto simp: ranked_alt headroom_compare_def Let_def split: if_splits)
qed

interpretation quota_policy: policy_contract quotaAware
proof
  show "mset (po_ordered (quotaAware i)) = mset (pi_candidates i)" for i
  proof -
    have "mset (map fst (js_sort headroom_compare (ranked_candidates i (pi_candidates i)))) =
        mset (filter (\<lambda>c. headroom_of i c \<noteq> None) (pi_candidates i))"
      by (simp add: ranked_alt comp_def multiset.map_comp)
    moreover have "filter (\<lambda>c. headroom_of i c \<noteq> None) (pi_candidates i) = []"
      if "ranked_candidates i (pi_candidates i) = []" using that by (simp add: ranked_alt)
    ultimately show ?thesis
      using filter_partition_mset [of "\<lambda>c. headroom_of i c \<noteq> None" "pi_candidates i"]
      by (auto simp: quotaAware_alt Let_def simp del: mset_filter)
  qed
  show "quotaAware (i\<lparr>pi_candidates := cs\<rparr>) = quotaAware i"
    if "separated (pi_candidates i)" "mset cs = mset (pi_candidates i)" for i cs
  proof -
    let ?un = "filter (\<lambda>c. headroom_of i c = None)"
    have un: "sortDeclared (?un cs) = sortDeclared (?un (pi_candidates i))"
      using that by (intro sortDeclared_free separated_filter) simp_all
    have best: "js_sort headroom_compare (ranked_candidates i cs) = js_sort headroom_compare (ranked_candidates i (pi_candidates i))"
      using that by (rule ranked_sort_free)
    have "ranked_candidates i cs = [] \<longleftrightarrow> ranked_candidates i (pi_candidates i) = []"
      using arg_cong [OF best, of length] by (metis length_0_conv length_js_sort)
    moreover have "ranked_candidates (i\<lparr>pi_candidates := cs\<rparr>) cs = ranked_candidates i cs"
      by (simp add: ranked_candidates_def)
    ultimately show ?thesis using un best by (simp add: quotaAware_alt Let_def)
  qed
qed

lemma registry_contract: "policy_contract (POLICIES p)"
  by (cases p)
    (simp_all add: sticky_policy.policy_contract_axioms round_robin_policy.policy_contract_axioms
      weighted_policy.policy_contract_axioms least_used_policy.policy_contract_axioms
      priority_policy.policy_contract_axioms quota_policy.policy_contract_axioms)

interpretation registry: policy_contract "POLICIES p" for p
  by (rule registry_contract)

end
