(* ===== verification/Policy_Rules.thy ===== *)
theory Policy_Rules
  imports Policies "HOL-Library.Product_Lexorder"
begin

text \<open>
  What the policies promise: \<open>runPolicy\<close> meets the policy contract itself, its order is the policy's
  order regrouped by tier with the bound account in front, and each policy ranks by what it says.
\<close>

section \<open>The common rules keep every candidate\<close>

lemma filter_both_mset: "mset (filter P xs) + mset (filter (\<lambda>x. \<not> P x) xs) = mset xs"
  using filter_partition_mset [of P xs] by simp

lemma demote_mset [simp]: "mset (fst (demoteHalfOpen cs home)) = mset cs"
  using filter_both_mset [of "is_probe home" cs]
  by (simp add: demoteHalfOpen_def Let_def union_commute del: mset_filter)

lemma promote_mset [simp]: "mset (fst (promoteRecoveryPermit cs home)) = mset cs"
  using filter_both_mset [of "holds_permit home" cs]
  by (simp add: promoteRecoveryPermit_def Let_def del: mset_filter)

lemma defer_mset [simp]: "mset (fst (deferAliased cs)) = mset cs"
  using filter_both_mset [of cd_aliased cs]
  by (simp add: deferAliased_def nativeFirst_def Let_def union_commute del: mset_filter)

lemma pin_move: "fst (pinBinding cs (Honored a)) = move_to_front (\<lambda>c. sa_id c = a) cs"
  by (simp add: pinBinding_def move_to_front_def split: option.splits)

lemma pin_other [simp]: "(\<And>a. b \<noteq> Honored a) \<Longrightarrow> pinBinding cs b = (cs, [])"
  by (cases b) (auto simp: pinBinding_def)

lemma pin_mset [simp]: "mset (fst (pinBinding cs b)) = mset cs"
proof (cases "\<exists>a. b = Honored a")
  case True
  then show ?thesis by (auto simp: pin_move)
qed simp

interpretation run: policy_contract "\<lambda>i. runPolicy p i b" for p b
proof
  show "mset (po_ordered (runPolicy p i b)) = mset (pi_candidates i)" for i
    by (simp add: runPolicy_def Let_def registry.permutes)
  show "runPolicy p (i\<lparr>pi_candidates := cs\<rparr>) b = runPolicy p i b"
    if "separated (pi_candidates i)" "mset cs = mset (pi_candidates i)" for i cs
    using registry.order_free [OF that, of p] by (simp add: runPolicy_def)
qed

section \<open>Tiers\<close>

text \<open>
  The order the rules impose, as one key: native before aliased, then the designated recovery
  permit, then healthy accounts, then probes.
\<close>

definition tier :: "candidate option \<Rightarrow> candidate \<Rightarrow> nat" where
  "tier home c =
     (if cd_aliased c then 4 else 0) + (if holds_permit home c then 0 else 2) + (if is_probe home c then 1 else 0)"

lemma filter_all_length: "length (filter P xs) = length xs \<Longrightarrow> filter P xs = xs"
  by (metis filter_True filter_id_conv length_filter_less less_irrefl)

lemma demote_alt: "fst (demoteHalfOpen cs home) = filter (\<lambda>c. \<not> is_probe home c) cs @ filter (is_probe home) cs"
proof (cases "length (filter (\<lambda>c. \<not> is_probe home c) cs) = length cs")
  case True
  then have "filter (\<lambda>c. \<not> is_probe home c) cs = cs" by (rule filter_all_length)
  moreover from this have "filter (is_probe home) cs = []" by (auto simp: filter_id_conv filter_empty_conv)
  ultimately show ?thesis using True by (simp add: demoteHalfOpen_def Let_def)
qed (simp add: demoteHalfOpen_def Let_def)

lemma promote_alt: "fst (promoteRecoveryPermit cs home) = filter (holds_permit home) cs @ filter (\<lambda>c. \<not> holds_permit home c) cs"
  by (auto simp: promoteRecoveryPermit_def Let_def filter_empty_conv intro!: filter_True [symmetric])

lemma defer_alt: "fst (deferAliased cs) = filter (\<lambda>c. \<not> cd_aliased c) cs @ filter cd_aliased cs"
proof (cases "filter (\<lambda>c. \<not> cd_aliased c) cs = []")
  case True
  then have "filter cd_aliased cs = cs" by (auto simp: filter_empty_conv intro!: filter_True)
  then show ?thesis using True by (simp add: deferAliased_def nativeFirst_def Let_def)
next
  case False
  note native = False
  show ?thesis
  proof (cases "length (filter (\<lambda>c. \<not> cd_aliased c) cs) = length cs")
    case True
    then have "filter (\<lambda>c. \<not> cd_aliased c) cs = cs" by (rule filter_all_length)
    moreover from this have "filter cd_aliased cs = []" by (auto simp: filter_id_conv filter_empty_conv)
    ultimately show ?thesis by (simp add: deferAliased_def nativeFirst_def Let_def)
  next
    case False
    then have "filter cd_aliased cs \<noteq> []"
      by (metis filter_True filter_empty_conv)
    then show ?thesis using False native by (simp add: deferAliased_def nativeFirst_def Let_def)
  qed
qed

lemma runPolicy_unpinned:
  assumes "\<And>a. b \<noteq> Honored a"
  shows "po_ordered (runPolicy p i b) =
    (let raw = po_ordered (POLICIES p i); home = policy_home p raw
     in fst (deferAliased (fst (promoteRecoveryPermit (fst (demoteHalfOpen raw home)) home))))"
  using assms by (simp add: runPolicy_def Let_def)

lemma regroup_sorted:
  "sorted_wrt (\<lambda>x y. tier home x \<le> tier home y)
     (fst (deferAliased (fst (promoteRecoveryPermit (fst (demoteHalfOpen raw home)) home))))"
proof -
  have const: "sorted_wrt (\<lambda>x y. tier home x \<le> tier home y) ys"
    if "\<And>x y. x \<in> set ys \<Longrightarrow> y \<in> set ys \<Longrightarrow> tier home x = tier home y" for ys
    unfolding sorted_wrt_iff_nth_less using that by (metis nth_mem order.strict_trans order_refl)
  have same: "sorted_wrt (\<lambda>x y. tier home x \<le> tier home y) (filter P raw)"
    if "\<And>x y. P x \<Longrightarrow> P y \<Longrightarrow> tier home x = tier home y" for P
    by (rule const) (use that in auto)
  show ?thesis
    unfolding defer_alt promote_alt demote_alt filter_append filter_filter sorted_wrt_append
    by (intro conjI same ballI) (auto simp: tier_def)
qed

lemma partition_filter:
  assumes "\<And>c. Q c \<longleftrightarrow> \<not> P c" and "(\<forall>c. R c \<longrightarrow> P c) \<or> (\<forall>c. R c \<longrightarrow> Q c)"
  shows "filter R (filter P xs @ filter Q xs) = filter R xs"
  using assms(2)
proof
  assume "\<forall>c. R c \<longrightarrow> P c"
  then have "(\<lambda>c. R c \<and> P c) = R" "(\<lambda>c. R c \<and> Q c) = (\<lambda>_. False)" using assms(1) by auto
  then show ?thesis by (simp add: conj_commute)
next
  assume "\<forall>c. R c \<longrightarrow> Q c"
  then have "(\<lambda>c. R c \<and> Q c) = R" "(\<lambda>c. R c \<and> P c) = (\<lambda>_. False)" using assms(1) by auto
  then show ?thesis by (simp add: conj_commute)
qed

lemma tier_bits:
  assumes "tier home x = tier home y"
  shows "cd_aliased x = cd_aliased y" "holds_permit home x = holds_permit home y" "is_probe home x = is_probe home y"
  using assms by (auto simp: tier_def split: if_splits)

lemma regroup_stable:
  "filter (\<lambda>c. tier home c = t)
     (fst (deferAliased (fst (promoteRecoveryPermit (fst (demoteHalfOpen raw home)) home)))) =
   filter (\<lambda>c. tier home c = t) raw"
proof -
  let ?R = "\<lambda>c. tier home c = t"
  have "(\<forall>c. ?R c \<longrightarrow> \<not> cd_aliased c) \<or> (\<forall>c. ?R c \<longrightarrow> cd_aliased c)" by (metis tier_bits(1))
  then have "filter ?R (filter (\<lambda>c. \<not> cd_aliased c) xs @ filter cd_aliased xs) = filter ?R xs" for xs
    by (rule partition_filter [rotated]) simp
  moreover have "(\<forall>c. ?R c \<longrightarrow> holds_permit home c) \<or> (\<forall>c. ?R c \<longrightarrow> \<not> holds_permit home c)" by (metis tier_bits(2))
  then have "filter ?R (filter (holds_permit home) xs @ filter (\<lambda>c. \<not> holds_permit home c) xs) = filter ?R xs" for xs
    by (rule partition_filter [rotated]) simp
  moreover have "(\<forall>c. ?R c \<longrightarrow> \<not> is_probe home c) \<or> (\<forall>c. ?R c \<longrightarrow> is_probe home c)" by (metis tier_bits(3))
  then have "filter ?R (filter (\<lambda>c. \<not> is_probe home c) xs @ filter (is_probe home) xs) = filter ?R xs" for xs
    by (rule partition_filter [rotated]) simp
  ultimately show ?thesis by (simp only: defer_alt promote_alt demote_alt)
qed

section \<open>Properties of \<open>runPolicy\<close>\<close>

text \<open>
  Running a policy orders and never drops: under every policy and every binding verdict the
  result holds exactly the candidates it was given; and replicas that list the candidates of a group
  in different orders compute the same order and the same notes.
\<close>

theorem runPolicy_total_and_deterministic:
  assumes "separated (pi_candidates i)" and "mset cs = mset (pi_candidates i)"
  shows "mset (po_ordered (runPolicy p i b)) = mset (pi_candidates i) \<and>
         runPolicy p (i\<lparr>pi_candidates := cs\<rparr>) b = runPolicy p i b"
  using run.permutes run.order_free [OF assms] by blast

text \<open>
  The order is the policy's own order regrouped, nothing more: with no binding to honor,
  natively served accounts come before aliased ones; within each, the designated permit holder, then
  healthy accounts, then half-open probes; and inside a group the policy's order is untouched. Under
  \<open>sticky\<close> the session's home is not a probe while merely half-open, and only the home may spend a
  permit.
\<close>

theorem runPolicy_regroups_by_tier:
  assumes "\<And>a. b \<noteq> Honored a" and "raw = po_ordered (POLICIES p i)" and "home = policy_home p raw"
  shows "sorted_wrt (\<lambda>x y. tier home x \<le> tier home y) (po_ordered (runPolicy p i b)) \<and>
    (\<forall>t. filter (\<lambda>c. tier home c = t) (po_ordered (runPolicy p i b)) = filter (\<lambda>c. tier home c = t) raw)"
  using regroup_sorted regroup_stable by (simp add: runPolicy_unpinned [OF assms(1)] assms(2,3) Let_def)

text \<open>Concrete candidates: a healthy account at a place in the declared order.\<close>

definition plain_candidate :: "account_id \<Rightarrow> nat \<Rightarrow> candidate" where
  "plain_candidate i n = candidate_of ((scoped_plain (plain_account i AnthropicApi))\<lparr>sa_order := n\<rparr>) ''m''"

definition plain_input :: "candidate list \<Rightarrow> int \<Rightarrow> policy_input" where
  "plain_input cs n =
     \<lparr>pi_now = 0, pi_candidates = cs, pi_sessionKey = ''s'', pi_rotationCounter = n, pi_leastUsedMeasure = None\<rparr>"

lemma plain_candidate_order [simp]: "sa_order (plain_candidate i n) = n" "sa_id (plain_candidate i n) = i"
  by (simp_all add: plain_candidate_def candidate_of_def scoped_plain_def plain_account_def)

theorem runPolicy_total_and_deterministic_witness:
  "let a = plain_candidate ''a'' 0; b = plain_candidate ''b'' 1
   in mset (po_ordered (runPolicy RoundRobin (plain_input [a, b] 1) NoBinding)) = {#a, b#} \<and>
      runPolicy RoundRobin ((plain_input [a, b] 1)\<lparr>pi_candidates := [b, a]\<rparr>) NoBinding =
        runPolicy RoundRobin (plain_input [a, b] 1) NoBinding \<and>
      accountIds (po_ordered (runPolicy RoundRobin (plain_input [a, b] 1) NoBinding)) = [''b'', ''a'']"
proof -
  define a where "a = plain_candidate ''a'' 0"
  define b where "b = plain_candidate ''b'' 1"
  have "mset (po_ordered (runPolicy RoundRobin (plain_input [a, b] 1) NoBinding)) = mset (pi_candidates (plain_input [a, b] 1)) \<and>
      runPolicy RoundRobin ((plain_input [a, b] 1)\<lparr>pi_candidates := [b, a]\<rparr>) NoBinding =
        runPolicy RoundRobin (plain_input [a, b] 1) NoBinding"
    by (rule runPolicy_total_and_deterministic) (simp_all add: plain_input_def separated_def a_def b_def)
  moreover have "accountIds (po_ordered (runPolicy RoundRobin (plain_input [a, b] 1) NoBinding)) = [''b'', ''a'']"
    unfolding a_def b_def by code_simp
  ultimately show ?thesis unfolding Let_def a_def [symmetric] b_def [symmetric] by (simp add: plain_input_def)
qed

theorem runPolicy_regroups_by_tier_witness:
  "let probe = (plain_candidate ''a'' 0)\<lparr>cd_halfOpen := True\<rparr>; ali = (plain_candidate ''b'' 1)\<lparr>cd_aliased := True\<rparr>;
       c = plain_candidate ''c'' 2; i = plain_input [probe, ali, c] 0
   in sorted_wrt (\<lambda>x y. tier None x \<le> tier None y) (po_ordered (runPolicy RoundRobin i NoBinding)) \<and>
      accountIds (po_ordered (POLICIES RoundRobin i)) = [''a'', ''b'', ''c''] \<and>
      accountIds (po_ordered (runPolicy RoundRobin i NoBinding)) = [''c'', ''a'', ''b'']"
proof -
  define probe where "probe = (plain_candidate ''a'' 0)\<lparr>cd_halfOpen := True\<rparr>"
  define ali where "ali = (plain_candidate ''b'' 1)\<lparr>cd_aliased := True\<rparr>"
  define c where "c = plain_candidate ''c'' 2"
  define i where "i = plain_input [probe, ali, c] 0"
  have "sorted_wrt (\<lambda>x y. tier None x \<le> tier None y) (po_ordered (runPolicy RoundRobin i NoBinding)) \<and>
    (\<forall>t. filter (\<lambda>x. tier None x = t) (po_ordered (runPolicy RoundRobin i NoBinding)) =
         filter (\<lambda>x. tier None x = t) (po_ordered (POLICIES RoundRobin i)))"
    by (rule runPolicy_regroups_by_tier) (simp_all add: policy_home_def)
  moreover have "accountIds (po_ordered (POLICIES RoundRobin i)) = [''a'', ''b'', ''c'']"
    "accountIds (po_ordered (runPolicy RoundRobin i NoBinding)) = [''c'', ''a'', ''b'']"
    unfolding i_def probe_def ali_def c_def by code_simp+
  ultimately show ?thesis unfolding Let_def i_def probe_def ali_def c_def by blast
qed

text \<open>
  The binding wins over every policy: when it is honored and its account is among the
  candidates, that account is the first one tried, whatever the policy, the probes, the permits and
  the aliases say.
\<close>

theorem binding_pinned_first:
  assumes "a \<in> (\<lambda>c. sa_id c) ` set (pi_candidates i)"
  shows "\<exists>c rest. po_ordered (runPolicy p i (Honored a)) = c # rest \<and> sa_id c = a"
proof -
  define cs where "cs = fst (deferAliased (fst (promoteRecoveryPermit
      (fst (demoteHalfOpen (po_ordered (POLICIES p i)) (policy_home p (po_ordered (POLICIES p i)))))
      (policy_home p (po_ordered (POLICIES p i))))))"
  have "mset cs = mset (pi_candidates i)" by (simp add: cs_def registry.permutes)
  then have "set cs = set (pi_candidates i)" by (metis set_mset_mset)
  then have "\<exists>c \<in> set cs. sa_id c = a" using assms by auto
  then show ?thesis
    using move_to_front_head [of cs "\<lambda>c. sa_id c = a"] by (simp add: runPolicy_def Let_def pin_move cs_def)
qed

theorem binding_pinned_first_witness:
  "\<exists>c rest. po_ordered (runPolicy Sticky (plain_input [plain_candidate ''a'' 0, plain_candidate ''b'' 1] 0) (Honored ''b'')) = c # rest
     \<and> sa_id c = ''b''"
  by (rule binding_pinned_first) (simp add: plain_input_def)

section \<open>Fairness\<close>

text \<open>Over one full period of a counter, each residue is hit once.\<close>

lemma residues_bij:
  fixes n :: int
  assumes "0 < n"
  shows "bij_betw (\<lambda>k. k mod n) {c..<c + n} {0..<n}"
proof -
  have inj: "inj_on (\<lambda>k. k mod n) {c..<c + n}"
  proof (rule inj_onI)
    fix x y
    assume a: "x \<in> {c..<c + n}" "y \<in> {c..<c + n}" "x mod n = y mod n"
    then have "n dvd x - y" by (simp add: mod_eq_dvd_iff)
    moreover have "\<bar>x - y\<bar> < n" using a by auto
    ultimately show "x = y" using zdvd_not_zless [of "\<bar>x - y\<bar>" n] by auto
  qed
  have "(\<lambda>k. k mod n) ` {c..<c + n} \<subseteq> {0..<n}" using assms by auto
  moreover have "card ((\<lambda>k. k mod n) ` {c..<c + n}) = card {0..<n}" using inj by (simp add: card_image)
  ultimately have "(\<lambda>k. k mod n) ` {c..<c + n} = {0..<n}" by (intro card_subset_eq) auto
  then show ?thesis using inj by (simp add: bij_betw_def)
qed

lemma residues_count:
  fixes n :: int
  assumes "0 < n"
  shows "card {k \<in> {c..<c + n}. P (k mod n)} = card {r \<in> {0..<n}. P r}"
proof (rule bij_betw_same_card)
  have "bij_betw (\<lambda>k. k mod n) {k \<in> {c..<c + n}. P (k mod n)} ((\<lambda>k. k mod n) ` {k \<in> {c..<c + n}. P (k mod n)})"
    using residues_bij [OF assms, of c] by (auto simp: bij_betw_def inj_on_def)
  moreover have "(\<lambda>k. k mod n) ` {k \<in> {c..<c + n}. P (k mod n)} = {r \<in> {0..<n}. P r}"
  proof -
    have img: "f ` {k \<in> A. P (f k)} = {r \<in> f ` A. P r}" for f :: "int \<Rightarrow> int" and A by blast
    show ?thesis
      using img [of "\<lambda>k. k mod n" "{c..<c + n}"] residues_bij [OF assms, of c] by (simp only: bij_betw_def)
  qed
  ultimately show "bij_betw (\<lambda>k. k mod n) {k \<in> {c..<c + n}. P (k mod n)} {r \<in> {0..<n}. P r}" by simp
qed

lemma rotate_by_head:
  assumes "cs \<noteq> []"
  shows "hd (rotate_by cs k) = cs ! nat (k mod int (length cs))"
proof -
  have "0 < int (length cs)" using assms by simp
  then have r: "js_rem (js_rem k (int (length cs)) + int (length cs)) (int (length cs)) = k mod int (length cs)"
    by (rule js_rem_wrap)
  have "nat (k mod int (length cs)) < length cs" using \<open>0 < int (length cs)\<close> by (simp add: nat_less_iff)
  then show ?thesis using assms r by (simp add: rotate_by_def Let_def hd_append hd_drop_conv_nth)
qed

lemma sortDeclared_distinct: "separated cs \<Longrightarrow> distinct (sortDeclared cs)"
  by (metis distinct_map mset_eq_imp_distinct_iff separated_def sortDeclared_mset)

lemma sortDeclared_set [simp]: "set (sortDeclared cs) = set cs" "length (sortDeclared cs) = length cs"
  by (simp_all add: sortDeclared_def)

text \<open>
  Round-robin is exactly fair: over any run of consecutive counters as long as the group, from
  any starting counter (negative ones included), every candidate is tried first exactly once.
\<close>

theorem round_robin_fair:
  assumes "separated (pi_candidates i)" and "x \<in> set (pi_candidates i)"
  shows "card {k \<in> {c..<c + int (length (pi_candidates i))}.
                 hd (po_ordered (roundRobin (i\<lparr>pi_rotationCounter := k\<rparr>))) = x} = 1"
proof -
  define srt where "srt = sortDeclared (pi_candidates i)"
  define n where "n = int (length srt)"
  have "length srt \<noteq> 0" using assms(2) by (auto simp: srt_def)
  then have ne: "srt \<noteq> []" and n: "0 < n" by (auto simp: n_def)
  obtain j where j: "j < length srt" "srt ! j = x" using assms(2) by (metis in_set_conv_nth sortDeclared_set(1) srt_def)
  have "hd (rotate_by srt k) = x \<longleftrightarrow> k mod n = int j" for k
  proof -
    have "nat (k mod n) < length srt" using n by (simp add: n_def nat_less_iff)
    then have "srt ! nat (k mod n) = x \<longleftrightarrow> nat (k mod n) = j"
      using j sortDeclared_distinct [OF assms(1)] by (auto simp: srt_def nth_eq_iff_index_eq)
    then show ?thesis using rotate_by_head [OF ne, of k] n by (auto simp: n_def [symmetric])
  qed
  then have "{k \<in> {c..<c + n}. hd (po_ordered (roundRobin (i\<lparr>pi_rotationCounter := k\<rparr>))) = x} =
      {k \<in> {c..<c + n}. k mod n = int j}"
    by (simp add: roundRobin_def srt_def)
  moreover have "card {r \<in> {0..<n}. r = int j} = 1"
  proof -
    have "{r \<in> {0..<n}. r = int j} = {int j}" using j(1) by (auto simp: n_def)
    then show ?thesis by simp
  qed
  ultimately show ?thesis using residues_count [OF n, of c "\<lambda>r. r = int j"] by (simp add: n_def srt_def)
qed

theorem round_robin_fair_witness:
  "card {k \<in> {- 1..<- 1 + int 2}.
     hd (po_ordered (roundRobin ((plain_input [plain_candidate ''a'' 0, plain_candidate ''b'' 1] 0)\<lparr>pi_rotationCounter := k\<rparr>)))
       = plain_candidate ''b'' 1} = 1"
  using round_robin_fair [of "plain_input [plain_candidate ''a'' 0, plain_candidate ''b'' 1] 0" "plain_candidate ''b'' 1" "- 1"]
  by (simp add: plain_input_def separated_def)







section \<open>Ranking policies\<close>

lemma sorted_wrt_weaken:
  "sorted_wrt R xs \<Longrightarrow> (\<And>x y. R x y \<Longrightarrow> S x y) \<Longrightarrow> sorted_wrt S xs"
  by (rule sorted_wrt_mono_rel) auto

text \<open>
  \<open>quota-aware\<close> ranks by what it can read and says what it cannot: the order never puts an
  account behind one with less headroom, an account without a continuous reading comes after every
  account with one, and the accounts named in \<open>policy-degraded\<close> notes are exactly those without a
  reading.
\<close>

theorem quota_aware_ranks_and_reports:
  "sorted_wrt (\<lambda>x y. headroom_of i y \<le> headroom_of i x) (po_ordered (quotaAware i)) \<and>
   {a. \<exists>ids. PolicyDegraded QuotaAware RoundRobin ids \<in> set (po_notes (quotaAware i)) \<and> a \<in> set ids} =
     (\<lambda>c. sa_id c) ` {c \<in> set (pi_candidates i). headroom_of i c = None}"
proof
  define best where "best = js_sort headroom_compare (ranked_candidates i (pi_candidates i))"
  define rest where "rest = rotate_by (sortDeclared (filter (\<lambda>c. headroom_of i c = None) (pi_candidates i))) (pi_rotationCounter i)"
  have best_in: "headroom_of i (fst e) = Some (snd e)" if "e \<in> set best" for e
    using that by (auto simp: best_def ranked_alt)
  have "mset rest = mset (filter (\<lambda>c. headroom_of i c = None) (pi_candidates i))"
    unfolding rest_def by (simp only: rotate_by_mset sortDeclared_mset)
  then have rest_set: "set rest = {c \<in> set (pi_candidates i). headroom_of i c = None}"
    by (metis set_filter set_mset_mset)
  have "sorted_wrt (\<lambda>x y. headroom_compare x y \<le> 0) best"
    unfolding best_def by (rule by_headroom.sort_sorted)
  then have "sorted_wrt (\<lambda>x y. snd y \<le> snd x) best"
    by (rule sorted_wrt_weaken) (auto simp: headroom_compare_def Let_def split: if_splits)
  then have "sorted_wrt (\<lambda>x y. headroom_of i (fst y) \<le> headroom_of i (fst x)) best"
    by (rule sorted_wrt_mono_rel [rotated]) (auto simp: best_in)
  then have "sorted_wrt (\<lambda>x y. headroom_of i y \<le> headroom_of i x) (map fst best)"
    by (simp add: sorted_wrt_map)
  moreover have "sorted_wrt (\<lambda>x y. headroom_of i y \<le> headroom_of i x) rest"
    using rest_set by (auto simp: sorted_wrt_iff_nth_less) (metis (mono_tags, lifting) mem_Collect_eq nth_mem order_refl order.strict_trans)
  ultimately show "sorted_wrt (\<lambda>x y. headroom_of i y \<le> headroom_of i x) (po_ordered (quotaAware i))"
    using rest_set best_in
    by (auto simp: quotaAware_alt Let_def best_def [symmetric] rest_def [symmetric] sorted_wrt_append)
  show "{a. \<exists>ids. PolicyDegraded QuotaAware RoundRobin ids \<in> set (po_notes (quotaAware i)) \<and> a \<in> set ids} =
     (\<lambda>c. sa_id c) ` {c \<in> set (pi_candidates i). headroom_of i c = None}"
    unfolding rest_set [symmetric]
    by (auto simp: quotaAware_alt Let_def best_def [symmetric] rest_def [symmetric] degraded_def accountIds_def)
qed

text \<open>
  The load and priority policies order by their key, and the healthy head they yield is optimal:
  \<open>least-used\<close> is ascending in the chosen measure and, among equals, in the other one;
  \<open>priority-failover\<close> is ascending in the membership priority.
\<close>

theorem greedy_policies_sorted:
  "sorted_wrt (\<lambda>x y. (load x m, load x (other_measure m)) \<le> (load y m, load y (other_measure m)))
     (po_ordered (leastUsed (i\<lparr>pi_leastUsedMeasure := Some m\<rparr>))) \<and>
   sorted_wrt (\<lambda>x y. sa_priority x \<le> sa_priority y) (po_ordered (priorityFailover i))"
proof
  have "sorted_wrt (\<lambda>x y. load_compare m x y \<le> 0) (po_ordered (leastUsed (i\<lparr>pi_leastUsedMeasure := Some m\<rparr>)))"
    by (simp add: leastUsed_def Let_def by_load.sort_sorted)
  then show "sorted_wrt (\<lambda>x y. (load x m, load x (other_measure m)) \<le> (load y m, load y (other_measure m)))
     (po_ordered (leastUsed (i\<lparr>pi_leastUsedMeasure := Some m\<rparr>)))"
    by (rule sorted_wrt_weaken) (auto simp: load_compare_def Let_def less_eq_prod_def split: if_splits)
  have "sorted_wrt (\<lambda>x y. priority_compare x y \<le> 0) (po_ordered (priorityFailover i))"
    by (simp add: priorityFailover_def by_priority.sort_sorted)
  then show "sorted_wrt (\<lambda>x y. sa_priority x \<le> sa_priority y) (po_ordered (priorityFailover i))"
    by (rule sorted_wrt_weaken) (auto simp: priority_compare_def Let_def split: if_splits)
qed

end
