(* ===== verification/Failover.thy ===== *)
theory Failover
  imports Policy_Rules
begin

text \<open>
  \<open>failover.ts\<close> of \<open>services/routing\<close>: what a failed attempt means and where the next one goes; and
  \<open>attempt-failure.ts\<close> of \<open>services/dataplane\<close>: an upstream's verdict in that vocabulary.
\<close>

section \<open>Kinds\<close>

definition RETRYABLE_FAILURE_KINDS :: "failure_kind list" where
  "RETRYABLE_FAILURE_KINDS =
     [RateLimited, CreditsDrained, ServerError, Connection, Timeout, AuthFailure, BusySession, ModelUnsupported,
      Overloaded]"

definition isRetryable :: "failure_kind \<Rightarrow> bool" where
  "isRetryable k \<longleftrightarrow> k \<in> set RETRYABLE_FAILURE_KINDS"

definition classifyStatus :: "int \<Rightarrow> bool \<Rightarrow> failure_kind option" where
  "classifyStatus status outOfCredits =
     (if outOfCredits then Some CreditsDrained
      else if status < 400 then None
      else if status = 429 then Some RateLimited
      else if status = 402 then Some CreditsDrained
      else if status = 401 \<or> status = 403 then Some AuthFailure
      else if status \<ge> 500 then Some ServerError
      else Some ClientError)"

datatype upstream_failure_kind =
    UpRateLimited | UpCreditsExhausted | UpAuth | UpInvalidRequest | UpModelUnsupported | UpServerError
  | UpOverloaded | UpStaleSession | UpBusySession | UpSubprocessCrash | UpUnknown

fun FAILURE_KINDS :: "upstream_failure_kind \<Rightarrow> failure_kind option" where
  "FAILURE_KINDS UpRateLimited = Some RateLimited"
| "FAILURE_KINDS UpCreditsExhausted = Some CreditsDrained"
| "FAILURE_KINDS UpAuth = Some AuthFailure"
| "FAILURE_KINDS UpInvalidRequest = Some ClientError"
| "FAILURE_KINDS UpModelUnsupported = Some ModelUnsupported"
| "FAILURE_KINDS UpServerError = Some ServerError"
| "FAILURE_KINDS UpOverloaded = Some Overloaded"
| "FAILURE_KINDS UpStaleSession = Some StaleSession"
| "FAILURE_KINDS UpBusySession = Some BusySession"
| "FAILURE_KINDS UpSubprocessCrash = Some ServerError"
| "FAILURE_KINDS UpUnknown = None"

definition failoverKind :: "upstream_failure_kind option \<Rightarrow> int \<Rightarrow> failure_kind" where
  "failoverKind kind status =
     (case Option.bind kind FAILURE_KINDS of
        Some k \<Rightarrow> k
      | None \<Rightarrow> (case classifyStatus status False of Some k \<Rightarrow> k | None \<Rightarrow> ServerError))"

section \<open>Options, progress, decisions\<close>

record failover_options =
  fo_maxAttempts :: "int option"
  fo_maxInPlaceRetries :: "nat option"
  fo_overloadRetries :: "int option"
  fo_overloadRetryBaseMs :: "int option"
  fo_boundAccountId :: "account_id option"

record failover_progress =
  fp_attemptedAccountIds :: "account_id list"
  fp_inPlaceRetries :: nat
  fp_overloadRetries :: nat
  fp_bytesStreamed :: bool
  fp_overloadedAccountId :: "account_id option"

definition NO_ATTEMPTS :: failover_progress where
  "NO_ATTEMPTS =
     \<lparr>fp_attemptedAccountIds = [], fp_inPlaceRetries = 0, fp_overloadRetries = 0, fp_bytesStreamed = False,
      fp_overloadedAccountId = None\<rparr>"

definition DEFAULT_MAX_IN_PLACE_RETRIES :: nat where "DEFAULT_MAX_IN_PLACE_RETRIES = 1"

datatype failover_stop_reason = BytesStreamed | NotRetryable | AttemptsExhausted | CandidatesExhausted

datatype failover_decision =
    Attempt candidate nat bool bool \<comment> \<open>candidate, attempt, invalidateBinding, sessionRestart\<close>
  | RetryInPlace candidate nat "int option" \<comment> \<open>candidate, attempt, delayMs\<close>
  | Stop failover_stop_reason

section \<open>Planning\<close>

definition attemptCeiling :: "nat \<Rightarrow> failover_options \<Rightarrow> nat" where
  "attemptCeiling planned opts =
     (case fo_maxAttempts opts of
        None \<Rightarrow> planned
      | Some n \<Rightarrow> min (nat (max 1 n)) planned)"

definition maxAttempts :: "candidate list \<Rightarrow> failover_options \<Rightarrow> nat" where
  "maxAttempts ordered opts = attemptCeiling (length ordered) opts"

definition plannedCount :: "candidate list \<Rightarrow> failover_progress \<Rightarrow> nat" where
  "plannedCount ordered progress =
     (let offered = set (map (\<lambda>c. sa_id c) ordered);
          dropped = js_unique (filter (\<lambda>i. i \<notin> offered) (fp_attemptedAccountIds progress))
      in length ordered + length dropped)"

definition last_id :: "account_id list \<Rightarrow> account_id option" where
  "last_id ids = (if ids = [] then None else Some (last ids))"

definition find_candidate :: "candidate list \<Rightarrow> account_id option \<Rightarrow> candidate option" where
  "find_candidate ordered i = find (\<lambda>c. Some (sa_id c) = i) ordered"

definition firstAttempt :: "candidate list \<Rightarrow> failover_progress \<Rightarrow> failover_decision" where
  "firstAttempt ordered progress =
     (case ordered of
        [] \<Rightarrow> Stop CandidatesExhausted
      | head # _ \<Rightarrow> Attempt head (length (fp_attemptedAccountIds progress) + 1) False False)"

definition replayInPlace :: "candidate list \<Rightarrow> failover_progress \<Rightarrow> failover_options \<Rightarrow> failover_decision" where
  "replayInPlace ordered progress opts =
     (if fp_inPlaceRetries progress \<ge> or_default (fo_maxInPlaceRetries opts) DEFAULT_MAX_IN_PLACE_RETRIES
      then Stop NotRetryable
      else case find_candidate ordered (last_id (fp_attemptedAccountIds progress)) of
             None \<Rightarrow> Stop CandidatesExhausted
           | Some c \<Rightarrow> RetryInPlace c (length (fp_attemptedAccountIds progress)) None)"

definition overload_cap :: "failover_options \<Rightarrow> nat" where
  "overload_cap opts = nat (or_default (fo_overloadRetries opts) 0)"

definition waitOutOverload ::
  "candidate list \<Rightarrow> failover_progress \<Rightarrow> attempt_failure \<Rightarrow> failover_options \<Rightarrow> failover_stop_reason \<Rightarrow>
     failover_decision" where
  "waitOutOverload ordered progress lastFailure opts exhausted =
     (let busyId = (if af_kind lastFailure = Overloaded then last_id (fp_attemptedAccountIds progress)
                    else fp_overloadedAccountId progress)
      in if busyId = None then Stop exhausted
      else if fp_overloadRetries progress \<ge> overload_cap opts then Stop exhausted
      else case find_candidate ordered busyId of
             None \<Rightarrow> Stop exhausted
           | Some c \<Rightarrow>
               RetryInPlace c (length (fp_attemptedAccountIds progress))
                 (Some (max 0 (or_default (fo_overloadRetryBaseMs opts) 0) * 2 ^ fp_overloadRetries progress)))"

definition attemptOn ::
  "candidate \<Rightarrow> candidate list \<Rightarrow> failover_progress \<Rightarrow> failover_options \<Rightarrow> failover_decision" where
  "attemptOn next ordered progress opts =
     (let leavingBound = (case fo_boundAccountId opts of
                            None \<Rightarrow> False
                          | Some b \<Rightarrow> b \<noteq> sa_id next \<and> b \<in> set (fp_attemptedAccountIds progress));
          bound = find_candidate ordered (fo_boundAccountId opts)
      in Attempt next (length (fp_attemptedAccountIds progress) + 1) leavingBound
           (leavingBound \<and> map_option (\<lambda>c. acc_provider (sa_account c)) bound = Some AnthropicOAuth))"

definition planNextAttempt ::
  "candidate list \<Rightarrow> failover_progress \<Rightarrow> attempt_failure option \<Rightarrow> failover_options \<Rightarrow> failover_decision" where
  "planNextAttempt ordered progress lastFailure opts =
     (case lastFailure of
        None \<Rightarrow> firstAttempt ordered progress
      | Some failure \<Rightarrow>
          if fp_bytesStreamed progress then Stop BytesStreamed
          else if af_kind failure = StaleSession then replayInPlace ordered progress opts
          else if \<not> isRetryable (af_kind failure) then Stop NotRetryable
          else if length (fp_attemptedAccountIds progress) \<ge> attemptCeiling (plannedCount ordered progress) opts
          then waitOutOverload ordered progress failure opts AttemptsExhausted
          else case find (\<lambda>c. sa_id c \<notin> set (fp_attemptedAccountIds progress)) ordered of
                 None \<Rightarrow> waitOutOverload ordered progress failure opts CandidatesExhausted
               | Some next \<Rightarrow> attemptOn next ordered progress opts)"

section \<open>Progress\<close>

datatype in_place_reason = Replay | OverloadWait

definition inPlaceReason :: "failover_decision \<Rightarrow> in_place_reason option" where
  "inPlaceReason d =
     (case d of
        RetryInPlace _ _ delay \<Rightarrow> Some (if delay = None then Replay else OverloadWait)
      | _ \<Rightarrow> None)"

definition recordAttempt :: "failover_progress \<Rightarrow> account_id \<Rightarrow> in_place_reason option \<Rightarrow> failover_progress" where
  "recordAttempt progress accountId inPlace =
     (case inPlace of
        None \<Rightarrow> progress\<lparr>fp_attemptedAccountIds := fp_attemptedAccountIds progress @ [accountId]\<rparr>
      | Some OverloadWait \<Rightarrow> progress\<lparr>fp_overloadRetries := fp_overloadRetries progress + 1\<rparr>
      | Some Replay \<Rightarrow> progress\<lparr>fp_inPlaceRetries := fp_inPlaceRetries progress + 1\<rparr>)"

definition noteOverload :: "failover_progress \<Rightarrow> account_id \<Rightarrow> failure_kind \<Rightarrow> failover_progress" where
  "noteOverload progress accountId kind =
     (if kind = Overloaded then progress\<lparr>fp_overloadedAccountId := Some accountId\<rparr>
      else if fp_overloadedAccountId progress \<noteq> Some accountId then progress
      else progress\<lparr>fp_overloadedAccountId := None\<rparr>)"

definition markStreamed :: "failover_progress \<Rightarrow> failover_progress" where
  "markStreamed progress = progress\<lparr>fp_bytesStreamed := True\<rparr>"

section \<open>Facts\<close>

lemma find_candidate_Some: "find_candidate ordered i = Some c \<Longrightarrow> c \<in> set ordered \<and> i = Some (sa_id c)"
  unfolding find_candidate_def by (auto dest: find_SomeD)

lemma replay_cases:
  "replayInPlace ordered p opts = RetryInPlace c n d \<Longrightarrow>
     c \<in> set ordered \<and> d = None \<and> Some (sa_id c) = last_id (fp_attemptedAccountIds p) \<and>
     fp_inPlaceRetries p < or_default (fo_maxInPlaceRetries opts) DEFAULT_MAX_IN_PLACE_RETRIES"
  by (auto simp: replayInPlace_def split: if_splits option.splits dest!: find_candidate_Some)

lemma overload_cases:
  "waitOutOverload ordered p f opts e = RetryInPlace c n d \<Longrightarrow>
     c \<in> set ordered \<and> d \<noteq> None \<and> fp_overloadRetries p < overload_cap opts"
  by (auto simp: waitOutOverload_def Let_def split: if_splits option.splits dest!: find_candidate_Some)

lemma replay_not_attempt [simp]: "replayInPlace ordered p opts \<noteq> Attempt c n i r"
  by (auto simp: replayInPlace_def split: option.splits)

lemma overload_not_attempt [simp]: "waitOutOverload ordered p f opts e \<noteq> Attempt c n i r"
  by (auto simp: waitOutOverload_def Let_def split: option.splits)

lemma plan_attempt:
  assumes "planNextAttempt ordered p (Some f) opts = Attempt c n i r"
  shows "c \<in> set ordered \<and> sa_id c \<notin> set (fp_attemptedAccountIds p) \<and> n = length (fp_attemptedAccountIds p) + 1 \<and>
     \<not> fp_bytesStreamed p \<and> isRetryable (af_kind f) \<and>
     length (fp_attemptedAccountIds p) < attemptCeiling (plannedCount ordered p) opts"
  using assms
  by (auto simp: planNextAttempt_def attemptOn_def Let_def split: if_splits option.splits dest: find_SomeD)

lemma plan_retry:
  assumes "planNextAttempt ordered p lf opts = RetryInPlace c n d"
  shows "c \<in> set ordered \<and>
     (case d of
        None \<Rightarrow> fp_inPlaceRetries p < or_default (fo_maxInPlaceRetries opts) DEFAULT_MAX_IN_PLACE_RETRIES
      | Some _ \<Rightarrow> fp_overloadRetries p < overload_cap opts)"
proof (cases lf)
  case None
  then show ?thesis using assms by (auto simp: planNextAttempt_def firstAttempt_def split: list.splits)
next
  case (Some f)
  then show ?thesis
    using assms
    by (auto simp: planNextAttempt_def attemptOn_def Let_def split: if_splits option.splits
        dest!: replay_cases overload_cases)
qed

end
