(* ===== verification/Chain_Error.thy ===== *)
theory Chain_Error
  imports Failover
begin

text \<open>
  Which of a chain's failures the client hears about: \<open>providers/failure/router-error.ts\<close> (a driver's
  classification as a router error) and \<open>dataplane/chain-error.ts\<close> (the fold that keeps the most
  actionable failure). An upstream's own answer is represented by its status and text.
\<close>

section \<open>Signals and classifications (\<open>providers/types.ts\<close>)\<close>

record rate_limit_signal =
  rl_limited :: bool
  rl_retryAfterSeconds :: "js_number option"
  rl_resetsAt :: "js_date option"
  rl_resetSource :: reset_source
  rl_windows :: "limiter_reading list"
  rl_quotaWindows :: "quota_window list option"

record failure_classification =
  fc_kind :: upstream_failure_kind
  fc_status :: int
  fc_retryable :: bool
  fc_signal :: string
  fc_rateLimit :: "rate_limit_signal option"

definition toAttemptFailure ::
  "int \<Rightarrow> failure_classification option \<Rightarrow> rate_limit_signal option \<Rightarrow> attempt_failure" where
  "toAttemptFailure status classification rateLimit =
     (let kind = failoverKind (map_option fc_kind classification) status;
          signal = (case Option.bind classification fc_rateLimit of Some s \<Rightarrow> Some s | None \<Rightarrow> rateLimit)
      in \<lparr>af_kind = kind, af_status = Some (nat status), af_resetsAt = Option.bind signal rl_resetsAt,
          af_retryAfterSeconds = Option.bind signal rl_retryAfterSeconds,
          af_resetSource = map_option rl_resetSource signal,
          af_message = (case classification of
                          Some c \<Rightarrow> fc_signal c
                        | None \<Rightarrow> ''upstream returned '' @ show_nat (nat status))\<rparr>)"

text \<open>An \<open>overloaded\<close> reading is carried unlimited, so no path that folds it cools the account.\<close>

definition attemptReading ::
  "failure_classification option \<Rightarrow> rate_limit_signal option \<Rightarrow> rate_limit_signal option" where
  "attemptReading classification rateLimit =
     (case (case Option.bind classification fc_rateLimit of Some s \<Rightarrow> Some s | None \<Rightarrow> rateLimit) of
        None \<Rightarrow> None
      | Some s \<Rightarrow>
          if map_option fc_kind classification \<noteq> Some UpOverloaded \<or> \<not> rl_limited s then Some s
          else Some (s\<lparr>rl_limited := False\<rparr>))"

section \<open>A classification as a router error (\<open>router-error.ts\<close>)\<close>

record failure_context =
  fx_signal :: "rate_limit_signal option"
  fx_now :: instant
  fx_unknownResetRetryAfterSeconds :: "int option"
  fx_clientMessage :: "string option"

definition secondsUntil :: "instant \<Rightarrow> instant \<Rightarrow> int" where
  "secondsUntil resetsAt now = max 1 (ceil_div (resetsAt - now) 1000)"

fun positive_ceil :: "js_number option \<Rightarrow> int option" where
  "positive_ceil (Some (Fin s)) = (if 0 < s then Some \<lceil>s\<rceil> else None)"
| "positive_ceil _ = None"

definition account_detail :: "string \<Rightarrow> router_error_detail" where
  "account_detail signal = NO_DETAIL\<lparr>ed_scope := Some AccountScope, ed_signal := Some signal\<rparr>"

definition simple_error :: "router_error_code \<Rightarrow> string \<Rightarrow> int option \<Rightarrow> router_error_detail \<Rightarrow> router_error" where
  "simple_error code message retryAfter detail =
     \<lparr>re_code = code, re_message = message, re_detail = detail, re_retryAfterSeconds = retryAfter,
      re_resetsAt = None, re_wall = wallOf code\<rparr>"

definition EM_DASH_BYTES :: string where "EM_DASH_BYTES = [CHR 0xE2, CHR 0x80, CHR 0x94]"

text \<open>The chain always passes the context; the form without one has no caller.\<close>

definition toRouterError :: "failure_classification \<Rightarrow> failure_context \<Rightarrow> router_error option" where
  "toRouterError classification context =
     (let detail = account_detail (fc_signal classification);
          signal = (case fc_rateLimit classification of Some s \<Rightarrow> Some s | None \<Rightarrow> fx_signal context);
          floor = or_default (fx_unknownResetRetryAfterSeconds context) DEFAULT_UNKNOWN_RESET_RETRY_AFTER_SECONDS
      in if fc_kind classification = UpRateLimited then
           (let resetsAt = latestResetDeadline (Option.bind signal rl_resetsAt) (Option.bind signal rl_retryAfterSeconds)
                             (fx_now context);
                retryAfter = (case resetsAt of Some t \<Rightarrow> secondsUntil t (fx_now context) | None \<Rightarrow> floor);
                message = (case fx_clientMessage context of
                             None \<Rightarrow> ''upstream rate limited ('' @ fc_signal classification @ '')''
                           | Some stated \<Rightarrow> stated @ '' ('' @ fc_signal classification @ '')'')
            in Some (QuotaExhaustedError message (Some retryAfter) resetsAt
                 (case resetsAt of
                    None \<Rightarrow> detail
                  | Some _ \<Rightarrow> detail\<lparr>ed_resetSource := Some (case signal of Some s \<Rightarrow> rl_resetSource s | None \<Rightarrow> UnknownReset)\<rparr>)))
         else if fc_kind classification = UpOverloaded then
           Some (simple_error UpstreamOverloaded (''upstream overloaded ('' @ fc_signal classification @ '')'')
             (Some (case positive_ceil (Option.bind signal rl_retryAfterSeconds) of Some s \<Rightarrow> s | None \<Rightarrow> floor)) detail)
         else if fc_kind classification = UpInvalidRequest \<and> fc_status classification = 403 then
           Some (simple_error InvalidRequest ''upstream rejected the request under its content policy'' None detail)
         else if fc_kind classification = UpCreditsExhausted then
           Some (CreditsExhaustedError
             (''upstream account is out of credits ('' @ fc_signal classification @ '') '' @ EM_DASH_BYTES
                @ '' needs a top-up, no timer will fix it'') detail)
         else if fc_kind classification = UpAuth then
           Some (simple_error UpstreamAuthFailed
             (''upstream rejected the account'' @ [CHR 0x27] @ ''s credential ('' @ fc_signal classification @ '') ''
                @ EM_DASH_BYTES @ '' the account needs re-authenticating, the presented router key was fine'') None detail)
         else None)"

section \<open>Ranking (\<open>chain-error.ts\<close>)\<close>

record upstream_error =
  ue_status :: int
  ue_bodyText :: string

datatype chain_failure = RouterFailure router_error | UpstreamFailure upstream_error

fun RANK :: "router_error_code \<Rightarrow> nat" where
  "RANK KeyRevoked = 90"
| "RANK KeyVerificationUnavailable = 90"
| "RANK ScopeViolation = 90"
| "RANK RequestTooLarge = 90"
| "RANK InvalidRequest = 90"
| "RANK UnsupportedContentEncoding = 90"
| "RANK AdminAuthFailed = 90"
| "RANK CsrfTokenInvalid = 90"
| "RANK ModelNotFound = 90"
| "RANK QuotaExhausted = 70"
| "RANK KeyRateLimited = 70"
| "RANK UpstreamOverloaded = 65"
| "RANK CreditsExhausted = 60"
| "RANK UpstreamAuthFailed = 55"
| "RANK UpstreamTimeout = 50"
| "RANK NoHealthyAccount = 30"
| "RANK TranslationFailed = 20"
| "RANK CredentialDecryptFailed = 10"

definition UPSTREAM_ANSWERED :: nat where "UPSTREAM_ANSWERED = 40"

fun rankOf :: "chain_failure \<Rightarrow> nat" where
  "rankOf (UpstreamFailure _) = UPSTREAM_ANSWERED"
| "rankOf (RouterFailure e) = RANK (re_code e)"

text \<open>Only the classes of \<open>RetryableRouterError\<close> carry a wait, and only they set the field.\<close>

definition retryable_class :: "router_error_code \<Rightarrow> bool" where
  "retryable_class c \<longleftrightarrow> c \<in> {QuotaExhausted, KeyRateLimited, KeyVerificationUnavailable, UpstreamOverloaded}"

fun waitSeconds :: "chain_failure \<Rightarrow> int option" where
  "waitSeconds (UpstreamFailure _) = None"
| "waitSeconds (RouterFailure e) = (if retryable_class (re_code e) then re_retryAfterSeconds e else None)"

definition sooner :: "chain_failure \<Rightarrow> chain_failure \<Rightarrow> chain_failure" where
  "sooner held nxt =
     (case (waitSeconds held, waitSeconds nxt) of
        (_, None) \<Rightarrow> held
      | (None, Some _) \<Rightarrow> nxt
      | (Some h, Some n) \<Rightarrow> if n < h then nxt else held)"

definition foldChainFailure :: "chain_failure option \<Rightarrow> chain_failure option \<Rightarrow> chain_failure option" where
  "foldChainFailure held nxt =
     (case (held, nxt) of
        (_, None) \<Rightarrow> held
      | (None, Some n) \<Rightarrow> Some n
      | (Some h, Some n) \<Rightarrow>
          if rankOf n \<noteq> rankOf h then (if rankOf n > rankOf h then Some n else Some h)
          else Some (sooner h n))"

definition routerFailure :: "router_error \<Rightarrow> chain_failure" where
  "routerFailure e = RouterFailure e"

definition synthesizedUpstream :: "int \<Rightarrow> string \<Rightarrow> upstream_error" where
  "synthesizedUpstream status message =
     \<lparr>ue_status = status,
      ue_bodyText = ''{'' @ json_string ''type'' @ '':'' @ json_string ''error'' @ '','' @ json_string ''error'' @ '':{''
        @ json_string ''type'' @ '':'' @ json_string ''api_error'' @ '','' @ json_string ''message'' @ '':''
        @ json_string message @ ''}}''\<rparr>"

record answered_context =
  ax_rateLimit :: "rate_limit_signal option"
  ax_now :: instant
  ax_unknownResetRetryAfterSeconds :: "int option"
  ax_clientMessage :: string
  ax_failureKind :: failure_kind

definition answeredFailure ::
  "failure_classification option \<Rightarrow> upstream_error option \<Rightarrow> answered_context \<Rightarrow> chain_failure option" where
  "answeredFailure classification upstream context =
     (let failure = \<lparr>fx_signal = ax_rateLimit context, fx_now = ax_now context,
                     fx_unknownResetRetryAfterSeconds = ax_unknownResetRetryAfterSeconds context,
                     fx_clientMessage = (if upstream = None then Some (ax_clientMessage context) else None)\<rparr>;
          error = Option.bind classification (\<lambda>c. toRouterError c failure)
      in case error of
           Some e \<Rightarrow> Some (RouterFailure e)
         | None \<Rightarrow>
             (case upstream of
                Some u \<Rightarrow> Some (UpstreamFailure u)
              | None \<Rightarrow>
                  if classification = None \<and> ax_failureKind context = Timeout
                  then Some (RouterFailure (simple_error UpstreamTimeout (ax_clientMessage context) None
                         (NO_DETAIL\<lparr>ed_signal := Some ''timeout''\<rparr>)))
                  else (case classification of
                          None \<Rightarrow> None
                        | Some c \<Rightarrow> Some (UpstreamFailure (synthesizedUpstream (fc_status c) (ax_clientMessage context))))))"

section \<open>The fold picks the best\<close>

text \<open>
  The key a failure competes with: the rank, then the earlier wait (a stated wait before none). The
  held failure keeps a tie, so the chain's answer is the first of the best.
\<close>

definition better :: "chain_failure \<Rightarrow> chain_failure \<Rightarrow> bool" where
  "better a b \<longleftrightarrow>
     rankOf b < rankOf a \<or>
     (rankOf a = rankOf b \<and>
       (case (waitSeconds a, waitSeconds b) of
          (None, _) \<Rightarrow> False
        | (Some _, None) \<Rightarrow> True
        | (Some x, Some y) \<Rightarrow> x < y))"

lemma fold_pair: "foldChainFailure (Some h) (Some n) = Some (if better n h then n else h)"
  by (auto simp: foldChainFailure_def better_def sooner_def split: option.splits)

lemma better_irrefl [simp]: "\<not> better a a"
  by (auto simp: better_def split: option.splits)

lemma better_trans: "better a b \<Longrightarrow> better b c \<Longrightarrow> better a c"
  by (auto simp: better_def split: option.splits)

lemma better_cotrans: "\<not> better a b \<Longrightarrow> \<not> better b c \<Longrightarrow> \<not> better a c"
  by (auto simp: better_def split: option.splits)

definition fold_failures :: "chain_failure option list \<Rightarrow> chain_failure option" where
  "fold_failures fs = foldl foldChainFailure None fs"

lemma fold_failures_best:
  "case fold_failures fs of
     None \<Rightarrow> \<forall>f \<in> set fs. f = None
   | Some w \<Rightarrow> Some w \<in> set fs \<and> (\<forall>f. Some f \<in> set fs \<longrightarrow> \<not> better f w)"
proof (induction fs rule: rev_induct)
  case (snoc x fs)
  show ?case
  proof (cases x)
    case None
    then show ?thesis using snoc by (auto simp: fold_failures_def foldChainFailure_def split: option.splits)
  next
    case (Some n)
    show ?thesis
    proof (cases "fold_failures fs")
      case None
      then show ?thesis using snoc Some by (auto simp: fold_failures_def foldChainFailure_def)
    next
      case (Some h)
      then have IH: "Some h \<in> set fs" "\<And>f. Some f \<in> set fs \<Longrightarrow> \<not> better f h" using snoc by auto
      have step: "fold_failures (fs @ [x]) = Some (if better n h then n else h)"
        using Some \<open>x = Some n\<close> by (simp add: fold_failures_def fold_pair)
      have "\<not> better f n" if "better n h" "Some f \<in> set fs" for f
        using that IH(2) better_trans by blast
      then show ?thesis using step IH \<open>x = Some n\<close> by auto
    qed
  qed
qed (simp add: fold_failures_def)

text \<open>
  (C32) The client hears the most actionable failure of the chain: whatever the attempts produced and
  in whatever order, the failure kept is one of them, and none of the others has a higher rank or,
  at the same rank, a sooner wait; an attempt that contributed nothing never erases one that did.
\<close>

theorem chain_answer_is_most_actionable:
  assumes "Some f \<in> set fs"
  shows "\<exists>w. fold_failures fs = Some w \<and> Some w \<in> set fs \<and> rankOf f \<le> rankOf w \<and>
    (\<forall>s. rankOf f = rankOf w \<longrightarrow> waitSeconds f = Some s \<longrightarrow> (\<exists>s'. waitSeconds w = Some s' \<and> s' \<le> s))"
proof -
  obtain w where w: "fold_failures fs = Some w" "Some w \<in> set fs" "\<not> better f w"
    using fold_failures_best [of fs] assms by (cases "fold_failures fs") auto
  then show ?thesis by (cases "waitSeconds w") (auto simp: better_def not_less split: option.splits)
qed

theorem chain_answer_is_most_actionable_witness:
  "let q = RouterFailure (QuotaExhaustedError ''a'' (Some 30) None NO_DETAIL);
       d = RouterFailure (simple_error CredentialDecryptFailed ''b'' None NO_DETAIL)
   in fold_failures [Some q, None, Some d] = Some q \<and>
      (\<exists>w. fold_failures [Some q, None, Some d] = Some w \<and> rankOf d \<le> rankOf w)"
proof -
  define q where "q = RouterFailure (QuotaExhaustedError ''a'' (Some 30) None NO_DETAIL)"
  define d where "d = RouterFailure (simple_error CredentialDecryptFailed ''b'' None NO_DETAIL)"
  have "fold_failures [Some q, None, Some d] = Some q" unfolding q_def d_def by code_simp
  moreover have "\<exists>w. fold_failures [Some q, None, Some d] = Some w \<and> rankOf d \<le> rankOf w"
    using chain_answer_is_most_actionable [of d "[Some q, None, Some d]"] by auto
  ultimately show ?thesis unfolding Let_def q_def d_def by blast
qed

end
