(* ===== verification/Health_Store.thy ===== *)
theory Health_Store
  imports Chain_Error Quota
begin

text \<open>
  The health store every request shares: \<open>health.ts\<close>, \<open>health-observation.ts\<close>, \<open>health-reading.ts\<close> and
  \<open>health-recovery.ts\<close> of \<open>services/dataplane\<close>. The store is a state threaded through its operations;
  concurrent requests are any interleaving of their operations, each of which the runtime executes
  without interruption. The callbacks a store is created with are the list of what they were called
  with. The random jitter is an argument.
\<close>

section \<open>Observations (\<open>health-observation.ts\<close>)\<close>

record health_facts =
  hf_lifecycleVersion :: int
  hf_healthRecoveryVersion :: int
  hf_authRecoveryVersion :: int
  hf_authMaterial :: "string option"
  hf_status :: account_status
  hf_recoveryGeneration :: "string option"

text \<open>
  \<open>ho_ref\<close> is the identity of the captured object, the key of the store's weak map.
\<close>

record health_observation = health_facts +
  ho_observationGeneration :: nat
  ho_verdictVersion :: nat
  ho_ref :: nat

record held_observation =
  hd_facts :: health_facts
  hd_generation :: nat
  hd_verdictVersion :: nat

definition sameAccountFacts :: "'a health_facts_scheme \<Rightarrow> 'b health_facts_scheme \<Rightarrow> bool" where
  "sameAccountFacts left right \<longleftrightarrow>
     hf_lifecycleVersion left = hf_lifecycleVersion right \<and>
     hf_healthRecoveryVersion left = hf_healthRecoveryVersion right \<and>
     hf_authRecoveryVersion left = hf_authRecoveryVersion right \<and>
     hf_authMaterial left = hf_authMaterial right \<and>
     hf_status left = hf_status right \<and>
     hf_recoveryGeneration left = hf_recoveryGeneration right"

datatype recovery_kind = FullRecovery | AuthenticationRecovery

definition recoveryKind :: "health_facts option \<Rightarrow> health_facts \<Rightarrow> recovery_kind option" where
  "recoveryKind prior after =
     (case prior of
        None \<Rightarrow> None
      | Some b \<Rightarrow>
          if hf_healthRecoveryVersion after > hf_healthRecoveryVersion b then Some FullRecovery
          else if hf_status after = Disabled \<or> hf_status after = Exhausted then None
          else if hf_authRecoveryVersion after > hf_authRecoveryVersion b \<or>
                  (hf_status after = Active \<and> hf_authMaterial after \<noteq> hf_authMaterial b)
          then Some AuthenticationRecovery
          else None)"

definition newerObservation :: "health_observation \<Rightarrow> health_observation \<Rightarrow> bool" where
  "newerObservation left right \<longleftrightarrow>
     ho_observationGeneration left > ho_observationGeneration right \<or>
     (ho_observationGeneration left = ho_observationGeneration right \<and>
      hf_lifecycleVersion left > hf_lifecycleVersion right)"

record health_observations =
  ob_held :: "(account_id, held_observation) js_map"
  ob_generation :: nat

definition observations_reconcile ::
  "account_id \<Rightarrow> health_facts \<Rightarrow> health_observations \<Rightarrow> recovery_kind option \<times> health_observations" where
  "observations_reconcile i facts obs =
     (let previous = map_get (ob_held obs) i
      in if (case previous of None \<Rightarrow> False | Some p \<Rightarrow> sameAccountFacts (hd_facts p) facts) then (None, obs)
      else if (case previous of
                 None \<Rightarrow> False
               | Some p \<Rightarrow> hf_lifecycleVersion facts < hf_lifecycleVersion (hd_facts p)) then (None, obs)
      else (recoveryKind (map_option hd_facts previous) facts,
            \<lparr>ob_held = map_set i
               \<lparr>hd_facts = facts, hd_generation = ob_generation obs + 1,
                hd_verdictVersion = (case previous of None \<Rightarrow> 0 | Some p \<Rightarrow> hd_verdictVersion p)\<rparr>
               (ob_held obs),
             ob_generation = ob_generation obs + 1\<rparr>))"

definition observations_accepts :: "account_id \<Rightarrow> health_observation option \<Rightarrow> health_observations \<Rightarrow> bool" where
  "observations_accepts i observation obs \<longleftrightarrow>
     (case observation of
        None \<Rightarrow> True
      | Some o' \<Rightarrow>
          (case map_get (ob_held obs) i of
             None \<Rightarrow> False
           | Some c \<Rightarrow> hd_generation c = ho_observationGeneration o' \<and> sameAccountFacts (hd_facts c) o'))"

definition observations_capture ::
  "account_id \<Rightarrow> health_facts \<Rightarrow> nat \<Rightarrow> health_observations \<Rightarrow> health_observation \<times> health_observations" where
  "observations_capture i facts ref obs =
     (let obs' = (if map_has i (ob_held obs) then obs else snd (observations_reconcile i facts obs));
          current = map_get (ob_held obs') i
      in (\<lparr>hf_lifecycleVersion = hf_lifecycleVersion facts,
           hf_healthRecoveryVersion = hf_healthRecoveryVersion facts,
           hf_authRecoveryVersion = hf_authRecoveryVersion facts,
           hf_authMaterial = hf_authMaterial facts, hf_status = hf_status facts,
           hf_recoveryGeneration = hf_recoveryGeneration facts,
           ho_observationGeneration = (case current of None \<Rightarrow> 0 | Some c \<Rightarrow> hd_generation c),
           ho_verdictVersion = (case current of None \<Rightarrow> 0 | Some c \<Rightarrow> hd_verdictVersion c),
           ho_ref = ref\<rparr>,
          obs'))"

definition observations_acceptsSuccess :: "account_id \<Rightarrow> health_observation option \<Rightarrow> health_observations \<Rightarrow> bool" where
  "observations_acceptsSuccess i observation obs \<longleftrightarrow>
     observations_accepts i observation obs \<and>
     (case observation of
        None \<Rightarrow> True
      | Some o' \<Rightarrow> map_option hd_verdictVersion (map_get (ob_held obs) i) = Some (ho_verdictVersion o'))"

definition observations_advanceVerdict :: "account_id \<Rightarrow> health_observations \<Rightarrow> health_observations" where
  "observations_advanceVerdict i obs =
     (case map_get (ob_held obs) i of
        None \<Rightarrow> obs
      | Some c \<Rightarrow>
          obs\<lparr>ob_held := map_set i (c\<lparr>hd_verdictVersion := hd_verdictVersion c + 1\<rparr>) (ob_held obs)\<rparr>)"

definition observations_forget :: "account_id \<Rightarrow> health_observations \<Rightarrow> health_observations" where
  "observations_forget i obs = obs\<lparr>ob_held := map_delete i (ob_held obs)\<rparr>"

section \<open>An account's state, its readings and its recovery\<close>

record account_health_state =
  hs_breaker :: breaker_state
  hs_inFlight :: nat
  hs_recentTokens :: nat
  hs_limiterWindows :: "limiter_reading list"
  hs_quotaWindows :: "quota_window list"
  hs_lastSignalAt :: "instant option"
  hs_probeHeldUntil :: "instant option"

definition FRESH :: account_health_state where
  "FRESH =
     \<lparr>hs_breaker = HEALTHY, hs_inFlight = 0, hs_recentTokens = 0, hs_limiterWindows = [], hs_quotaWindows = [],
      hs_lastSignalAt = None, hs_probeHeldUntil = None\<rparr>"

definition keepVerdictReason :: "breaker_state \<Rightarrow> breaker_state \<Rightarrow> breaker_state" where
  "keepVerdictReason prior after =
     (if bs_cooldownReason prior = None \<or> bs_status after \<noteq> CoolingDown then after
      else after\<lparr>bs_cooldownReason := bs_cooldownReason prior,
                 bs_consecutiveFailures := bs_consecutiveFailures prior\<rparr>)"

definition limit_reading :: "rate_limit_signal \<Rightarrow> attempt_failure" where
  "limit_reading signal =
     \<lparr>af_kind = RateLimited, af_status = None, af_resetsAt = rl_resetsAt signal,
      af_retryAfterSeconds = rl_retryAfterSeconds signal, af_resetSource = Some (rl_resetSource signal),
      af_message = ''upstream reported the limit was reached''\<rparr>"

definition foldRateLimit ::
  "account_health_state \<Rightarrow> rate_limit_signal \<Rightarrow> instant \<Rightarrow> breaker_options \<Rightarrow> int \<Rightarrow> account_health_state" where
  "foldRateLimit state signal now opts planReadingMaxAgeMs =
     (let recorded = state\<lparr>hs_limiterWindows := rl_windows signal,
                           hs_quotaWindows := mergeQuotaWindows (hs_quotaWindows state) (rl_quotaWindows signal),
                           hs_lastSignalAt := Some now\<rparr>
      in if \<not> rl_limited signal then recorded
      else if phase (hs_breaker state) now = BlockedPhase then recorded
      else
        let reading = withPlanReset (limit_reading signal) (hs_quotaWindows recorded) now planReadingMaxAgeMs;
            tripped = (if refusalStands (hs_breaker state) now
                       then lengthenRefusal (hs_breaker state) reading now
                       else recordFailure (hs_breaker state) reading now opts)
        in recorded\<lparr>hs_breaker := keepVerdictReason (hs_breaker state) tripped\<rparr>)"

text \<open>
  The store compares the breaker \<^emph>\<open>objects\<close> before and after a reading. A reading that is not limited,
  or that meets a standing block, keeps the object. Every other one builds a new one: \<open>trip\<close> does, and
  while a refusal stands its label is present, so \<open>keepVerdictReason\<close> does.
\<close>

definition reading_builds_breaker :: "account_health_state \<Rightarrow> rate_limit_signal \<Rightarrow> instant \<Rightarrow> bool" where
  "reading_builds_breaker state signal now \<longleftrightarrow>
     rl_limited signal \<and> phase (hs_breaker state) now \<noteq> BlockedPhase"

text \<open>\<open>None\<close> where the code returns the state object it was given.\<close>

definition recoverHealth ::
  "account_health_state \<Rightarrow> recovery_kind option \<Rightarrow> health_facts \<Rightarrow> account_health_state option" where
  "recoverHealth state kind facts =
     (let healed = state\<lparr>hs_breaker := HEALTHY, hs_probeHeldUntil := None\<rparr>
      in if kind = Some FullRecovery then Some healed
      else
        let authVerdict = (bs_status (hs_breaker state) = NeedsReauth \<or>
                           bs_cooldownReason (hs_breaker state) = Some CredentialRejected)
        in if kind \<noteq> Some AuthenticationRecovery \<or> \<not> authVerdict \<or> hf_status facts = NeedsReauth then None
           else Some healed)"

section \<open>The store (\<open>health.ts\<close>)\<close>

definition DEFAULT_PROBE_HOLD_MS :: int where "DEFAULT_PROBE_HOLD_MS = 30000"

record health_store_options =
  ho_configured :: breaker_options \<comment> \<open>the configured thresholds; no jitter, no caller fields\<close>
  ho_probeHoldMs :: "int option"
  ho_planReadingMaxAgeMs :: "int option"

datatype health_callback =
    OnQuotaWindows account_id "quota_window list" "health_observation option"
  | OnBlocked account_id account_status "health_observation option" "quota_window list option"
  | OnReset account_id

record health_store =
  st_states :: "(account_id, account_health_state) js_map"
  st_observations :: health_observations
  st_acceptedQuota :: "(nat, quota_window list) js_map"
  st_nextRef :: nat
  st_probeTokens :: "(account_id, nat) js_map"
  st_nextProbeToken :: nat
  st_probeAdmitted :: nat
  st_probeRefused :: nat
  st_callbacks :: "health_callback list"

definition createHealthStore :: health_store where
  "createHealthStore =
     \<lparr>st_states = [], st_observations = \<lparr>ob_held = [], ob_generation = 0\<rparr>, st_acceptedQuota = [], st_nextRef = 0,
      st_probeTokens = [], st_nextProbeToken = 0, st_probeAdmitted = 0, st_probeRefused = 0, st_callbacks = []\<rparr>"

text \<open>\<open>{ ...configured, jitter: jitter(), ...caller }\<close>\<close>

definition breakerOptions :: "health_store_options \<Rightarrow> js_number \<Rightarrow> breaker_options \<Rightarrow> breaker_options" where
  "breakerOptions opts jitter caller =
     (let cfg = ho_configured opts
      in \<lparr>bo_baseBackoffMs = (case bo_baseBackoffMs caller of None \<Rightarrow> bo_baseBackoffMs cfg | Some v \<Rightarrow> Some v),
          bo_maxBackoffMs = (case bo_maxBackoffMs caller of None \<Rightarrow> bo_maxBackoffMs cfg | Some v \<Rightarrow> Some v),
          bo_failureThreshold = (case bo_failureThreshold caller of None \<Rightarrow> bo_failureThreshold cfg | Some v \<Rightarrow> Some v),
          bo_recoveryProbe = bo_recoveryProbe caller,
          bo_jitter = (case bo_jitter caller of None \<Rightarrow> Some jitter | Some v \<Rightarrow> Some v),
          bo_authKind = bo_authKind caller,
          bo_authFailureCooldownMs =
            (case bo_authFailureCooldownMs caller of None \<Rightarrow> bo_authFailureCooldownMs cfg | Some v \<Rightarrow> Some v),
          bo_authFailureMaxCooldownMs =
            (case bo_authFailureMaxCooldownMs caller of None \<Rightarrow> bo_authFailureMaxCooldownMs cfg | Some v \<Rightarrow> Some v)\<rparr>)"

definition stateOf :: "health_store \<Rightarrow> account_id \<Rightarrow> account_health_state" where
  "stateOf h i = or_default (map_get (st_states h) i) FRESH"

definition write_state :: "account_id \<Rightarrow> account_health_state \<Rightarrow> health_store \<Rightarrow> health_store" where
  "write_state i s h = h\<lparr>st_states := map_set i s (st_states h)\<rparr>"

definition store_reconcile :: "account_id \<Rightarrow> health_facts \<Rightarrow> health_store \<Rightarrow> health_store" where
  "store_reconcile i facts h =
     (let (kind, obs) = observations_reconcile i facts (st_observations h);
          h' = h\<lparr>st_observations := obs\<rparr>
      in if kind = None then h'
      else case recoverHealth (stateOf h' i) kind facts of
             None \<Rightarrow> h'
           | Some recovered \<Rightarrow>
               (write_state i recovered h')\<lparr>st_probeTokens := map_delete i (st_probeTokens h')\<rparr>)"

definition captureAttempt :: "account_id \<Rightarrow> health_facts \<Rightarrow> health_store \<Rightarrow> health_observation \<times> health_store" where
  "captureAttempt i facts h =
     (let (o', obs) = observations_capture i facts (st_nextRef h) (st_observations h)
      in (o', h\<lparr>st_observations := obs, st_nextRef := st_nextRef h + 1\<rparr>))"

definition beginAttempt :: "account_id \<Rightarrow> health_store \<Rightarrow> health_store" where
  "beginAttempt i h = write_state i ((stateOf h i)\<lparr>hs_inFlight := hs_inFlight (stateOf h i) + 1\<rparr>) h"

definition endAttempt :: "account_id \<Rightarrow> nat \<Rightarrow> health_store \<Rightarrow> health_store" where
  "endAttempt i tokens h =
     (let current = stateOf h i
      in write_state i (current\<lparr>hs_inFlight := hs_inFlight current - 1,
                                hs_recentTokens := hs_recentTokens current + tokens\<rparr>) h)"

definition store_recordSuccess :: "account_id \<Rightarrow> health_observation option \<Rightarrow> health_store \<Rightarrow> health_store" where
  "store_recordSuccess i observation h =
     (let prior = hs_breaker (stateOf h i)
      in if bs_status prior = Exhausted \<or> bs_status prior = NeedsReauth \<or> bs_status prior = Disabled then h
      else if \<not> observations_acceptsSuccess i observation (st_observations h) then h
      else write_state i ((stateOf h i)\<lparr>hs_breaker := recordSuccess\<rparr>) h)"

definition store_recordFailure ::
  "health_store_options \<Rightarrow> account_id \<Rightarrow> attempt_failure \<Rightarrow> instant \<Rightarrow> breaker_options \<Rightarrow> js_number \<Rightarrow>
     health_observation option \<Rightarrow> health_store \<Rightarrow> health_store" where
  "store_recordFailure opts i failure now caller jitter observation h =
     (if \<not> observations_accepts i observation (st_observations h) then h
      else
        let prior = hs_breaker (stateOf h i)
        in if phase prior now = BlockedPhase then h
        else
          let planned = withPlanReset failure (hs_quotaWindows (stateOf h i)) now
                          (or_default (ho_planReadingMaxAgeMs opts) 0);
              after = recordFailure prior planned now (breakerOptions opts jitter caller);
              h1 = (if after \<noteq> prior
                    then h\<lparr>st_observations := observations_advanceVerdict i (st_observations h)\<rparr> else h);
              h2 = write_state i ((stateOf h1 i)\<lparr>hs_breaker := after\<rparr>) h1
          in if bs_status after \<noteq> bs_status prior \<and> phase after now = BlockedPhase
             then h2\<lparr>st_callbacks := st_callbacks h2 @
                    [OnBlocked i (bs_status after) observation
                       (Option.bind observation (\<lambda>o'. map_get (st_acceptedQuota h2) (ho_ref o')))]\<rparr>
             else h2)"

definition applyRateLimit ::
  "health_store_options \<Rightarrow> account_id \<Rightarrow> rate_limit_signal option \<Rightarrow> instant \<Rightarrow> js_number \<Rightarrow>
     health_observation option \<Rightarrow> health_store \<Rightarrow> health_store" where
  "applyRateLimit opts i signal now jitter observation h =
     (case signal of
        None \<Rightarrow> h
      | Some s \<Rightarrow>
          if \<not> observations_accepts i observation (st_observations h) then h
          else
            let folded = foldRateLimit (stateOf h i) s now (breakerOptions opts jitter NO_BREAKER_OPTIONS)
                           (or_default (ho_planReadingMaxAgeMs opts) 0);
                h1 = (if reading_builds_breaker (stateOf h i) s now
                      then h\<lparr>st_observations := observations_advanceVerdict i (st_observations h)\<rparr> else h);
                h2 = write_state i folded h1
            in case rl_quotaWindows s of
                 None \<Rightarrow> h2
               | Some windows \<Rightarrow>
                   (case observation of
                      None \<Rightarrow>
                        h2\<lparr>st_callbacks := st_callbacks h2 @ [OnQuotaWindows i (hs_quotaWindows folded) None]\<rparr>
                    | Some o' \<Rightarrow>
                        let merged = mergeQuotaWindows
                                       (or_default (map_get (st_acceptedQuota h2) (ho_ref o')) []) (Some windows)
                        in h2\<lparr>st_acceptedQuota := map_set (ho_ref o') merged (st_acceptedQuota h2),
                              st_callbacks := st_callbacks h2 @ [OnQuotaWindows i merged (Some o')]\<rparr>))"

record probe_admission =
  pa_admitted :: bool
  pa_held :: bool
  pa_token :: "nat option"

definition ADMITTED_WITHOUT_HOLD :: probe_admission where
  "ADMITTED_WITHOUT_HOLD = \<lparr>pa_admitted = True, pa_held = False, pa_token = None\<rparr>"

definition REFUSED :: probe_admission where
  "REFUSED = \<lparr>pa_admitted = False, pa_held = False, pa_token = None\<rparr>"

definition admitProbe ::
  "health_store_options \<Rightarrow> account_id \<Rightarrow> instant \<Rightarrow> health_store \<Rightarrow> probe_admission \<times> health_store" where
  "admitProbe opts i now h =
     (let state = stateOf h i; live = phase (hs_breaker state) now
      in if live = Closed then (ADMITTED_WITHOUT_HOLD, h)
      else if live \<noteq> HalfOpen then (REFUSED, h)
      else if (case hs_probeHeldUntil state of None \<Rightarrow> False | Some t \<Rightarrow> t > now)
      then (REFUSED, h\<lparr>st_probeRefused := st_probeRefused h + 1\<rparr>)
      else
        let token = st_nextProbeToken h + 1;
            hold = now + or_default (ho_probeHoldMs opts) DEFAULT_PROBE_HOLD_MS;
            h' = write_state i (state\<lparr>hs_probeHeldUntil := Some hold\<rparr>) h
        in (\<lparr>pa_admitted = True, pa_held = True, pa_token = Some token\<rparr>,
            h'\<lparr>st_nextProbeToken := token, st_probeTokens := map_set i token (st_probeTokens h'),
               st_probeAdmitted := st_probeAdmitted h' + 1\<rparr>))"

definition releaseProbe :: "account_id \<Rightarrow> nat option \<Rightarrow> health_store \<Rightarrow> health_store" where
  "releaseProbe i token h =
     (if token \<noteq> None \<and> map_get (st_probeTokens h) i \<noteq> token then h
      else
        let h' = h\<lparr>st_probeTokens := map_delete i (st_probeTokens h)\<rparr>
        in if map_has i (st_states h')
           then write_state i ((stateOf h' i)\<lparr>hs_probeHeldUntil := None\<rparr>) h' else h')"

definition probeStats :: "health_store \<Rightarrow> nat \<times> nat" where
  "probeStats h = (st_probeAdmitted h, st_probeRefused h)"

definition store_reset :: "account_id \<Rightarrow> health_store \<Rightarrow> health_store" where
  "store_reset i h =
     h\<lparr>st_states := map_delete i (st_states h),
       st_observations := observations_forget i (st_observations h),
       st_probeTokens := map_delete i (st_probeTokens h),
       st_callbacks := st_callbacks h @ [OnReset i]\<rparr>"

definition breakerOptionsFor :: "auth_kind \<Rightarrow> breaker_options" where
  "breakerOptionsFor k = NO_BREAKER_OPTIONS\<lparr>bo_authKind := Some k\<rparr>"

section \<open>The operations as events\<close>

text \<open>What requests, operators and catalog refreshes do to the store, one call each.\<close>

datatype health_event =
    Reconcile account_id health_facts
  | Capture account_id health_facts
  | Begin account_id
  | End account_id nat
  | Success account_id "health_observation option"
  | Failure account_id attempt_failure instant breaker_options js_number "health_observation option"
  | Reading account_id "rate_limit_signal option" instant js_number "health_observation option"
  | Admit account_id instant
  | Release account_id "nat option"
  | Reset account_id

fun health_step :: "health_store_options \<Rightarrow> health_event \<Rightarrow> health_store \<Rightarrow> health_store" where
  "health_step opts (Reconcile i facts) h = store_reconcile i facts h"
| "health_step opts (Capture i facts) h = snd (captureAttempt i facts h)"
| "health_step opts (Begin i) h = beginAttempt i h"
| "health_step opts (End i tokens) h = endAttempt i tokens h"
| "health_step opts (Success i ob) h = store_recordSuccess i ob h"
| "health_step opts (Failure i f now caller jitter ob) h = store_recordFailure opts i f now caller jitter ob h"
| "health_step opts (Reading i s now jitter ob) h = applyRateLimit opts i s now jitter ob h"
| "health_step opts (Admit i now) h = snd (admitProbe opts i now h)"
| "health_step opts (Release i t) h = releaseProbe i t h"
| "health_step opts (Reset i) h = store_reset i h"

end
