(* ===== verification/Usage_Outcomes.thy ===== *)
theory Usage_Outcomes
  imports Routing_Types
begin

text \<open>
  How a usage row labels what happened: \<open>domain/usage.ts\<close> of the core package (the outcomes, whose
  fault each is, the outcome of a router error) and the failure outcomes of \<open>dataplane/records.ts\<close>.
\<close>

datatype usage_outcome =
    UoSuccess | UoClientError | UoTranslationFailed | UoRequestTooLarge | UoKeyRevoked | UoScopeViolation
  | UoKeyRateLimited | UoNoHealthyAccount | UoQuotaExhausted | UoCreditsExhausted | UoUpstreamError
  | UoUpstreamTimeout | UoUpstreamAuthFailed | UoCredentialDecryptFailed | UoRouterError

datatype usage_fault = FaultNone | FaultClient | FaultCapacity | FaultUpstream | FaultRouter

definition isSuccessOutcome :: "usage_outcome \<Rightarrow> bool" where
  "isSuccessOutcome u \<longleftrightarrow> u = UoSuccess"

fun FAULT_BY_OUTCOME :: "usage_outcome \<Rightarrow> usage_fault" where
  "FAULT_BY_OUTCOME UoSuccess = FaultNone"
| "FAULT_BY_OUTCOME UoClientError = FaultClient"
| "FAULT_BY_OUTCOME UoTranslationFailed = FaultClient"
| "FAULT_BY_OUTCOME UoRequestTooLarge = FaultClient"
| "FAULT_BY_OUTCOME UoKeyRevoked = FaultClient"
| "FAULT_BY_OUTCOME UoScopeViolation = FaultClient"
| "FAULT_BY_OUTCOME UoKeyRateLimited = FaultClient"
| "FAULT_BY_OUTCOME UoNoHealthyAccount = FaultCapacity"
| "FAULT_BY_OUTCOME UoQuotaExhausted = FaultCapacity"
| "FAULT_BY_OUTCOME UoCreditsExhausted = FaultCapacity"
| "FAULT_BY_OUTCOME UoUpstreamError = FaultUpstream"
| "FAULT_BY_OUTCOME UoUpstreamTimeout = FaultUpstream"
| "FAULT_BY_OUTCOME UoUpstreamAuthFailed = FaultUpstream"
| "FAULT_BY_OUTCOME UoCredentialDecryptFailed = FaultRouter"
| "FAULT_BY_OUTCOME UoRouterError = FaultRouter"

fun OUTCOME_BY_ERROR_CODE :: "router_error_code \<Rightarrow> usage_outcome" where
  "OUTCOME_BY_ERROR_CODE NoHealthyAccount = UoNoHealthyAccount"
| "OUTCOME_BY_ERROR_CODE QuotaExhausted = UoQuotaExhausted"
| "OUTCOME_BY_ERROR_CODE CreditsExhausted = UoCreditsExhausted"
| "OUTCOME_BY_ERROR_CODE ScopeViolation = UoScopeViolation"
| "OUTCOME_BY_ERROR_CODE KeyRevoked = UoKeyRevoked"
| "OUTCOME_BY_ERROR_CODE KeyRateLimited = UoKeyRateLimited"
| "OUTCOME_BY_ERROR_CODE KeyVerificationUnavailable = UoRouterError"
| "OUTCOME_BY_ERROR_CODE UpstreamAuthFailed = UoUpstreamAuthFailed"
| "OUTCOME_BY_ERROR_CODE UpstreamTimeout = UoUpstreamTimeout"
| "OUTCOME_BY_ERROR_CODE UpstreamOverloaded = UoUpstreamError"
| "OUTCOME_BY_ERROR_CODE CredentialDecryptFailed = UoCredentialDecryptFailed"
| "OUTCOME_BY_ERROR_CODE TranslationFailed = UoTranslationFailed"
| "OUTCOME_BY_ERROR_CODE RequestTooLarge = UoRequestTooLarge"
| "OUTCOME_BY_ERROR_CODE InvalidRequest = UoClientError"
| "OUTCOME_BY_ERROR_CODE UnsupportedContentEncoding = UoClientError"
| "OUTCOME_BY_ERROR_CODE AdminAuthFailed = UoRouterError"
| "OUTCOME_BY_ERROR_CODE CsrfTokenInvalid = UoRouterError"
| "OUTCOME_BY_ERROR_CODE ModelNotFound = UoClientError"

text \<open>A throw that is no router error is \<open>None\<close> here.\<close>

definition outcomeOf :: "router_error option \<Rightarrow> usage_outcome" where
  "outcomeOf e = (case e of None \<Rightarrow> UoRouterError | Some r \<Rightarrow> OUTCOME_BY_ERROR_CODE (re_code r))"

fun FAILURE_OUTCOMES :: "failure_kind \<Rightarrow> usage_outcome" where
  "FAILURE_OUTCOMES RateLimited = UoQuotaExhausted"
| "FAILURE_OUTCOMES CreditsDrained = UoCreditsExhausted"
| "FAILURE_OUTCOMES AuthFailure = UoUpstreamAuthFailed"
| "FAILURE_OUTCOMES Timeout = UoUpstreamTimeout"
| "FAILURE_OUTCOMES Connection = UoUpstreamError"
| "FAILURE_OUTCOMES ServerError = UoUpstreamError"
| "FAILURE_OUTCOMES Overloaded = UoUpstreamError"
| "FAILURE_OUTCOMES ClientError = UoClientError"
| "FAILURE_OUTCOMES ModelUnsupported = UoClientError"
| "FAILURE_OUTCOMES StaleSession = UoUpstreamError"
| "FAILURE_OUTCOMES BusySession = UoUpstreamError"

text \<open>A failed attempt is never filed as a success, nor as the router's own fault.\<close>

lemma failure_outcome_fault: "FAULT_BY_OUTCOME (FAILURE_OUTCOMES k) \<notin> {FaultNone, FaultRouter}"
  by (cases k) simp_all

end
