(* ===== verification/Chain.thy ===== *)
theory Chain
  imports Health_Store Usage_Outcomes
begin

text \<open>
  The failover chain of one request: \<open>dataplane/chain.ts\<close> with \<open>chain-refusals.ts\<close>, \<open>chain-finish.ts\<close>,
  \<open>chain-failed-attempt.ts\<close>, \<open>chain-preparation.ts\<close>, \<open>chain-cancellation.ts\<close>, \<open>chain-recovery.ts\<close>,
  \<open>attempt-lifetime.ts\<close> and \<open>probe.ts\<close>. One pass of the loop is a function of the chain's state and of
  what its environment does in that pass: the client's abort signal, the clock, what the body
  conversion and the transport answer, and the health-store operations of every other request that
  run while this one waits. The chain's own state carries the shared health store.
\<close>

section \<open>What the environment does\<close>

datatype body_result = BodyReady | BodyRefused router_error | BodyThrew

datatype dispatch_result =
    Threw "router_error option"
  | AdmissionRefused
  | Answered int "rate_limit_signal option" bool \<comment> \<open>\<open>success\<close>: response status, reading, \<open>sessionCarried\<close>\<close>
  | Failed attempt_failure "failure_classification option" "rate_limit_signal option" "upstream_error option"

text \<open>
  One pass. \<open>env_between\<close> runs before the pass reads the store, \<open>env_preparing\<close> until the upstream
  call is opened, \<open>env_waiting\<close> until it settles. \<open>env_started\<close> is \<open>lifetime.started()\<close>;
  \<open>env_recovery\<close> is \<open>recovery?.designated\<close> and \<open>env_recoveryStarted\<close> is \<open>recovery.started()\<close>.
  \<open>env_shutdown\<close> says that the router shut down while the call was pending, which runs the attempt's
  abandon callback; \<open>env_shutdownInPause\<close> that it did during the pause before this pass, which runs the
  callback the last attempt left installed.
\<close>

record chain_env =
  env_aborted :: bool
  env_abortedInPause :: bool
  env_shutdownInPause :: bool
  env_between :: "health_event list"
  env_now :: instant
  env_recovery :: "bool option"
  env_body :: body_result
  env_preparing :: "health_event list"
  env_started :: bool
  env_waiting :: "health_event list"
  env_dispatch :: dispatch_result
  env_shutdown :: bool
  env_abortedAfter :: bool
  env_recoveryStarted :: bool
  env_settledAt :: instant
  env_jitter :: js_number
  env_readingJitter :: js_number

record servable =
  sv_candidate :: candidate
  sv_facts :: health_facts
  sv_authKind :: auth_kind
  sv_sdk :: bool

record chain_context =
  ctx_plan :: "servable list"
  ctx_failover :: failover_options
  ctx_health :: health_store_options
  ctx_recoveryRetryAfterMs :: "int option"
  ctx_unknownResetRetryAfterSeconds :: "int option"
  ctx_bindingRefused :: "string option"

section \<open>State and results\<close>

datatype recovery_finish = FinishSucceeded | FinishFailed | FinishUncertain

text \<open>A usage row: the account and attempt it is attributed to (none before an attempt), the outcome,
  the upstream's status.\<close>

datatype chain_record =
    PreflightRow usage_outcome
  | AttemptRow account_id nat usage_outcome "int option"
  | CancelledRow account_id nat "int option"
  | ShutdownRow "(account_id \<times> nat) option"

text \<open>What \<open>setAbandon\<close> was last given: the attempt of an \<open>attemptLifetime\<close>.\<close>

record abandon_callback =
  ab_account :: account_id
  ab_attempt :: nat
  ab_started :: bool
  ab_token :: "nat option"
  ab_recovery :: bool

record chain_state =
  cs_ordered :: "candidate list"
  cs_progress :: failover_progress
  cs_lastFailure :: "attempt_failure option"
  cs_held :: "chain_failure option"
  cs_refused :: bool
  cs_preparationFailed :: bool
  cs_aborted :: bool
  cs_health :: health_store
  cs_records :: "chain_record list"
  cs_recoveries :: "(account_id \<times> recovery_finish) list"
  cs_abandon :: "abandon_callback option"
  cs_abandoned :: bool

datatype chain_result =
    Served candidate nat "string option"   \<comment> \<open>account, attempt, session restart reason\<close>
  | RelayedError upstream_error
  | RouterRefusal router_error
  | ClientGone                             \<comment> \<open>the abort reason is thrown\<close>
  | CancelledUnstarted account_id          \<comment> \<open>thrown by \<open>assertUnstartedCancellation\<close>\<close>
  | CancelledBeforeRelay account_id        \<comment> \<open>a 499\<close>
  | ShutDown
  | UnexpectedThrow

datatype 's chain_step = Continue 's | Finish chain_result 's

section \<open>Parts\<close>

definition admitHalfOpenProbe ::
  "health_store_options \<Rightarrow> candidate \<Rightarrow> instant \<Rightarrow> health_store \<Rightarrow> bool \<times> nat option \<times> health_store" where
  "admitHalfOpenProbe opts c now h =
     (if \<not> cd_halfOpen c then (True, None, h)
      else
        let (admission, h') = admitProbe opts (sa_id c) now h
        in (pa_admitted admission, if pa_held admission then pa_token admission else None, h'))"

text \<open>The returned \<open>release\<close>: nothing unless this caller took the hold.\<close>

definition release_probe :: "account_id \<Rightarrow> nat option \<Rightarrow> health_store \<Rightarrow> health_store" where
  "release_probe i token h = (case token of None \<Rightarrow> h | Some t \<Rightarrow> releaseProbe i (Some t) h)"

definition isCancelledOutcome :: "dispatch_result \<Rightarrow> bool" where
  "isCancelledOutcome outcome \<longleftrightarrow>
     (case outcome of
        Failed f _ _ upstream \<Rightarrow> af_kind f = ClientError \<and> af_status f = Some 499 \<and> upstream = None
      | _ \<Rightarrow> False)"

definition invalidPreparation :: "dispatch_result \<Rightarrow> router_error option" where
  "invalidPreparation outcome =
     (case outcome of
        Failed f _ _ _ \<Rightarrow>
          if af_kind f = ClientError
          then Some (simple_error InvalidRequest (af_message f) None NO_DETAIL) else None
      | _ \<Rightarrow> None)"

definition client_error_failure :: "string \<Rightarrow> attempt_failure" where
  "client_error_failure message =
     \<lparr>af_kind = ClientError, af_status = None, af_resetsAt = None, af_retryAfterSeconds = None,
      af_resetSource = None, af_message = message\<rparr>"

definition yieldsToRefusal :: "chain_failure option \<Rightarrow> bool" where
  "yieldsToRefusal held \<longleftrightarrow>
     (case held of
        None \<Rightarrow> True
      | Some (RouterFailure e) \<Rightarrow> status_of (re_code e) = 429
      | Some (UpstreamFailure u) \<Rightarrow> ue_status u = 429)"

text \<open>What \<open>failIfAny\<close> throws, if anything, and the row it writes.\<close>

definition failIfAny ::
  "chain_context \<Rightarrow> instant \<Rightarrow> chain_state \<Rightarrow> (router_error \<times> chain_record list) option" where
  "failIfAny ctx now s =
     (if \<not> cs_refused s \<and> \<not> cs_preparationFailed s then None
      else if cs_refused s \<and> yieldsToRefusal (cs_held s) then
        let wait = or_default (ctx_recoveryRetryAfterMs ctx) DEFAULT_PROBE_HOLD_MS
        in Some (QuotaExhaustedError ''recovering accounts are awaiting a recovery permit''
                   (Some (max 1 (ceil_div wait 1000))) (Some (now + wait)) NO_DETAIL, [])
      else if cs_held s \<noteq> None \<or> cs_lastFailure s \<noteq> None then None
      else
        let e = NoHealthyAccountError ''upstream dispatch could not be prepared'' None NO_DETAIL
        in Some (e, [PreflightRow (outcomeOf (Some e))]))"

definition finishChain :: "chain_context \<Rightarrow> instant \<Rightarrow> chain_state \<Rightarrow> chain_state chain_step" where
  "finishChain ctx now s =
     (case failIfAny ctx now s of
        Some (e, rows) \<Rightarrow>
          Finish (RouterRefusal e) (s\<lparr>cs_records := cs_records s @ (if cs_abandoned s then [] else rows)\<rparr>)
      | None \<Rightarrow>
          (case cs_held s of
             Some (RouterFailure e) \<Rightarrow> Finish (RouterRefusal e) s
           | Some (UpstreamFailure u) \<Rightarrow> Finish (RelayedError u) s
           | None \<Rightarrow>
               (case cs_lastFailure s of
                  Some f \<Rightarrow>
                    Finish (RouterRefusal (NoHealthyAccountError (''every attempt failed: '' @ af_message f) None NO_DETAIL)) s
                | None \<Rightarrow>
                    Finish (RouterRefusal (NoHealthyAccountError ''no candidate account could be attempted'' None NO_DETAIL)) s)))"

definition drop_account :: "account_id \<Rightarrow> candidate list \<Rightarrow> candidate list" where
  "drop_account i ordered = filter (\<lambda>c. sa_id c \<noteq> i) ordered"

text \<open>\<open>recovery?.finish(state)\<close>\<close>

definition finish_recovery :: "chain_env \<Rightarrow> account_id \<Rightarrow> recovery_finish \<Rightarrow> chain_state \<Rightarrow> chain_state" where
  "finish_recovery env i state s =
     (if env_recovery env = None then s else s\<lparr>cs_recoveries := cs_recoveries s @ [(i, state)]\<rparr>)"

text \<open>\<open>lifetime.end()\<close>, at most once per attempt\<close>

definition end_attempt :: "bool \<Rightarrow> account_id \<Rightarrow> health_store \<Rightarrow> health_store" where
  "end_attempt started i h = (if started then endAttempt i 0 h else h)"

abbreviation on_health :: "(health_store \<Rightarrow> health_store) \<Rightarrow> chain_state \<Rightarrow> chain_state" where
  "on_health f s \<equiv> s\<lparr>cs_health := f (cs_health s)\<rparr>"

definition recordChainFailure ::
  "chain_context \<Rightarrow> chain_env \<Rightarrow> servable \<Rightarrow> candidate \<Rightarrow> attempt_failure \<Rightarrow> rate_limit_signal option \<Rightarrow>
     health_observation \<Rightarrow> chain_state \<Rightarrow> chain_state" where
  "recordChainFailure ctx env sv c failure rateLimit ob s =
     (let i = sa_id c
      in if env_recovery env \<noteq> None \<and> \<not> env_recoveryStarted env then s
      else if af_kind failure = ClientError \<or> af_kind failure = ModelUnsupported then
        on_health (store_recordSuccess i (Some ob)) (finish_recovery env i FinishSucceeded s)
      else if af_kind failure = Overloaded then finish_recovery env i FinishUncertain s
      else
        let caller = (breakerOptionsFor (sv_authKind sv))
                       \<lparr>bo_recoveryProbe := or_default (env_recovery env) (cd_halfOpen (sv_candidate sv))\<rparr>;
            s1 = on_health (store_recordFailure (ctx_health ctx) i failure (env_settledAt env) caller
                   (env_jitter env) (Some ob)) s;
            s2 = finish_recovery env i FinishFailed s1
        in if sv_sdk sv then s2
           else on_health (applyRateLimit (ctx_health ctx) i rateLimit (env_settledAt env)
                  (env_readingJitter env) (Some ob)) s2)"

definition finishFailedAttempt ::
  "chain_context \<Rightarrow> chain_env \<Rightarrow> account_id \<Rightarrow> nat \<Rightarrow> attempt_failure \<Rightarrow> failure_classification option \<Rightarrow>
     rate_limit_signal option \<Rightarrow> upstream_error option \<Rightarrow> chain_state \<Rightarrow> chain_state" where
  "finishFailedAttempt ctx env i attempt failure classification rateLimit upstream s =
     s\<lparr>cs_records := cs_records s @
         [AttemptRow i attempt (FAILURE_OUTCOMES (af_kind failure)) (map_option ue_status upstream)],
       cs_held := foldChainFailure (cs_held s)
         (answeredFailure classification upstream
            \<lparr>ax_rateLimit = rateLimit, ax_now = env_settledAt env,
             ax_unknownResetRetryAfterSeconds = ctx_unknownResetRetryAfterSeconds ctx,
             ax_clientMessage = af_message failure, ax_failureKind = af_kind failure\<rparr>)\<rparr>"

text \<open>
  A shutdown between two attempts runs the callback of the last one. Its attempt has ended, so \<open>end\<close>
  does nothing; it writes its row all the same. Before any attempt the callback is that of
  \<open>requestLifetime\<close>, which writes the request's row when there is none.
\<close>

definition run_abandon :: "chain_state \<Rightarrow> chain_state" where
  "run_abandon s =
     (case cs_abandon s of
        None \<Rightarrow> s\<lparr>cs_records := (if cs_records s = [] then [ShutdownRow None] else cs_records s), cs_abandoned := True\<rparr>
      | Some a \<Rightarrow>
          (on_health (release_probe (ab_account a) (ab_token a)) s)
            \<lparr>cs_recoveries := (if ab_recovery a then cs_recoveries s @ [(ab_account a, FinishUncertain)] else cs_recoveries s),
             cs_records := cs_records s @ [ShutdownRow (if ab_started a then Some (ab_account a, ab_attempt a) else None)],
             cs_abandoned := True\<rparr>)"

section \<open>One pass (\<open>runChain\<close>)\<close>

text \<open>The pass after the transport settled. \<open>prior\<close> is the progress before the attempt was counted.\<close>

definition settle_pass ::
  "chain_context \<Rightarrow> chain_env \<Rightarrow> servable \<Rightarrow> candidate \<Rightarrow> nat \<Rightarrow> bool \<Rightarrow> nat option \<Rightarrow> health_observation \<Rightarrow>
     failover_progress \<Rightarrow> chain_state \<Rightarrow> chain_state chain_step" where
  "settle_pass ctx env sv c attempt sessionRestart token ob prior s =
     (let i = sa_id c;
          started = env_started env;
          outcome = env_dispatch env;
          closed = (\<lambda>s. on_health (release_probe i token) (on_health (end_attempt started i) s))
      in if env_shutdown env then
        Finish ShutDown
          ((closed (finish_recovery env i FinishUncertain s))
             \<lparr>cs_records := cs_records s @ [ShutdownRow (if started then Some (i, attempt) else None)],
              cs_abandoned := True\<rparr>)
      else case outcome of
        Threw e \<Rightarrow>
          if env_abortedAfter env then Finish ClientGone (closed s)
          else Continue ((closed s)
            \<lparr>cs_held := foldChainFailure (cs_held s) (map_option routerFailure e),
             cs_progress := prior, cs_ordered := drop_account i (cs_ordered s), cs_preparationFailed := True\<rparr>)
      | Answered status rateLimit carried \<Rightarrow>
          let s0 = (if started then s else on_health (beginAttempt i) s)
          in if env_abortedAfter env then
            Finish (CancelledBeforeRelay i)
              ((on_health (release_probe i token) (on_health (endAttempt i 0) (finish_recovery env i FinishUncertain s0)))
                 \<lparr>cs_records := cs_records s @ [CancelledRow i attempt (Some status)]\<rparr>)
          else
            Finish (Served c attempt
                (if carried then None
                 else case ctx_bindingRefused ctx of
                        Some r \<Rightarrow> Some r
                      | None \<Rightarrow> if sessionRestart then Some ''failover'' else None))
              ((if sv_sdk sv then s0
                else on_health (applyRateLimit (ctx_health ctx) i rateLimit (env_settledAt env) (env_readingJitter env) (Some ob)) s0)
                 \<lparr>cs_progress := markStreamed (cs_progress s)\<rparr>)
      | AdmissionRefused \<Rightarrow>
          let s1 = closed (if env_recoveryStarted env then finish_recovery env i FinishUncertain s else s)
          in Continue (s1\<lparr>cs_progress := prior, cs_ordered := drop_account i (cs_ordered s), cs_refused := True\<rparr>)
      | Failed failure classification rateLimit upstream \<Rightarrow>
          if \<not> started \<and> isCancelledOutcome outcome \<and> env_abortedAfter env then Finish (CancelledUnstarted i) s
          else if \<not> started then
            let s1 = closed (if env_recoveryStarted env then finish_recovery env i FinishUncertain s else s)
            in case invalidPreparation outcome of
                 Some e \<Rightarrow>
                   Continue (s1\<lparr>cs_held := foldChainFailure (cs_held s) (Some (routerFailure e)),
                               cs_lastFailure := Some (client_error_failure (re_message e)),
                               cs_records := cs_records s @ [PreflightRow UoClientError]\<rparr>)
               | None \<Rightarrow>
                   Continue (s1\<lparr>cs_progress := prior, cs_ordered := drop_account i (cs_ordered s),
                               cs_preparationFailed := True\<rparr>)
          else if env_abortedAfter env \<and> isCancelledOutcome outcome then
            Finish (CancelledBeforeRelay i)
              ((closed (finish_recovery env i FinishUncertain s))
                 \<lparr>cs_records := cs_records s @ [CancelledRow i attempt (map_option ue_status upstream)]\<rparr>)
          else
            let s1 = recordChainFailure ctx env sv c failure rateLimit ob s;
                s2 = closed (s1\<lparr>cs_ordered := (if env_recovery env = Some True
                                               then drop_account i (cs_ordered s) else cs_ordered s)\<rparr>);
                s3 = s2\<lparr>cs_lastFailure := Some failure,
                        cs_progress := noteOverload (cs_progress s) i (af_kind failure)\<rparr>
            in Continue (finishFailedAttempt ctx env i attempt failure classification rateLimit upstream s3))"

definition find_servable :: "servable list \<Rightarrow> account_id \<Rightarrow> servable option" where
  "find_servable plan i = map_get (map_from (map (\<lambda>sv. (sa_id (sv_candidate sv), sv)) plan)) i"

text \<open>The pass from the chosen candidate to the transport.\<close>

definition attempt_pass ::
  "chain_context \<Rightarrow> chain_env \<Rightarrow> failover_decision \<Rightarrow> candidate \<Rightarrow> nat \<Rightarrow>
     bool \<Rightarrow> chain_state \<Rightarrow> chain_state chain_step" where
  "attempt_pass ctx env decision c attempt sessionRestart s =
     (case find_servable (ctx_plan ctx) (sa_id c) of
        None \<Rightarrow> finishChain ctx (env_now env) s
      | Some sv \<Rightarrow>
          let i = sa_id c;
              (ob, h1) = captureAttempt i (sv_facts sv) (cs_health s);
              (admitted, token, h2) = admitHalfOpenProbe (ctx_health ctx) c (env_now env) h1
          in if \<not> admitted then
            Continue (s\<lparr>cs_health := h2, cs_refused := True, cs_ordered := drop_account i (cs_ordered s)\<rparr>)
          else
            let prior = cs_progress s;
                s1 = s\<lparr>cs_health := h2, cs_progress := recordAttempt prior i (inPlaceReason decision)\<rparr>
            in case env_body env of
                 BodyThrew \<Rightarrow> Finish UnexpectedThrow (on_health (release_probe i token) s1)
               | BodyRefused e \<Rightarrow>
                   Continue ((on_health (release_probe i token) s1)
                     \<lparr>cs_held := foldChainFailure (cs_held s) (Some (routerFailure e)),
                      cs_lastFailure := Some (client_error_failure (re_message e)),
                      cs_records := cs_records s @ [PreflightRow UoClientError]\<rparr>)
               | BodyReady \<Rightarrow>
                   let opened = (\<lambda>h. if env_started env then beginAttempt i h else h);
                       h3 = fold (health_step (ctx_health ctx)) (env_waiting env) (opened (fold (health_step (ctx_health ctx)) (env_preparing env) h2))
                   in settle_pass ctx env sv c attempt sessionRestart token ob prior
                        (s1\<lparr>cs_health := h3,
                            cs_abandon := Some \<lparr>ab_account = i, ab_attempt = attempt, ab_started = env_started env,
                              ab_token = token, ab_recovery = (env_recovery env \<noteq> None)\<rparr>\<rparr>))"

definition chain_pass ::
  "chain_context \<Rightarrow> chain_env \<Rightarrow> chain_state \<Rightarrow> chain_state chain_step" where
  "chain_pass ctx env s0 =
     (let s = on_health (fold (health_step (ctx_health ctx)) (env_between env)) s0
      in if cs_aborted s \<or> env_aborted env then
        (if cs_held s \<noteq> None then finishChain ctx (env_now env) s else Finish ClientGone s)
      else
        let decision = planNextAttempt (cs_ordered s) (cs_progress s) (cs_lastFailure s) (ctx_failover ctx)
        in case decision of
             Stop _ \<Rightarrow> finishChain ctx (env_now env) s
           | RetryInPlace c attempt delay \<Rightarrow>
               if delay \<noteq> None \<and> env_shutdownInPause env then Continue ((run_abandon s)\<lparr>cs_aborted := True\<rparr>)
               else if delay \<noteq> None \<and> env_abortedInPause env then Continue (s\<lparr>cs_aborted := True\<rparr>)
               else attempt_pass ctx env decision c attempt False s
           | Attempt c attempt _ restart \<Rightarrow> attempt_pass ctx env decision c attempt restart s)"

text \<open>
  The loop: pass \<open>n\<close> meets the environment \<open>envs n\<close>. Running out of fuel is \<open>None\<close>.
\<close>

fun chain_loop ::
  "nat \<Rightarrow> chain_context \<Rightarrow> (nat \<Rightarrow> chain_env) \<Rightarrow> nat \<Rightarrow> chain_state \<Rightarrow>
     (chain_result \<times> chain_state) option" where
  "chain_loop 0 ctx envs n s = None"
| "chain_loop (Suc fuel) ctx envs n s =
     (case chain_pass ctx (envs n) s of
        Finish r s' \<Rightarrow> Some (r, s')
      | Continue s' \<Rightarrow> chain_loop fuel ctx envs (Suc n) s')"

definition chain_start :: "chain_context \<Rightarrow> health_store \<Rightarrow> chain_state" where
  "chain_start ctx h =
     \<lparr>cs_ordered = map sv_candidate (ctx_plan ctx), cs_progress = NO_ATTEMPTS, cs_lastFailure = None,
      cs_held = None, cs_refused = False, cs_preparationFailed = False, cs_aborted = False, cs_health = h,
      cs_records = [], cs_recoveries = [], cs_abandon = None, cs_abandoned = False\<rparr>"

text \<open>
  A pass that does not finish counts an attempt on a fresh account, spends one of the two in-place
  budgets, drops a candidate or notes the abort, so this many passes are enough.
\<close>

definition chain_fuel :: "chain_context \<Rightarrow> nat" where
  "chain_fuel ctx =
     2 * length (ctx_plan ctx) + or_default (fo_maxInPlaceRetries (ctx_failover ctx)) DEFAULT_MAX_IN_PLACE_RETRIES
     + overload_cap (ctx_failover ctx) + 2"

definition runChain ::
  "chain_context \<Rightarrow> (nat \<Rightarrow> chain_env) \<Rightarrow> health_store \<Rightarrow>
     (chain_result \<times> chain_state) option" where
  "runChain ctx envs h = chain_loop (chain_fuel ctx) ctx envs 0 (chain_start ctx h)"

end
