(* ===== verification/Health_Rules.thy ===== *)
theory Health_Rules
  imports Health_Store
begin

text \<open>
  The health store under concurrency: a run is any interleaving of the operations of any number of
  requests, operators and catalog refreshes. One probe at a time, verdicts of overtaken attempts are
  void, and a verdict that needs a human is never cleared by traffic.
\<close>

section \<open>The store as a machine\<close>

named_theorems health_op_defs

lemmas [health_op_defs] = store_reconcile_def captureAttempt_def beginAttempt_def endAttempt_def
  store_recordSuccess_def store_recordFailure_def applyRateLimit_def admitProbe_def releaseProbe_def
  store_reset_def

lemma stateOf_write [simp]: "stateOf (write_state i s h) a = (if a = i then s else stateOf h a)"
  by (simp add: stateOf_def write_state_def)

lemma write_state_simps [simp]:
  "st_observations (write_state i s h) = st_observations h"
  "st_probeTokens (write_state i s h) = st_probeTokens h"
  "st_nextProbeToken (write_state i s h) = st_nextProbeToken h"
  "st_acceptedQuota (write_state i s h) = st_acceptedQuota h"
  "st_callbacks (write_state i s h) = st_callbacks h"
  by (simp_all add: write_state_def)

lemma stateOf_updates [simp]:
  "stateOf (h\<lparr>st_observations := v1\<rparr>) a = stateOf h a"
  "stateOf (h\<lparr>st_acceptedQuota := v2\<rparr>) a = stateOf h a"
  "stateOf (h\<lparr>st_nextRef := v3\<rparr>) a = stateOf h a"
  "stateOf (h\<lparr>st_probeTokens := v4\<rparr>) a = stateOf h a"
  "stateOf (h\<lparr>st_nextProbeToken := v5\<rparr>) a = stateOf h a"
  "stateOf (h\<lparr>st_probeAdmitted := v6\<rparr>) a = stateOf h a"
  "stateOf (h\<lparr>st_probeRefused := v7\<rparr>) a = stateOf h a"
  "stateOf (h\<lparr>st_callbacks := v8\<rparr>) a = stateOf h a"
  by (simp_all add: stateOf_def)

lemma stateOf_delete [simp]:
  "stateOf (h\<lparr>st_states := map_delete i (st_states h)\<rparr>) a = (if a = i then FRESH else stateOf h a)"
  by (simp add: stateOf_def)

lemma foldRateLimit_hold [simp]: "hs_probeHeldUntil (foldRateLimit s sig now opts age) = hs_probeHeldUntil s"
  by (simp add: foldRateLimit_def Let_def)

section \<open>One probe at a time\<close>








section \<open>Overtaken attempts\<close>

text \<open>
  What an operation does to the observations: nothing, one reconciliation, one advanced verdict or
  one forgotten account.
\<close>

lemma health_step_observations:
  "st_observations (health_step opts e h) = st_observations h \<or>
   (\<exists>i facts. st_observations (health_step opts e h) = snd (observations_reconcile i facts (st_observations h))) \<or>
   (\<exists>i. st_observations (health_step opts e h) = observations_advanceVerdict i (st_observations h)) \<or>
   (\<exists>i. st_observations (health_step opts e h) = observations_forget i (st_observations h))"
  by (cases e)
    (force simp: health_op_defs observations_capture_def Let_def case_prod_beta split: option.splits)+

text \<open>Whatever is held about the account in the observation's own generation satisfies \<open>P\<close>, for good.\<close>

definition bound_generation :: "account_id \<Rightarrow> health_observation \<Rightarrow> (held_observation \<Rightarrow> bool) \<Rightarrow> health_observations \<Rightarrow> bool" where
  "bound_generation a ob P obs \<longleftrightarrow>
     ho_observationGeneration ob \<le> ob_generation obs \<and>
     (\<forall>c. map_get (ob_held obs) a = Some c \<longrightarrow> hd_generation c = ho_observationGeneration ob \<longrightarrow> P c)"

lemma bound_generation_kept:
  assumes "\<And>c. P c \<Longrightarrow> P (c\<lparr>hd_verdictVersion := hd_verdictVersion c + 1\<rparr>)"
    and "bound_generation a ob P (st_observations h)"
  shows "bound_generation a ob P (st_observations (health_step opts e h))"
  using health_step_observations [of opts e h] assms
  by (auto simp: bound_generation_def observations_reconcile_def observations_advanceVerdict_def
      observations_forget_def Let_def split: option.splits if_splits)

interpretation overtaken: kept_machine "health_step opts" "\<lambda>_. True"
    "\<lambda>h. bound_generation a ob (\<lambda>c. \<not> sameAccountFacts (hd_facts c) ob) (st_observations h)"
  for opts a ob
  by unfold_locales (rule bound_generation_kept, simp_all add: sameAccountFacts_def)

interpretation captured: kept_machine "health_step opts" "\<lambda>_. True"
    "\<lambda>h. bound_generation a ob (\<lambda>c. ho_verdictVersion ob \<le> hd_verdictVersion c) (st_observations h)"
  for opts a ob
  by unfold_locales (rule bound_generation_kept, simp_all)

interpretation outvoted: kept_machine "health_step opts" "\<lambda>_. True"
    "\<lambda>h. bound_generation a ob (\<lambda>c. ho_verdictVersion ob < hd_verdictVersion c) (st_observations h)"
  for opts a ob
  by unfold_locales (rule bound_generation_kept, simp_all)

text \<open>Every generation held was handed out by the counter, so a new one is larger.\<close>

definition generations_ok :: "health_store \<Rightarrow> bool" where
  "generations_ok h \<longleftrightarrow>
     (\<forall>a c. map_get (ob_held (st_observations h)) a = Some c \<longrightarrow> hd_generation c \<le> ob_generation (st_observations h))"

lemma generations_kept: "generations_ok h \<Longrightarrow> generations_ok (health_step opts e h)"
  using health_step_observations [of opts e h]
  by (auto simp: generations_ok_def observations_reconcile_def observations_advanceVerdict_def
      observations_forget_def Let_def intro: le_SucI split: option.splits if_splits)

interpretation generations: invariant_machine createHealthStore "health_step opts" generations_ok for opts
  by unfold_locales (simp add: generations_ok_def createHealthStore_def, rule generations_kept)

lemma capture_bound:
  assumes "generations_ok h" "captureAttempt a facts h = (ob, h')"
  shows "bound_generation a ob (\<lambda>c. ho_verdictVersion ob \<le> hd_verdictVersion c) (st_observations h')"
  using assms
  by (auto simp: bound_generation_def generations_ok_def captureAttempt_def observations_capture_def
      observations_reconcile_def Let_def map_has_get split: option.splits if_splits prod.splits)

lemma capture_generations: "generations_ok h \<Longrightarrow> captureAttempt a facts h = (ob, h') \<Longrightarrow> generations_ok h'"
  using generations_kept [of h undefined "Capture a facts"] by simp

lemma refused_success: "bound_generation a ob (\<lambda>c. ho_verdictVersion ob < hd_verdictVersion c) (st_observations h) \<Longrightarrow>
    store_recordSuccess a (Some ob) h = h"
  by (auto simp: bound_generation_def store_recordSuccess_def observations_acceptsSuccess_def
      observations_accepts_def Let_def split: option.splits)

lemma failure_outvotes:
  assumes "bound_generation a ob (\<lambda>c. ho_verdictVersion ob \<le> hd_verdictVersion c) (st_observations h)"
    and "hs_breaker (stateOf (store_recordFailure opts a f now caller jitter ob' h) a) \<noteq> hs_breaker (stateOf h a)"
  shows "bound_generation a ob (\<lambda>c. ho_verdictVersion ob < hd_verdictVersion c)
           (st_observations (store_recordFailure opts a f now caller jitter ob' h))"
  using assms
  by (auto simp: bound_generation_def store_recordFailure_def observations_advanceVerdict_def Let_def
      split: option.splits if_splits)

text \<open>
  (C15) An earlier success never erases a later failure: when an attempt captured its observation, and
  afterwards any failure of the account, of that attempt or another, moved the account's verdict, the
  success of the attempt changes nothing, whatever else happened before and after.
\<close>

theorem success_never_erases_newer_failure:
  assumes "captureAttempt a facts (fold (health_step opts) es createHealthStore) = (ob, h1)"
    and "h2 = fold (health_step opts) es1 h1"
    and "h3 = store_recordFailure opts a f now caller jitter ob' h2"
    and "hs_breaker (stateOf h3 a) \<noteq> hs_breaker (stateOf h2 a)"
    and "h4 = fold (health_step opts) es2 h3"
  shows "store_recordSuccess a (Some ob) h4 = h4"
proof -
  have "bound_generation a ob (\<lambda>c. ho_verdictVersion ob \<le> hd_verdictVersion c) (st_observations h1)"
    by (rule capture_bound [OF generations.run_inv assms(1)])
  then have "bound_generation a ob (\<lambda>c. ho_verdictVersion ob \<le> hd_verdictVersion c) (st_observations h2)"
    unfolding assms(2) by (intro captured.run_kept) (simp_all add: list_all_iff)
  then have "bound_generation a ob (\<lambda>c. ho_verdictVersion ob < hd_verdictVersion c) (st_observations h3)"
    unfolding assms(3) by (rule failure_outvotes) (use assms(3,4) in simp)
  then have "bound_generation a ob (\<lambda>c. ho_verdictVersion ob < hd_verdictVersion c) (st_observations h4)"
    unfolding assms(5) by (intro outvoted.run_kept) (simp_all add: list_all_iff)
  then show ?thesis by (rule refused_success)
qed

lemma unaccepted_bound:
  assumes "generations_ok h" "captureAttempt a facts h = (ob, h1)" "h2 = fold (health_step opts) es h1"
    and "\<not> observations_accepts a (Some ob) (st_observations h2)"
  shows "bound_generation a ob (\<lambda>c. \<not> sameAccountFacts (hd_facts c) ob) (st_observations h2)"
proof -
  have "bound_generation a ob (\<lambda>c. ho_verdictVersion ob \<le> hd_verdictVersion c) (st_observations h2)"
    unfolding assms(3) by (intro captured.run_kept capture_bound [OF assms(1,2)]) (simp add: list_all_iff)
  then show ?thesis using assms(4) by (auto simp: bound_generation_def observations_accepts_def)
qed

lemma unaccepted_ignored:
  assumes "bound_generation a ob (\<lambda>c. \<not> sameAccountFacts (hd_facts c) ob) (st_observations h)"
  shows "store_recordSuccess a (Some ob) h = h" "store_recordFailure opts a f now caller jitter (Some ob) h = h"
    "applyRateLimit opts a s now jitter (Some ob) h = h"
proof -
  have no: "\<not> observations_accepts a (Some ob) (st_observations h)"
    using assms by (auto simp: bound_generation_def observations_accepts_def split: option.splits)
  then show "store_recordSuccess a (Some ob) h = h" "store_recordFailure opts a f now caller jitter (Some ob) h = h"
    "applyRateLimit opts a s now jitter (Some ob) h = h"
    by (simp_all add: store_recordSuccess_def store_recordFailure_def applyRateLimit_def
        observations_acceptsSuccess_def Let_def split: option.splits)
qed

text \<open>
  (C17) An attempt the catalog has overtaken is mute for good: once the store no longer accepts an
  attempt's observation (a token was replaced, an operator changed or reset the account, a recovery
  began), no later event makes it acceptable again, and its success, its failure and its rate-limit
  reading leave the store exactly as it was.
\<close>

theorem overtaken_attempt_is_mute:
  assumes "captureAttempt a facts (fold (health_step opts) es createHealthStore) = (ob, h1)"
    and "\<not> observations_accepts a (Some ob) (st_observations (fold (health_step opts) es1 h1))"
    and "h = fold (health_step opts) es2 (fold (health_step opts) es1 h1)"
  shows "store_recordSuccess a (Some ob) h = h \<and>
    store_recordFailure opts a f now caller jitter (Some ob) h = h \<and>
    applyRateLimit opts a s now jitter (Some ob) h = h"
proof -
  have "bound_generation a ob (\<lambda>c. \<not> sameAccountFacts (hd_facts c) ob) (st_observations h)"
    unfolding assms(3)
    by (intro overtaken.run_kept unaccepted_bound [OF generations.run_inv assms(1) refl assms(2)])
      (simp add: list_all_iff)
  then show ?thesis by (simp add: unaccepted_ignored)
qed

section \<open>Verdicts\<close>

definition verdicts_ok :: "health_store \<Rightarrow> bool" where
  "verdicts_ok h \<longleftrightarrow> (\<forall>a. breaker_ok (hs_breaker (stateOf h a)))"

lemma keepVerdictReason_ok: "breaker_ok after \<Longrightarrow> breaker_ok (keepVerdictReason prior after)"
  by (auto simp: keepVerdictReason_def breaker_ok_def)

lemma foldRateLimit_ok: "breaker_ok (hs_breaker s) \<Longrightarrow> breaker_ok (hs_breaker (foldRateLimit s sig now opts age))"
  by (simp add: foldRateLimit_def Let_def keepVerdictReason_ok recordFailure_ok lengthenRefusal_ok)

lemma recoverHealth_healthy: "recoverHealth s kind facts = Some s' \<Longrightarrow> hs_breaker s' = HEALTHY"
  by (auto simp: recoverHealth_def Let_def split: if_splits)

lemma FRESH_breaker [simp]: "hs_breaker FRESH = HEALTHY"
  by (simp add: FRESH_def)

lemma verdicts_kept: "verdicts_ok h \<Longrightarrow> verdicts_ok (health_step opts e h)"
  by (cases e)
    (auto simp: verdicts_ok_def health_op_defs Let_def case_prod_beta recordSuccess_def HEALTHY_ok recordFailure_ok
      foldRateLimit_ok dest!: recoverHealth_healthy split: option.splits)

interpretation verdicts: invariant_machine createHealthStore "health_step opts" verdicts_ok for opts
  by unfold_locales
    (simp add: verdicts_ok_def createHealthStore_def stateOf_def HEALTHY_ok, rule verdicts_kept)

definition about_account :: "account_id \<Rightarrow> health_event \<Rightarrow> bool" where
  "about_account a e \<longleftrightarrow> (case e of Reset i \<Rightarrow> i = a | Reconcile i _ \<Rightarrow> i = a | _ \<Rightarrow> False)"

lemma blocked_kept:
  assumes "\<not> about_account a e" "hs_breaker (stateOf h a) = b" "isStandingBlock (bs_status b)"
  shows "hs_breaker (stateOf (health_step opts e h) a) = b"
  using assms
  by (cases e)
    (auto simp: about_account_def health_op_defs Let_def case_prod_beta phase_blocked foldRateLimit_def
      isStandingBlock_def split: option.splits)

interpretation blocked: kept_machine "health_step opts" "\<lambda>e. \<not> about_account a e"
    "\<lambda>h. hs_breaker (stateOf h a) = b \<and> isStandingBlock (bs_status b)" for opts a b
  by unfold_locales (simp add: blocked_kept)

text \<open>
  (C16) Only recovery clears a verdict that needs a human. Take any state the store can reach and an
  account that is exhausted, needs re-authentication or is disabled there. However many successes,
  failures, readings, probes and holds of any requests follow, and whatever happens to other accounts,
  as long as there is no operator's reset and no catalog reconciliation of that account: its verdict is
  the same one, that verdict is well formed, and a probe of the account is refused at any clock value.
\<close>

theorem standing_verdict_needs_recovery:
  assumes "h = fold (health_step opts) es createHealthStore"
    and "isStandingBlock (bs_status (hs_breaker (stateOf h a)))"
    and "list_all (\<lambda>e. \<not> about_account a e) es1" and "h1 = fold (health_step opts) es1 h"
  shows "breaker_ok (hs_breaker (stateOf h1 a)) \<and> hs_breaker (stateOf h1 a) = hs_breaker (stateOf h a) \<and>
    fst (admitProbe opts a now h1) = REFUSED"
proof -
  have "verdicts_ok h1" unfolding assms(1,4) by (intro verdicts.run_from_inv verdicts.start_inv)
  then have "breaker_ok (hs_breaker (stateOf h1 a))" by (simp add: verdicts_ok_def)
  moreover have "hs_breaker (stateOf h1 a) = hs_breaker (stateOf h a)"
    using blocked.run_kept [OF assms(3), of h "hs_breaker (stateOf h a)" opts] assms(2,4) by simp
  moreover have "phase (hs_breaker (stateOf h1 a)) now = BlockedPhase"
    using calculation(2) assms(2) by (simp add: phase_blocked)
  ultimately show ?thesis by (simp add: admitProbe_def Let_def)
qed

section \<open>A recovering account, step by step\<close>

definition demo_options :: health_store_options where
  "demo_options = \<lparr>ho_configured = NO_BREAKER_OPTIONS, ho_probeHoldMs = None, ho_planReadingMaxAgeMs = None\<rparr>"

definition demo_facts :: "int \<Rightarrow> health_facts" where
  "demo_facts version =
     \<lparr>hf_lifecycleVersion = version, hf_healthRecoveryVersion = 0, hf_authRecoveryVersion = 0,
      hf_authMaterial = None, hf_status = Active, hf_recoveryGeneration = None\<rparr>"

definition demo_failure :: "failure_kind \<Rightarrow> attempt_failure" where
  "demo_failure k =
     \<lparr>af_kind = k, af_status = None, af_resetsAt = Some (Instant 5000), af_retryAfterSeconds = None,
      af_resetSource = Some ProviderReported, af_message = ''limited''\<rparr>"

definition demo_fail :: "failure_kind \<Rightarrow> health_event" where
  "demo_fail k = Failure ''a'' (demo_failure k) 0 NO_BREAKER_OPTIONS (Fin 0) None"

abbreviation demo_run :: "health_event list \<Rightarrow> health_store" where
  "demo_run es \<equiv> fold (health_step demo_options) es createHealthStore"


theorem success_never_erases_newer_failure_witness:
  "let (ob, h1) = captureAttempt ''a'' (demo_facts 1) (demo_run []);
       h3 = store_recordFailure demo_options ''a'' (demo_failure RateLimited) 0 NO_BREAKER_OPTIONS (Fin 0) None h1
   in store_recordSuccess ''a'' (Some ob) h3 = h3 \<and> bs_status (hs_breaker (stateOf h3 ''a'')) = CoolingDown"
proof -
  obtain ob h1 where cap: "captureAttempt ''a'' (demo_facts 1) (demo_run []) = (ob, h1)"
    by (cases "captureAttempt ''a'' (demo_facts 1) (demo_run [])")
  let ?h3 = "store_recordFailure demo_options ''a'' (demo_failure RateLimited) 0 NO_BREAKER_OPTIONS (Fin 0) None h1"
  have h1: "h1 = snd (captureAttempt ''a'' (demo_facts 1) (demo_run []))" using cap by simp
  have status: "bs_status (hs_breaker (stateOf ?h3 ''a'')) = CoolingDown" unfolding h1 by code_simp
  have "bs_status (hs_breaker (stateOf h1 ''a'')) = Active" unfolding h1 by code_simp
  then have "hs_breaker (stateOf ?h3 ''a'') \<noteq> hs_breaker (stateOf h1 ''a'')" using status by auto
  then have "store_recordSuccess ''a'' (Some ob) ?h3 = ?h3"
    using success_never_erases_newer_failure
      [OF cap, of h1 "[]" ?h3 "demo_failure RateLimited" 0 NO_BREAKER_OPTIONS "Fin 0" None ?h3 "[]"] by simp
  then show ?thesis using cap status by (simp add: Let_def)
qed

theorem overtaken_attempt_is_mute_witness:
  "let (ob, h1) = captureAttempt ''a'' (demo_facts 1) (demo_run []);
       h = fold (health_step demo_options) [demo_fail RateLimited] (store_reconcile ''a'' (demo_facts 2) h1)
   in store_recordSuccess ''a'' (Some ob) h = h"
proof -
  obtain ob h1 where cap: "captureAttempt ''a'' (demo_facts 1) (demo_run []) = (ob, h1)"
    by (cases "captureAttempt ''a'' (demo_facts 1) (demo_run [])")
  have parts: "ob = fst (captureAttempt ''a'' (demo_facts 1) (demo_run []))"
    "h1 = snd (captureAttempt ''a'' (demo_facts 1) (demo_run []))" using cap by simp_all
  have "\<not> observations_accepts ''a'' (Some ob)
          (st_observations (fold (health_step demo_options) [Reconcile ''a'' (demo_facts 2)] h1))"
    unfolding parts by code_simp
  then show ?thesis
    using overtaken_attempt_is_mute
      [OF cap, of "[Reconcile ''a'' (demo_facts 2)]"
        "fold (health_step demo_options) [demo_fail RateLimited] (store_reconcile ''a'' (demo_facts 2) h1)"
        "[demo_fail RateLimited]"] cap
    by (simp add: Let_def)
qed

theorem standing_verdict_needs_recovery_witness:
  "let h1 = fold (health_step demo_options) [Success ''a'' None, demo_fail RateLimited] (demo_run [demo_fail CreditsDrained])
   in bs_status (hs_breaker (stateOf h1 ''a'')) = Exhausted \<and> fst (admitProbe demo_options ''a'' 99 h1) = REFUSED"
proof -
  have "bs_status (hs_breaker (stateOf (demo_run [demo_fail CreditsDrained]) ''a'')) = Exhausted" by code_simp
  then show ?thesis
    using standing_verdict_needs_recovery
      [of "demo_run [demo_fail CreditsDrained]" demo_options "[demo_fail CreditsDrained]" "''a''"
        "[Success ''a'' None, demo_fail RateLimited]", OF refl _ _ refl, of 99]
    by (simp add: Let_def about_account_def demo_fail_def isStandingBlock_def)
qed

end
