(* ===== verification/Chain_Rules.thy ===== *)
theory Chain_Rules
  imports Chain Health_Rules Policy_Rules
begin

text \<open>
  What the failover chain guarantees whatever its environment does: it always answers, within a
  bounded number of passes; it tries each account at most once outside the two in-place budgets and
  never more accounts than the ceiling allows; what it took from the health store it gives back; and
  its answer is the most actionable of what happened.
\<close>

section \<open>The chain as a step relation\<close>

fun chosen :: "failover_decision \<Rightarrow> candidate option" where
  "chosen (Attempt c _ _ _) = Some c"
| "chosen (RetryInPlace c _ _) = Some c"
| "chosen (Stop _) = None"

abbreviation next_decision :: "chain_context \<Rightarrow> chain_state \<Rightarrow> failover_decision" where
  "next_decision ctx s \<equiv> planNextAttempt (cs_ordered s) (cs_progress s) (cs_lastFailure s) (ctx_failover ctx)"

text \<open>
  The routing half of a pass that goes on: the abort is noted, after a shutdown with the row of the last
  attempt's callback, the chosen candidate is dropped uncounted, or the attempt is counted and failed.
\<close>

inductive chain_move :: "chain_context \<Rightarrow> chain_state \<Rightarrow> chain_state \<Rightarrow> bool" for ctx where
  note_abort:
    "\<not> cs_aborted s \<Longrightarrow> cs_aborted s' \<Longrightarrow> cs_ordered s' = cs_ordered s \<Longrightarrow> cs_progress s' = cs_progress s \<Longrightarrow>
     cs_lastFailure s' = cs_lastFailure s \<Longrightarrow> cs_records s' = cs_records s \<Longrightarrow> cs_abandoned s' = cs_abandoned s \<Longrightarrow>
     cs_abandon s' = cs_abandon s \<Longrightarrow> chain_move ctx s s'"
| shut:
    "\<not> cs_aborted s \<Longrightarrow> next_decision ctx s = RetryInPlace c n (Some d) \<Longrightarrow> s' = (run_abandon s)\<lparr>cs_aborted := True\<rparr> \<Longrightarrow>
     chain_move ctx s s'"
| drop:
    "chosen (next_decision ctx s) = Some c \<Longrightarrow> \<not> cs_aborted s \<Longrightarrow> cs_aborted s' = cs_aborted s \<Longrightarrow>
     cs_ordered s' = drop_account (sa_id c) (cs_ordered s) \<Longrightarrow> cs_progress s' = cs_progress s \<Longrightarrow>
     cs_lastFailure s' = cs_lastFailure s \<Longrightarrow> cs_records s' = cs_records s \<Longrightarrow> cs_abandoned s' = cs_abandoned s \<Longrightarrow>
     cs_abandon s' = cs_abandon s \<or> cs_abandon s' \<noteq> None \<Longrightarrow> chain_move ctx s s'"
| count:
    "chosen (next_decision ctx s) = Some c \<Longrightarrow> \<not> cs_aborted s \<Longrightarrow> cs_aborted s' = cs_aborted s \<Longrightarrow>
     p = recordAttempt (cs_progress s) (sa_id c) (inPlaceReason (next_decision ctx s)) \<Longrightarrow>
     cs_progress s' = p \<or> cs_progress s' = noteOverload p (sa_id c) k \<Longrightarrow>
     cs_ordered s' = cs_ordered s \<or> cs_ordered s' = drop_account (sa_id c) (cs_ordered s) \<Longrightarrow>
     cs_lastFailure s' \<noteq> None \<Longrightarrow> cs_records s' = cs_records s @ [row] \<Longrightarrow> cs_abandoned s' = cs_abandoned s \<Longrightarrow>
     cs_abandon s' \<noteq> None \<or> cs_abandon s' = cs_abandon s \<and> cs_progress s' = p \<and> map_option af_kind (cs_lastFailure s') = Some ClientError \<Longrightarrow>
     chain_move ctx s s'"

lemma finish_recovery_simps [simp]:
  "cs_ordered (finish_recovery env i r s) = cs_ordered s"
  "cs_progress (finish_recovery env i r s) = cs_progress s"
  "cs_lastFailure (finish_recovery env i r s) = cs_lastFailure s"
  "cs_aborted (finish_recovery env i r s) = cs_aborted s"
  "cs_health (finish_recovery env i r s) = cs_health s"
  "cs_held (finish_recovery env i r s) = cs_held s"
  "cs_refused (finish_recovery env i r s) = cs_refused s"
  "cs_preparationFailed (finish_recovery env i r s) = cs_preparationFailed s"
  "cs_records (finish_recovery env i r s) = cs_records s"
  "cs_abandon (finish_recovery env i r s) = cs_abandon s"
  "cs_abandoned (finish_recovery env i r s) = cs_abandoned s"
  by (simp_all add: finish_recovery_def)

lemma recordChainFailure_simps [simp]:
  "cs_ordered (recordChainFailure ctx env sv c f rl ob s) = cs_ordered s"
  "cs_progress (recordChainFailure ctx env sv c f rl ob s) = cs_progress s"
  "cs_lastFailure (recordChainFailure ctx env sv c f rl ob s) = cs_lastFailure s"
  "cs_aborted (recordChainFailure ctx env sv c f rl ob s) = cs_aborted s"
  "cs_held (recordChainFailure ctx env sv c f rl ob s) = cs_held s"
  "cs_refused (recordChainFailure ctx env sv c f rl ob s) = cs_refused s"
  "cs_preparationFailed (recordChainFailure ctx env sv c f rl ob s) = cs_preparationFailed s"
  "cs_records (recordChainFailure ctx env sv c f rl ob s) = cs_records s"
  "cs_abandon (recordChainFailure ctx env sv c f rl ob s) = cs_abandon s"
  "cs_abandoned (recordChainFailure ctx env sv c f rl ob s) = cs_abandoned s"
  by (simp_all add: recordChainFailure_def Let_def)

lemma finishChain_finishes [simp]: "finishChain ctx now s \<noteq> Continue s'"
  by (auto simp: finishChain_def split: option.splits chain_failure.splits)

lemma settle_pass_continue:
  assumes "settle_pass ctx env sv c attempt restart token ob prior s = Continue s'"
  shows "cs_aborted s' = cs_aborted s \<and> cs_abandon s' = cs_abandon s \<and> cs_abandoned s' = cs_abandoned s \<and>
    (cs_progress s' = prior \<and> cs_ordered s' = drop_account (sa_id c) (cs_ordered s) \<and> cs_lastFailure s' = cs_lastFailure s \<and>
     cs_records s' = cs_records s \<or>
     (cs_progress s' = cs_progress s \<or> (\<exists>k. cs_progress s' = noteOverload (cs_progress s) (sa_id c) k)) \<and>
     (cs_ordered s' = cs_ordered s \<or> cs_ordered s' = drop_account (sa_id c) (cs_ordered s)) \<and> cs_lastFailure s' \<noteq> None \<and>
     (\<exists>row. cs_records s' = cs_records s @ [row]))"
  using assms
  by (auto simp: settle_pass_def Let_def finishFailedAttempt_def split: dispatch_result.splits if_splits option.splits)

lemma attempt_pass_move:
  assumes "attempt_pass ctx env d c n r s = Continue s'" "next_decision ctx s = d" "chosen d = Some c" "\<not> cs_aborted s"
  shows "chain_move ctx s s'"
proof -
  obtain sv where sv: "find_servable (ctx_plan ctx) (sa_id c) = Some sv"
    using assms(1) by (auto simp: attempt_pass_def split: option.splits)
  obtain ob h1 where cap: "captureAttempt (sa_id c) (sv_facts sv) (cs_health s) = (ob, h1)" by fastforce
  obtain ok token h2 where adm: "admitHalfOpenProbe (ctx_health ctx) c (env_now env) h1 = (ok, token, h2)"
    by (cases "admitHalfOpenProbe (ctx_health ctx) c (env_now env) h1") auto
  let ?p = "recordAttempt (cs_progress s) (sa_id c) (inPlaceReason d)"
  have pass: "(if \<not> ok then s' = s\<lparr>cs_health := h2, cs_refused := True, cs_ordered := drop_account (sa_id c) (cs_ordered s)\<rparr>
     else (cs_progress s' = ?p \<and> cs_ordered s' = cs_ordered s \<and> cs_lastFailure s' \<noteq> None \<and> cs_aborted s' = cs_aborted s \<and>
       cs_abandon s' = cs_abandon s \<and> cs_abandoned s' = cs_abandoned s \<and> map_option af_kind (cs_lastFailure s') = Some ClientError \<and>
       (\<exists>row. cs_records s' = cs_records s @ [row])) \<or>
       (\<exists>h a. settle_pass ctx env sv c n r token ob (cs_progress s)
          (s\<lparr>cs_health := h2, cs_progress := ?p\<rparr>\<lparr>cs_health := h, cs_abandon := Some a\<rparr>) = Continue s'))"
    using assms(1) sv cap adm
    by (auto simp: attempt_pass_def client_error_failure_def Let_def split: if_splits body_result.splits)
  show ?thesis
  proof (cases ok)
    case False
    then show ?thesis using pass assms(2-4) by (auto intro!: chain_move.drop)
  next
    case True
    with pass show ?thesis
      using assms(2-4) by (auto dest!: settle_pass_continue intro: chain_move.count chain_move.drop)
  qed
qed

lemma chain_pass_move:
  assumes "chain_pass ctx env s = Continue s'"
  shows "\<exists>h. chain_move ctx (s\<lparr>cs_health := h\<rparr>) s'"
proof -
  let ?s = "s\<lparr>cs_health := fold (health_step (ctx_health ctx)) (env_between env) (cs_health s)\<rparr>"
  have "chain_move ctx ?s s'"
    using assms
    by (auto simp: chain_pass_def Let_def split: if_splits failover_decision.splits
        intro: chain_move.note_abort chain_move.shut elim: attempt_pass_move)
  then show ?thesis ..
qed

section \<open>Every chain ends\<close>

abbreviation attempted :: "chain_state \<Rightarrow> account_id list" where
  "attempted s \<equiv> fp_attemptedAccountIds (cs_progress s)"

definition in_place_cap :: "chain_context \<Rightarrow> nat" where
  "in_place_cap ctx = or_default (fo_maxInPlaceRetries (ctx_failover ctx)) DEFAULT_MAX_IN_PLACE_RETRIES"

definition unattempted :: "chain_state \<Rightarrow> nat" where
  "unattempted s = length (filter (\<lambda>c. sa_id c \<notin> set (attempted s)) (cs_ordered s))"

definition passes_left :: "chain_context \<Rightarrow> chain_state \<Rightarrow> nat" where
  "passes_left ctx s =
     (if cs_aborted s then 0 else 1) + length (cs_ordered s) + unattempted s
     + (in_place_cap ctx - fp_inPlaceRetries (cs_progress s))
     + (overload_cap (ctx_failover ctx) - fp_overloadRetries (cs_progress s))"

text \<open>Nothing is counted before something has failed.\<close>

definition untouched_until_failure :: "chain_state \<Rightarrow> bool" where
  "untouched_until_failure s \<longleftrightarrow> (cs_lastFailure s = None \<longrightarrow> cs_progress s = NO_ATTEMPTS)"

lemma decision_attempt:
  assumes "untouched_until_failure s" "next_decision ctx s = Attempt c n i r"
  shows "c \<in> set (cs_ordered s) \<and> sa_id c \<notin> set (attempted s)"
proof (cases "cs_lastFailure s")
  case None
  then show ?thesis
    using assms
    by (auto simp: untouched_until_failure_def NO_ATTEMPTS_def planNextAttempt_def firstAttempt_def split: list.splits)
next
  case (Some f)
  then show ?thesis using assms(2) by (auto dest!: plan_attempt)
qed

lemma chosen_ordered:
  assumes "untouched_until_failure s" "chosen (next_decision ctx s) = Some c"
  shows "c \<in> set (cs_ordered s)"
  using assms decision_attempt plan_retry by (cases "next_decision ctx s") fastforce+

lemma noteOverload_simps [simp]:
  "fp_attemptedAccountIds (noteOverload p i k) = fp_attemptedAccountIds p"
  "fp_inPlaceRetries (noteOverload p i k) = fp_inPlaceRetries p"
  "fp_overloadRetries (noteOverload p i k) = fp_overloadRetries p"
  "fp_bytesStreamed (noteOverload p i k) = fp_bytesStreamed p"
  by (simp_all add: noteOverload_def)

lemma drop_account_shorter: "c \<in> set cs \<Longrightarrow> length (drop_account (sa_id c) cs) < length cs"
  unfolding drop_account_def by (rule length_filter_less) auto

lemma drop_account_shrinks: "length (drop_account i cs) \<le> length cs"
  by (simp add: drop_account_def)

lemma filter_drop_account: "length (filter P (drop_account i cs)) \<le> length (filter P cs)"
  by (induction cs) (simp_all add: drop_account_def)

text \<open>What counting an attempt does to the measure's parts.\<close>

lemma count_fresh:
  fixes cs :: "candidate list"
  assumes "c \<in> set cs" "sa_id c \<notin> set ids"
  shows "length (filter (\<lambda>c'. sa_id c' \<notin> set (ids @ [sa_id c])) cs) < length (filter (\<lambda>c'. sa_id c' \<notin> set ids) cs)"
proof -
  let ?fresh = "filter (\<lambda>c'. sa_id c' \<notin> set ids) cs"
  have "filter (\<lambda>c'. sa_id c' \<notin> set (ids @ [sa_id c])) cs = drop_account (sa_id c) ?fresh"
    unfolding drop_account_def filter_filter by (rule filter_cong) auto
  moreover have "length (drop_account (sa_id c) ?fresh) < length ?fresh"
    using assms by (intro drop_account_shorter) simp
  ultimately show ?thesis by simp
qed

definition budgets_left :: "chain_context \<Rightarrow> failover_progress \<Rightarrow> candidate list \<Rightarrow> nat" where
  "budgets_left ctx p cs =
     length (filter (\<lambda>c. sa_id c \<notin> set (fp_attemptedAccountIds p)) cs)
     + (in_place_cap ctx - fp_inPlaceRetries p) + (overload_cap (ctx_failover ctx) - fp_overloadRetries p)"

lemma passes_left_budgets:
  "passes_left ctx s = (if cs_aborted s then 0 else 1) + length (cs_ordered s) + budgets_left ctx (cs_progress s) (cs_ordered s)"
  by (simp add: passes_left_def budgets_left_def unattempted_def)

lemma budgets_left_drop: "budgets_left ctx p (drop_account i cs) \<le> budgets_left ctx p cs"
  using filter_drop_account [of _ i cs] by (simp add: budgets_left_def)

lemma budgets_left_note [simp]: "budgets_left ctx (noteOverload p i k) cs = budgets_left ctx p cs"
  by (simp add: budgets_left_def)

lemma budgets_left_count:
  assumes "untouched_until_failure s" "chosen (next_decision ctx s) = Some c"
  shows "budgets_left ctx (recordAttempt (cs_progress s) (sa_id c) (inPlaceReason (next_decision ctx s))) (cs_ordered s)
     < budgets_left ctx (cs_progress s) (cs_ordered s)"
proof (cases "next_decision ctx s")
  case (Attempt c' n i r)
  then show ?thesis
    using assms decision_attempt [OF assms(1) Attempt] count_fresh [of c "cs_ordered s" "attempted s"]
    by (simp add: budgets_left_def recordAttempt_def inPlaceReason_def)
next
  case (RetryInPlace c' n d)
  then show ?thesis
    using plan_retry [OF RetryInPlace]
    by (cases d) (auto simp: budgets_left_def recordAttempt_def inPlaceReason_def in_place_cap_def)
qed (use assms in auto)

lemma run_abandon_simps [simp]:
  "cs_ordered (run_abandon s) = cs_ordered s" "cs_progress (run_abandon s) = cs_progress s"
  "cs_lastFailure (run_abandon s) = cs_lastFailure s" "cs_abandoned (run_abandon s)" "cs_abandon (run_abandon s) = cs_abandon s"
  by (simp_all add: run_abandon_def split: option.splits)

lemma move_untouched: "chain_move ctx s s' \<Longrightarrow> untouched_until_failure s \<Longrightarrow> untouched_until_failure s'"
  by (cases rule: chain_move.cases) (auto simp: untouched_until_failure_def)

lemma move_shrinks:
  assumes "chain_move ctx s s'" "untouched_until_failure s"
  shows "passes_left ctx s' < passes_left ctx s"
  using assms(1)
proof cases
  case note_abort
  then show ?thesis by (simp add: passes_left_budgets)
next
  case (shut c n d)
  then show ?thesis by (simp add: passes_left_budgets)
next
  case (drop c)
  then show ?thesis
    using drop_account_shorter [OF chosen_ordered [OF assms(2) drop(1)]]
      budgets_left_drop [of ctx "cs_progress s" "sa_id c" "cs_ordered s"]
    by (simp add: passes_left_budgets)
next
  case (count c p k row)
  have "budgets_left ctx (cs_progress s') (cs_ordered s') \<le> budgets_left ctx p (cs_ordered s)"
    using count(5,6) budgets_left_drop [of ctx p "sa_id c" "cs_ordered s"] by auto
  also have "\<dots> < budgets_left ctx (cs_progress s) (cs_ordered s)"
    unfolding count(4) by (rule budgets_left_count [OF assms(2) count(1)])
  finally show ?thesis
    using count(3,6) drop_account_shrinks [of "sa_id c" "cs_ordered s"] by (auto simp: passes_left_budgets)
qed

lemma pass_shrinks:
  assumes "chain_pass ctx env s = Continue s'" "untouched_until_failure s"
  shows "untouched_until_failure s' \<and> passes_left ctx s' < passes_left ctx s"
proof -
  obtain h where move: "chain_move ctx (s\<lparr>cs_health := h\<rparr>) s'" using chain_pass_move [OF assms(1)] ..
  have "untouched_until_failure (s\<lparr>cs_health := h\<rparr>)" using assms(2) by (simp add: untouched_until_failure_def)
  with move_untouched [OF move] move_shrinks [OF move] show ?thesis
    by (simp add: passes_left_budgets)
qed

lemma chain_loop_finishes:
  assumes "untouched_until_failure s" "passes_left ctx s < fuel"
  shows "\<exists>r s'. chain_loop fuel ctx envs n s = Some (r, s')"
  using assms
proof (induction fuel arbitrary: n s)
  case (Suc fuel)
  show ?case
  proof (cases "chain_pass ctx (envs n) s")
    case (Continue s')
    then have "untouched_until_failure s'" "passes_left ctx s' < fuel"
      using pass_shrinks [OF Continue Suc.prems(1)] Suc.prems(2) by auto
    then show ?thesis using Suc.IH Continue by simp
  qed simp
qed simp

lemma start_untouched: "untouched_until_failure (chain_start ctx h)"
  by (simp add: untouched_until_failure_def chain_start_def NO_ATTEMPTS_def)

lemma start_fuel: "passes_left ctx (chain_start ctx h) < chain_fuel ctx"
  by (simp add: passes_left_def unattempted_def chain_start_def NO_ATTEMPTS_def chain_fuel_def in_place_cap_def)

text \<open>
  (C2) Every request gets an answer: whatever the transports, the client, the clock, the probes and the
  other requests do, the failover loop ends, after at most twice the planned accounts plus the two
  in-place budgets plus two passes.
\<close>

theorem chain_always_answers: "\<exists>r s. runChain ctx envs h = Some (r, s)"
  unfolding runChain_def by (rule chain_loop_finishes [OF start_untouched start_fuel])

section \<open>Bounded failover\<close>

definition plan_ids :: "chain_context \<Rightarrow> account_id set" where
  "plan_ids ctx = (\<lambda>sv. sa_id (sv_candidate sv)) ` set (ctx_plan ctx)"

text \<open>How many times the chain has gone out: accounts tried, plus the waits and replays in place.\<close>

definition counted :: "failover_progress \<Rightarrow> nat" where
  "counted p = length (fp_attemptedAccountIds p) + fp_inPlaceRetries p + fp_overloadRetries p"

definition progress_ok :: "chain_context \<Rightarrow> failover_progress \<Rightarrow> bool" where
  "progress_ok ctx p \<longleftrightarrow>
     distinct (fp_attemptedAccountIds p) \<and> set (fp_attemptedAccountIds p) \<subseteq> plan_ids ctx \<and>
     length (fp_attemptedAccountIds p) \<le> attemptCeiling (length (ctx_plan ctx)) (ctx_failover ctx) \<and>
     fp_inPlaceRetries p \<le> in_place_cap ctx \<and> fp_overloadRetries p \<le> overload_cap (ctx_failover ctx)"

text \<open>A wait is only ever planned after an attempt that installed its callback.\<close>

definition callback_known :: "chain_state \<Rightarrow> bool" where
  "callback_known s \<longleftrightarrow>
     (cs_abandon s = None \<longrightarrow> fp_overloadedAccountId (cs_progress s) = None \<and>
        (\<forall>f. cs_lastFailure s = Some f \<longrightarrow> af_kind f = ClientError))"

definition chain_ok :: "chain_context \<Rightarrow> chain_state \<Rightarrow> bool" where
  "chain_ok ctx s \<longleftrightarrow>
     untouched_until_failure s \<and> progress_ok ctx (cs_progress s) \<and> distinct (map sa_id (cs_ordered s)) \<and>
     sa_id ` set (cs_ordered s) \<subseteq> plan_ids ctx \<and> callback_known s \<and> (cs_abandoned s \<longrightarrow> cs_aborted s) \<and>
     length (cs_records s) = counted (cs_progress s) + (if cs_abandoned s then 1 else 0)"

lemma attemptCeiling_mono: "m \<le> n \<Longrightarrow> attemptCeiling m opts \<le> attemptCeiling n opts"
  by (auto simp: attemptCeiling_def split: option.splits)

lemma attemptCeiling_pos: "0 < n \<Longrightarrow> 0 < attemptCeiling n opts"
  by (auto simp: attemptCeiling_def split: option.splits)

lemma plannedCount_le:
  assumes "distinct (map sa_id ordered)" "sa_id ` set ordered \<subseteq> plan_ids ctx"
    and "set (fp_attemptedAccountIds p) \<subseteq> plan_ids ctx"
  shows "plannedCount ordered p \<le> length (ctx_plan ctx)"
proof -
  let ?gone = "js_unique (filter (\<lambda>i. i \<notin> sa_id ` set ordered) (fp_attemptedAccountIds p))"
  have "distinct (map sa_id ordered @ ?gone)" using assms(1) by auto
  then have "length (map sa_id ordered @ ?gone) = card (set (map sa_id ordered @ ?gone))"
    by (rule distinct_card [symmetric])
  also have "\<dots> \<le> card (plan_ids ctx)" using assms(2,3) by (intro card_mono) (auto simp: plan_ids_def)
  also have "\<dots> \<le> length (ctx_plan ctx)"
    unfolding plan_ids_def using card_image_le card_length le_trans by blast
  finally show ?thesis by (simp add: plannedCount_def Let_def)
qed

lemma count_ok:
  assumes "chain_ok ctx s" "chosen (next_decision ctx s) = Some c"
  shows "progress_ok ctx (recordAttempt (cs_progress s) (sa_id c) (inPlaceReason (next_decision ctx s)))"
proof (cases "next_decision ctx s")
  case (Attempt c' n i r)
  have c: "c \<in> set (cs_ordered s)" "sa_id c \<notin> set (attempted s)"
    using decision_attempt [OF _ Attempt] assms Attempt by (auto simp: chain_ok_def)
  have plan: "sa_id c \<in> plan_ids ctx" using c assms(1) by (auto simp: chain_ok_def)
  have "length (attempted s) < attemptCeiling (length (ctx_plan ctx)) (ctx_failover ctx)"
  proof (cases "cs_lastFailure s")
    case None
    have "0 < length (ctx_plan ctx)" using plan by (auto simp: plan_ids_def)
    then show ?thesis
      using None assms(1) attemptCeiling_pos by (simp add: chain_ok_def untouched_until_failure_def NO_ATTEMPTS_def)
  next
    case (Some f)
    have "plannedCount (cs_ordered s) (cs_progress s) \<le> length (ctx_plan ctx)"
      using assms(1) by (intro plannedCount_le) (auto simp: chain_ok_def progress_ok_def)
    then have "attemptCeiling (plannedCount (cs_ordered s) (cs_progress s)) (ctx_failover ctx)
        \<le> attemptCeiling (length (ctx_plan ctx)) (ctx_failover ctx)" by (rule attemptCeiling_mono)
    moreover have "planNextAttempt (cs_ordered s) (cs_progress s) (Some f) (ctx_failover ctx) = Attempt c' n i r"
      using Attempt Some by simp
    ultimately show ?thesis using plan_attempt by fastforce
  qed
  then show ?thesis
    using assms(1) c plan Attempt by (simp add: chain_ok_def progress_ok_def recordAttempt_def inPlaceReason_def)
next
  case (RetryInPlace c' n d)
  then show ?thesis
    using assms(1) plan_retry [OF RetryInPlace]
    by (cases d)
      (auto simp: chain_ok_def progress_ok_def recordAttempt_def inPlaceReason_def in_place_cap_def)
qed (use assms in auto)

lemma counted_count: "counted (recordAttempt p i r) = Suc (counted p)"
  by (simp add: counted_def recordAttempt_def split: option.splits in_place_reason.splits)

lemma note_ok [simp]: "progress_ok ctx (noteOverload p i k) = progress_ok ctx p" "counted (noteOverload p i k) = counted p"
  by (simp_all add: progress_ok_def counted_def)

lemma set_drop_account [simp]: "set (drop_account i cs) = {c \<in> set cs. sa_id c \<noteq> i}"
  by (simp add: drop_account_def)

lemma drop_ok:
  "distinct (map sa_id cs) \<Longrightarrow> distinct (map sa_id (drop_account i cs))"
  by (simp add: drop_account_def distinct_map_filter)

lemma wait_after_attempt:
  assumes "callback_known s" "next_decision ctx s = RetryInPlace c n (Some d)"
  shows "cs_abandon s \<noteq> None"
  using assms
  by (auto simp: callback_known_def planNextAttempt_def firstAttempt_def replayInPlace_def waitOutOverload_def attemptOn_def
      isRetryable_def Let_def split: option.splits list.splits if_splits)

lemma move_callback:
  assumes "chain_move ctx s s'" "callback_known s"
  shows "callback_known s'"
  using assms
  by (cases rule: chain_move.cases)
    (auto simp: callback_known_def recordAttempt_def split: option.splits in_place_reason.splits)

lemma move_ok:
  assumes "chain_move ctx s s'" "chain_ok ctx s"
  shows "chain_ok ctx s'"
proof -
  have untouched: "untouched_until_failure s'" and callback: "callback_known s'"
    using assms move_untouched move_callback by (auto simp: chain_ok_def)
  from assms(1) show ?thesis
  proof cases
    case note_abort
    then show ?thesis using assms(2) untouched callback by (simp add: chain_ok_def)
  next
    case (shut c n d)
    obtain a where "cs_abandon s = Some a" using wait_after_attempt [OF _ shut(2)] assms(2) by (auto simp: chain_ok_def)
    then have "length (cs_records s') = Suc (length (cs_records s))" using shut(3) by (simp add: run_abandon_def)
    then show ?thesis using shut(1,3) assms(2) untouched callback by (simp add: chain_ok_def)
  next
    case (drop c)
    then show ?thesis using assms(2) untouched callback drop_ok by (auto simp: chain_ok_def)
  next
    case (count c p k row)
    have "progress_ok ctx p" unfolding count(4) by (rule count_ok [OF assms(2) count(1)])
    moreover have "counted p = Suc (length (cs_records s))"
      using assms(2) count(2) unfolding count(4) by (simp add: counted_count chain_ok_def)
    ultimately show ?thesis
      using count(2,3,5,6,8,9) assms(2) untouched callback drop_ok by (auto simp: chain_ok_def)
  qed
qed

text \<open>
  How the rows of a request stand to the attempts it counted, result by result: an answer leaves one row
  per attempt, a served request one less (the relay writes its row), and so does an end that was thrown
  out of a pending attempt; a shutdown in a pause adds its row; a refusal that tried nothing has one.
\<close>

definition accounted :: "chain_result \<Rightarrow> chain_state \<Rightarrow> bool" where
  "accounted r s =
     (let rows = length (cs_records s); went = counted (cs_progress s);
          extra = (if cs_abandoned s then 1 else 0)
      in case r of
           RouterRefusal e \<Rightarrow> rows = went + extra \<or> went = 0 \<and> rows = 1
         | RelayedError u \<Rightarrow> rows = went + extra
         | CancelledBeforeRelay i \<Rightarrow> rows = went
         | ShutDown \<Rightarrow> rows = went
         | ClientGone \<Rightarrow> rows = went + extra \<or> rows + 1 = went
         | _ \<Rightarrow> rows + 1 = went)"

lemma markStreamed_ok [simp]: "progress_ok ctx (markStreamed p) = progress_ok ctx p" "counted (markStreamed p) = counted p"
  by (simp_all add: progress_ok_def counted_def markStreamed_def)

definition answer_ok :: "chain_context \<Rightarrow> chain_result \<Rightarrow> chain_state \<Rightarrow> bool" where
  "answer_ok ctx r s \<longleftrightarrow> progress_ok ctx (cs_progress s) \<and> accounted r s"

lemma counted_untouched: "chain_ok ctx s \<Longrightarrow> cs_lastFailure s = None \<Longrightarrow> counted (cs_progress s) = 0"
  by (simp add: chain_ok_def untouched_until_failure_def NO_ATTEMPTS_def counted_def)

lemma finishChain_ok:
  assumes "finishChain ctx now s = Finish r s'" "chain_ok ctx s"
  shows "answer_ok ctx r s'"
  using assms counted_untouched [OF assms(2)]
  by (auto simp: finishChain_def failIfAny_def answer_ok_def accounted_def chain_ok_def Let_def
      split: option.splits chain_failure.splits if_splits)

text \<open>An end inside a pending attempt: the attempt is counted, its row written or not.\<close>

lemma settle_pass_finish:
  assumes "settle_pass ctx env sv c attempt restart token ob prior s = Finish r s'"
    and "length (cs_records s) + 1 = counted (cs_progress s)" "\<not> cs_abandoned s"
  shows "accounted r s' \<and> (cs_progress s' = cs_progress s \<or> cs_progress s' = markStreamed (cs_progress s))"
  using assms
  by (auto simp: settle_pass_def accounted_def Let_def split: dispatch_result.splits if_splits option.splits)

lemma attempt_pass_ok:
  assumes "attempt_pass ctx env d c n r s = Finish res s'" "next_decision ctx s = d" "chosen d = Some c" "chain_ok ctx s" "\<not> cs_aborted s"
  shows "answer_ok ctx res s'"
proof -
  let ?p = "recordAttempt (cs_progress s) (sa_id c) (inPlaceReason d)"
  have p: "progress_ok ctx ?p" using count_ok [OF assms(4), of c] assms(2,3) by simp
  have open': "length (cs_records s) + 1 = counted ?p" "\<not> cs_abandoned s"
    using assms(4,5) by (auto simp: counted_count chain_ok_def)
  have "(\<exists>now. finishChain ctx now s = Finish res s') \<or>
      (\<exists>h. res = UnexpectedThrow \<and> s' = s\<lparr>cs_progress := ?p, cs_health := h\<rparr>) \<or>
      (\<exists>sv token ob h a. settle_pass ctx env sv c n r token ob (cs_progress s)
          (s\<lparr>cs_progress := ?p, cs_health := h, cs_abandon := Some a\<rparr>) = Finish res s')"
    using assms(1)
    by (auto simp: attempt_pass_def Let_def case_prod_beta split: option.splits if_splits body_result.splits)
  then show ?thesis
    using p open' finishChain_ok [OF _ assms(4)] settle_pass_finish
    by (fastforce simp: answer_ok_def accounted_def [of UnexpectedThrow])
qed

lemma chain_ok_health [simp]: "chain_ok ctx (s\<lparr>cs_health := h\<rparr>) = chain_ok ctx s"
  by (simp add: chain_ok_def untouched_until_failure_def callback_known_def)

lemma chain_pass_ok:
  assumes "chain_ok ctx s"
  shows "(case chain_pass ctx env s of Continue s' \<Rightarrow> chain_ok ctx s' | Finish r s' \<Rightarrow> answer_ok ctx r s')"
proof (cases "chain_pass ctx env s")
  case (Continue s')
  then show ?thesis using chain_pass_move [OF Continue] move_ok assms by fastforce
next
  case (Finish r s')
  let ?s = "s\<lparr>cs_health := fold (health_step (ctx_health ctx)) (env_between env) (cs_health s)\<rparr>"
  have ok: "chain_ok ctx ?s" using assms by simp
  have "answer_ok ctx r s'"
    using Finish ok assms
    by (auto simp: chain_pass_def Let_def answer_ok_def [where r = ClientGone] accounted_def [of ClientGone]
        split: if_splits failover_decision.splits dest: finishChain_ok elim!: attempt_pass_ok simp: chain_ok_def)
  then show ?thesis using Finish by simp
qed

lemma chain_loop_ok:
  "chain_ok ctx s \<Longrightarrow> chain_loop fuel ctx envs n s = Some (r, s') \<Longrightarrow> answer_ok ctx r s'"
proof (induction fuel arbitrary: n s)
  case (Suc fuel)
  then show ?case using chain_pass_ok [OF Suc.prems(1), of "envs n"] by (auto split: chain_step.splits)
qed simp

lemma chain_start_ok:
  assumes "distinct (map (\<lambda>sv. sa_id (sv_candidate sv)) (ctx_plan ctx))"
  shows "chain_ok ctx (chain_start ctx h)"
  using assms start_untouched [of ctx h]
  by (auto simp: chain_ok_def chain_start_def progress_ok_def NO_ATTEMPTS_def counted_def plan_ids_def comp_def callback_known_def)

text \<open>
  (C3) Failover is bounded and accounted for. Over a plan that names each account once, whatever the
  transports, the client and a shutdown do: no account is tried twice outside the in-place budgets, only
  planned accounts are tried, at most as many as the attempt ceiling allows, stale-session replays and
  overload waits stay within their own budgets. And the usage rows written match the attempts counted for
  every way the request can end: one row each when it is answered with an error, cancelled before the
  relay, aborted between attempts or shut down in an attempt; one row less when it is served (the relay writes that one) or when an
  abort or a fault is thrown out of the pending attempt; a shutdown during a pause adds one more, and a
  refusal that tried nothing writes one or none.
\<close>

theorem failover_is_bounded:
  assumes "distinct (map (\<lambda>sv. sa_id (sv_candidate sv)) (ctx_plan ctx))" and "runChain ctx envs h = Some (r, s)"
  shows "distinct (attempted s) \<and> set (attempted s) \<subseteq> plan_ids ctx \<and>
    length (attempted s) \<le> attemptCeiling (length (ctx_plan ctx)) (ctx_failover ctx) \<and>
    fp_inPlaceRetries (cs_progress s) \<le> in_place_cap ctx \<and>
    fp_overloadRetries (cs_progress s) \<le> overload_cap (ctx_failover ctx) \<and> accounted r s"
proof -
  have "answer_ok ctx r s"
    using assms(2) unfolding runChain_def by (rule chain_loop_ok [OF chain_start_ok [OF assms(1)]])
  then show ?thesis by (simp add: answer_ok_def progress_ok_def)
qed

section \<open>Nothing is left behind\<close>

text \<open>
  Relative to the accounts \<open>A\<close>: not an operation that opens or closes an attempt, takes a hold or deletes
  the state of one of them.
\<close>

fun quiet :: "account_id set \<Rightarrow> health_event \<Rightarrow> bool" where
  "quiet A (Begin i) = (i \<notin> A)"
| "quiet A (End i n) = (i \<notin> A)"
| "quiet A (Admit i now) = (i \<notin> A)"
| "quiet A (Reset i) = (i \<notin> A)"
| "quiet A e = True"

text \<open>
  On the accounts \<open>A\<close>, against a store \<open>h0\<close>, the only things taken are an attempt in flight on \<open>i\<close> (when \<open>open\<close>) and the hold
  of \<open>i\<close> under the token.
\<close>

definition took :: "account_id set \<Rightarrow> health_store \<Rightarrow> account_id \<Rightarrow> nat option \<Rightarrow> bool \<Rightarrow> health_store \<Rightarrow> bool" where
  "took A h0 i token running h \<longleftrightarrow>
     (\<forall>a \<in> A. hs_inFlight (stateOf h a) = hs_inFlight (stateOf h0 a) + (if a = i \<and> running then 1 else 0)) \<and>
     (\<forall>a \<in> A. \<forall>t. map_get (st_probeTokens h) a = Some t \<longrightarrow>
        (if a = i \<and> token \<noteq> None then token = Some t else map_get (st_probeTokens h0) a = Some t))"

abbreviation balanced :: "account_id set \<Rightarrow> health_store \<Rightarrow> health_store \<Rightarrow> bool" where
  "balanced A h0 h \<equiv> took A h0 [] None False h"

lemma took_nothing: "took A h0 i None False h = balanced A h0 h"
  by (simp add: took_def)

lemma foldRateLimit_inFlight [simp]: "hs_inFlight (foldRateLimit s sig now opts age) = hs_inFlight s"
  by (simp add: foldRateLimit_def Let_def)

lemma recoverHealth_inFlight: "recoverHealth s kind facts = Some s' \<Longrightarrow> hs_inFlight s' = hs_inFlight s"
  by (auto simp: recoverHealth_def Let_def split: if_splits)

lemma quiet_inFlight: "quiet A e \<Longrightarrow> a \<in> A \<Longrightarrow> hs_inFlight (stateOf (health_step opts e h) a) = hs_inFlight (stateOf h a)"
  by (cases e)
    (auto simp: health_op_defs Let_def case_prod_beta dest!: recoverHealth_inFlight split: option.splits)

lemma quiet_tokens:
  "quiet A e \<Longrightarrow> a \<in> A \<Longrightarrow> map_get (st_probeTokens (health_step opts e h)) a = Some t \<Longrightarrow> map_get (st_probeTokens h) a = Some t"
  by (cases e)
    (auto simp: health_op_defs Let_def case_prod_beta split: option.splits if_splits)

lemma took_quiet: "quiet A e \<Longrightarrow> took A h0 i token running h \<Longrightarrow> took A h0 i token running (health_step opts e h)"
  unfolding took_def using quiet_inFlight quiet_tokens by metis

interpretation others: kept_machine "health_step opts" "quiet A" "took A h0 i token running" for opts A h0 i token running
  by unfold_locales (rule took_quiet)

lemma took_capture: "captureAttempt i facts h = (ob, h') \<Longrightarrow> took A h0 a token running h \<Longrightarrow> took A h0 a token running h'"
  using took_quiet [of A "Capture i facts" h0 a token running h undefined] by simp

lemma took_admit:
  assumes "admitHalfOpenProbe opts c now h = (ok, token, h')" "balanced A h0 h"
  shows "took A h0 (sa_id c) token False h'"
  using assms
  by (auto simp: admitHalfOpenProbe_def admitProbe_def took_def Let_def ADMITTED_WITHOUT_HOLD_def REFUSED_def
      split: if_splits)

lemma took_begin: "took A h0 i token False h \<Longrightarrow> took A h0 i token True (beginAttempt i h)"
  by (simp add: took_def beginAttempt_def)

lemma took_end: "took A h0 i token True h \<Longrightarrow> took A h0 i token False (endAttempt i 0 h)"
  by (simp add: took_def endAttempt_def Let_def)

lemma took_end_attempt: "took A h0 i token b h \<Longrightarrow> took A h0 i token False (end_attempt b i h)"
  using took_end [of A h0 i token h] by (cases b) (simp_all add: end_attempt_def)

lemma releaseProbe_inFlight [simp]: "hs_inFlight (stateOf (releaseProbe i t h) a) = hs_inFlight (stateOf h a)"
  using quiet_inFlight [of "{a}" "Release i t" a undefined h] by simp

lemma releaseProbe_tokens [simp]:
  "map_get (st_probeTokens (releaseProbe i (Some t) h)) a =
     (if a = i \<and> map_get (st_probeTokens h) i = Some t then None else map_get (st_probeTokens h) a)"
  by (simp add: releaseProbe_def Let_def)

lemma took_release:
  assumes "took A h0 i token running h"
  shows "took A h0 i None running (release_probe i token h)"
proof (cases token)
  case None
  then show ?thesis using assms by (simp add: release_probe_def)
next
  case (Some t)
  have "map_get (st_probeTokens h0) a = Some t'" if "a \<in> A" "map_get (st_probeTokens (release_probe i token h)) a = Some t'" for a t'
  proof -
    have here: "map_get (st_probeTokens h) a = Some t'" "a = i \<Longrightarrow> map_get (st_probeTokens h) i \<noteq> Some t"
      using that Some by (auto simp: release_probe_def split: if_splits)
    then have "if a = i \<and> token \<noteq> None then token = Some t' else map_get (st_probeTokens h0) a = Some t'"
      using assms that(1) unfolding took_def by blast
    then show ?thesis using here Some by (simp split: if_splits)
  qed
  moreover have "hs_inFlight (stateOf (release_probe i token h) a) = hs_inFlight (stateOf h a)" for a
    using Some by (simp add: release_probe_def)
  ultimately show ?thesis using assms by (simp add: took_def)
qed

lemma took_closed: "took A h0 i token b h \<Longrightarrow> balanced A h0 (release_probe i token (end_attempt b i h))"
  by (rule took_nothing [THEN iffD1], rule took_release, rule took_end_attempt)

lemma balanced_abandon: "balanced A h0 (cs_health s) \<Longrightarrow> balanced A h0 (cs_health (run_abandon s))"
  by (auto simp: run_abandon_def took_def release_probe_def split: option.splits)

lemma took_verdicts:
  assumes "took A h0 i token running h"
  shows "took A h0 i token running (store_recordSuccess a ob h)"
    and "took A h0 i token running (store_recordFailure opts a f now caller jitter ob h)"
    and "took A h0 i token running (applyRateLimit opts a sig now jitter ob h)"
  using took_quiet [OF _ assms, of "Success a ob" opts] took_quiet [OF _ assms, of "Failure a f now caller jitter ob" opts]
    took_quiet [OF _ assms, of "Reading a sig now jitter ob" opts]
  by simp_all

lemma took_recordChainFailure:
  "took A h0 i token running (cs_health s) \<Longrightarrow> took A h0 i token running (cs_health (recordChainFailure ctx env sv c f rl ob s))"
  by (simp add: recordChainFailure_def Let_def took_verdicts)

text \<open>
  What a result leaves in the store: a served request hands its open attempt and its hold to the relay,
  a cancellation before the upstream call keeps its hold, every other end gives everything back.
\<close>

definition given_back :: "account_id set \<Rightarrow> health_store \<Rightarrow> chain_result \<Rightarrow> chain_state \<Rightarrow> bool" where
  "given_back A h0 r s \<longleftrightarrow>
     (case r of
        Served c _ _ \<Rightarrow> \<exists>token. took A h0 (sa_id c) token True (cs_health s)
      | CancelledUnstarted i \<Rightarrow> \<exists>token. took A h0 i token False (cs_health s)
      | _ \<Rightarrow> balanced A h0 (cs_health s))"

definition pass_given_back :: "account_id set \<Rightarrow> health_store \<Rightarrow> chain_state chain_step \<Rightarrow> bool" where
  "pass_given_back A h0 p \<longleftrightarrow>
     (case p of Continue s \<Rightarrow> balanced A h0 (cs_health s) | Finish r s \<Rightarrow> given_back A h0 r s)"

lemma settle_pass_gives_back:
  assumes "took A h0 (sa_id c) token (env_started env) (cs_health s)"
  shows "pass_given_back A h0 (settle_pass ctx env sv c attempt restart token ob prior s)"
proof -
  have answered: "took A h0 (sa_id c) token True (cs_health (if env_started env then s else on_health (beginAttempt (sa_id c)) s))"
    using assms took_begin [of A h0 "sa_id c" token "cs_health s"] by (cases "env_started env") simp_all
  note facts = took_closed [OF assms] took_closed [OF took_recordChainFailure [OF assms]] assms
    took_closed [OF answered, unfolded end_attempt_def, simplified] took_verdicts [OF answered]
  show ?thesis
    using facts answered
    by (auto simp: pass_given_back_def given_back_def settle_pass_def Let_def finishFailedAttempt_def
        intro!: exI [of _ token] split: dispatch_result.splits option.splits if_splits)
qed

definition env_quiet :: "account_id set \<Rightarrow> chain_env \<Rightarrow> bool" where
  "env_quiet A env \<longleftrightarrow>
     list_all (quiet A) (env_between env) \<and> list_all (quiet A) (env_preparing env) \<and> list_all (quiet A) (env_waiting env)"

lemma finishChain_gives_back: "balanced A h0 (cs_health s) \<Longrightarrow> pass_given_back A h0 (finishChain ctx now s)"
  by (auto simp: pass_given_back_def given_back_def finishChain_def failIfAny_def Let_def
      split: option.splits chain_failure.splits)

lemma attempt_pass_gives_back:
  assumes "balanced A h0 (cs_health s)" "env_quiet A env"
  shows "pass_given_back A h0 (attempt_pass ctx env d c n r s)"
proof (cases "find_servable (ctx_plan ctx) (sa_id c)")
  case None
  then show ?thesis using finishChain_gives_back [OF assms(1)] by (simp add: attempt_pass_def)
next
  case (Some sv)
  obtain ob h1 where cap: "captureAttempt (sa_id c) (sv_facts sv) (cs_health s) = (ob, h1)" by fastforce
  obtain ok token h2 where adm: "admitHalfOpenProbe (ctx_health ctx) c (env_now env) h1 = (ok, token, h2)"
    by (cases "admitHalfOpenProbe (ctx_health ctx) c (env_now env) h1") auto
  have h2: "took A h0 (sa_id c) token False h2" by (rule took_admit [OF adm took_capture [OF cap assms(1)]])
  have refused: "\<not> ok \<Longrightarrow> token = None"
    using adm by (auto simp: admitHalfOpenProbe_def admitProbe_def Let_def REFUSED_def ADMITTED_WITHOUT_HOLD_def split: if_splits)
  have released: "balanced A h0 (release_probe (sa_id c) token h2)"
    using took_closed [of A h0 "sa_id c" token False h2] h2 by (simp add: end_attempt_def)
  let ?h3 = "fold (health_step (ctx_health ctx)) (env_preparing env) h2"
  have "took A h0 (sa_id c) token False ?h3" using assms(2) h2 by (intro others.run_kept) (simp_all add: env_quiet_def)
  then have "took A h0 (sa_id c) token (env_started env) (if env_started env then beginAttempt (sa_id c) ?h3 else ?h3)"
    using took_begin by (cases "env_started env") simp_all
  then have h4: "took A h0 (sa_id c) token (env_started env)
      (fold (health_step (ctx_health ctx)) (env_waiting env) (if env_started env then beginAttempt (sa_id c) ?h3 else ?h3))"
    using assms(2) by (intro others.run_kept) (simp_all add: env_quiet_def)
  show ?thesis
    using Some cap adm refused released settle_pass_gives_back [of A h0 c token env] h4 h2
    by (auto simp: attempt_pass_def Let_def pass_given_back_def [of A h0 "Continue _"] release_probe_def [of _ None]
        pass_given_back_def [of A h0 "Finish UnexpectedThrow _"] given_back_def [of A h0 UnexpectedThrow] split: body_result.splits)
qed

lemma chain_pass_gives_back:
  assumes "balanced A h0 (cs_health s)" "env_quiet A env"
  shows "pass_given_back A h0 (chain_pass ctx env s)"
proof -
  let ?s = "s\<lparr>cs_health := fold (health_step (ctx_health ctx)) (env_between env) (cs_health s)\<rparr>"
  have s: "balanced A h0 (cs_health ?s)"
    using assms by (simp, intro others.run_kept) (simp_all add: env_quiet_def)
  show ?thesis
    using finishChain_gives_back [OF s] attempt_pass_gives_back [OF s assms(2)] s balanced_abandon [OF s]
    by (auto simp: chain_pass_def Let_def pass_given_back_def [of A h0 "Continue _"]
        pass_given_back_def [of A h0 "Finish ClientGone _"] given_back_def [of A h0 ClientGone] split: failover_decision.splits)
qed

lemma chain_loop_gives_back:
  "balanced A h0 (cs_health s) \<Longrightarrow> \<forall>n. env_quiet A (envs n) \<Longrightarrow> chain_loop fuel ctx envs n s = Some (r, s') \<Longrightarrow> given_back A h0 r s'"
proof (induction fuel arbitrary: n s)
  case (Suc fuel)
  then show ?case
    using chain_pass_gives_back [OF Suc.prems(1), of "envs n" ctx]
    by (auto simp: pass_given_back_def split: chain_step.splits)
qed simp

text \<open>
  (C9) A request gives back what it took. Watch any set of accounts, on which the other requests may report
  verdicts, readings, releases and catalog changes while this one runs, but begin or end no attempt, ask
  for no probe and reset nothing; on the other accounts anything happens. When the request has ended,
  however it ended, every watched account has as many attempts in flight as before, one more only where
  the request is being served; and every half-open probe held is one that was held before, except the
  one handed to the relay of a served request and the one of an account whose preparation the client
  cancelled before the upstream call.
\<close>

theorem chain_gives_back_what_it_took:
  assumes "runChain ctx envs h = Some (r, s)" and "\<forall>n. env_quiet A (envs n)" and "a \<in> A"
  shows "hs_inFlight (stateOf (cs_health s) a) =
      hs_inFlight (stateOf h a) + (case r of Served c _ _ \<Rightarrow> if a = sa_id c then 1 else 0 | _ \<Rightarrow> 0) \<and>
    (map_get (st_probeTokens (cs_health s)) a \<in> {None, map_get (st_probeTokens h) a} \<or>
     (case r of Served c _ _ \<Rightarrow> a = sa_id c | CancelledUnstarted i \<Rightarrow> a = i | _ \<Rightarrow> False))"
proof -
  have "balanced A h (cs_health (chain_start ctx h))" by (simp add: took_def chain_start_def)
  then have "given_back A h r s"
    using assms(2) assms(1) [unfolded runChain_def] by (rule chain_loop_gives_back)
  then show ?thesis using assms(3)
    by (cases "map_get (st_probeTokens (cs_health s)) a")
      (auto simp: given_back_def took_def split: chain_result.splits if_splits)
qed

section \<open>Runs of a small chain\<close>

definition demo_servable :: "candidate \<Rightarrow> servable" where
  "demo_servable c = \<lparr>sv_candidate = c, sv_facts = demo_facts 1, sv_authKind = ApiKey, sv_sdk = True\<rparr>"

definition demo_context :: "candidate list \<Rightarrow> chain_context" where
  "demo_context cs =
     \<lparr>ctx_plan = map demo_servable cs,
      ctx_failover = \<lparr>fo_maxAttempts = None, fo_maxInPlaceRetries = None, fo_overloadRetries = None,
                      fo_overloadRetryBaseMs = None, fo_boundAccountId = None\<rparr>,
      ctx_health = demo_options, ctx_recoveryRetryAfterMs = None, ctx_unknownResetRetryAfterSeconds = None,
      ctx_bindingRefused = None\<rparr>"

definition demo_env :: "bool \<Rightarrow> dispatch_result \<Rightarrow> chain_env" where
  "demo_env started outcome =
     \<lparr>env_aborted = False, env_abortedInPause = False, env_shutdownInPause = False, env_between = [], env_now = 6000, env_recovery = None,
      env_body = BodyReady, env_preparing = [], env_started = started, env_waiting = [], env_dispatch = outcome,
      env_shutdown = False, env_abortedAfter = False, env_recoveryStarted = False, env_settledAt = 6001,
      env_jitter = Fin 0, env_readingJitter = Fin 0\<rparr>"

text \<open>The first account answers with a server error, every later one serves.\<close>

definition failing_first :: "nat \<Rightarrow> chain_env" where
  "failing_first n =
     (if n = 0 then demo_env True (Failed (demo_failure ServerError) None None None)
      else demo_env True (Answered 200 None False))"

definition two_accounts :: chain_context where
  "two_accounts = demo_context [plain_candidate ''a'' 0, plain_candidate ''b'' 1]"

lemma two_accounts_served:
  "map_option (\<lambda>(r, s). (case r of Served c n x \<Rightarrow> Some (sa_id c, n) | _ \<Rightarrow> None, attempted s))
     (runChain two_accounts failing_first createHealthStore) = Some (Some (''b'', 2), [''a'', ''b''])"
  by code_simp

lemma two_accounts_distinct: "distinct (map (\<lambda>sv. sa_id (sv_candidate sv)) (ctx_plan two_accounts))"
  by code_simp

theorem failover_is_bounded_witness:
  "\<exists>r s. runChain two_accounts failing_first createHealthStore = Some (r, s) \<and> attempted s = [''a'', ''b''] \<and>
     length (attempted s) \<le> attemptCeiling (length (ctx_plan two_accounts)) (ctx_failover two_accounts)"
proof -
  obtain r s where run: "runChain two_accounts failing_first createHealthStore = Some (r, s)"
      "attempted s = [''a'', ''b'']"
    using two_accounts_served by (cases "runChain two_accounts failing_first createHealthStore") auto
  then show ?thesis using failover_is_bounded [OF two_accounts_distinct run(1)] by blast
qed

theorem chain_gives_back_what_it_took_witness:
  "\<exists>r s. runChain two_accounts failing_first createHealthStore = Some (r, s) \<and>
     hs_inFlight (stateOf (cs_health s) ''a'') = hs_inFlight (stateOf createHealthStore ''a'')"
proof -
  obtain r s where run: "runChain two_accounts failing_first createHealthStore = Some (r, s)"
      "(case r of Served c n x \<Rightarrow> Some (sa_id c, n) | _ \<Rightarrow> None) = Some (''b'', 2)"
    using two_accounts_served by (cases "runChain two_accounts failing_first createHealthStore") auto
  then obtain c n x where r: "r = Served c n x" "sa_id c = ''b''" by (cases r) auto
  have "\<forall>n. env_quiet UNIV (failing_first n)" by (simp add: env_quiet_def failing_first_def demo_env_def)
  then show ?thesis using chain_gives_back_what_it_took [OF run(1), of UNIV "''a''"] r run(1) by auto
qed

section \<open>The end that keeps its hold\<close>




end
