(* ===== verification/Key_Scope.thy ===== *)
theory Key_Scope
  imports Routing_Types Js_Map Breaker
begin

text \<open>
  \<open>scope.ts\<close> of \<open>services/routing\<close>: the groups of accounts a key may use. The array the source passes
  down for ids that resolve to nothing is returned beside the value and concatenated in call order.
\<close>

type_synonym account_map = "(account_id, account_snapshot) js_map"

definition scoped :: "account_snapshot \<Rightarrow> pool_id option \<Rightarrow> nat \<Rightarrow> scoped_account" where
  "scoped a poolId order =
     \<lparr>sa_account = a, sa_poolId = poolId, sa_weight = acc_weight a, sa_priority = acc_priority a,
      sa_order = order\<rparr>"

definition scopedMember :: "pool_membership \<Rightarrow> account_snapshot \<Rightarrow> pool_id \<Rightarrow> nat \<Rightarrow> scoped_account" where
  "scopedMember membership a poolId order =
     \<lparr>sa_account = a, sa_poolId = Some poolId,
      sa_weight = or_default (pm_weight membership) (acc_weight a),
      sa_priority = or_default (pm_priority membership) (acc_priority a), sa_order = order\<rparr>"

definition flatGroup :: "account_snapshot list \<Rightarrow> routing_policy \<Rightarrow> int \<Rightarrow> scope_group" where
  "flatGroup accounts policy rotationCounter =
     \<lparr>sg_poolId = None, sg_poolName = None, sg_policy = policy, sg_rotationCounter = rotationCounter,
      sg_members = map (\<lambda>(order, a). scoped a None order) (enumerate 0 accounts), sg_overflow = None\<rparr>"

fun resolveAccountList :: "account_id list \<Rightarrow> account_map \<Rightarrow> account_snapshot list \<times> string list" where
  "resolveAccountList [] accounts = ([], [])"
| "resolveAccountList (i # is) accounts =
     (let (resolved, unresolved) = resolveAccountList is accounts
      in case map_get accounts i of
           None \<Rightarrow> (resolved, i # unresolved)
         | Some a \<Rightarrow> (a # resolved, unresolved))"

definition resolveOverflow ::
  "pool_snapshot \<Rightarrow> pool_membership option \<Rightarrow> account_map \<Rightarrow> nat \<Rightarrow> scoped_account option \<times> string list" where
  "resolveOverflow pool membership accounts order =
     (case (pool_overflowAccountId pool, membership) of
        (Some overflowId, Some m) \<Rightarrow>
          (case map_get accounts overflowId of
             None \<Rightarrow> (None, [overflowId])
           | Some a \<Rightarrow> (Some (scopedMember m a (pool_id pool) order), []))
      | _ \<Rightarrow> (None, []))"

text \<open>The membership loop: members in order, the last overflow membership, the unresolved ids.\<close>

fun pool_loop ::
  "pool_snapshot \<Rightarrow> account_map \<Rightarrow> pool_membership list \<Rightarrow>
     scoped_account list \<times> pool_membership option \<times> string list \<Rightarrow>
     scoped_account list \<times> pool_membership option \<times> string list" where
  "pool_loop pool accounts [] st = st"
| "pool_loop pool accounts (membership # rest) (members, overflowMembership, unresolved) =
     (if Some (pm_accountId membership) = pool_overflowAccountId pool
      then pool_loop pool accounts rest (members, Some membership, unresolved)
      else case map_get accounts (pm_accountId membership) of
             None \<Rightarrow> pool_loop pool accounts rest (members, overflowMembership, unresolved @ [pm_accountId membership])
           | Some a \<Rightarrow>
               pool_loop pool accounts rest
                 (members @ [scopedMember membership a (pool_id pool) (length members)], overflowMembership, unresolved))"

definition poolGroup :: "pool_snapshot \<Rightarrow> account_map \<Rightarrow> int \<Rightarrow> scope_group \<times> string list" where
  "poolGroup pool accounts fallbackRotation =
     (let (members, overflowMembership, unresolved) = pool_loop pool accounts (pool_members pool) ([], None, []);
          (overflow, unresolved') = resolveOverflow pool overflowMembership accounts (length members)
      in (\<lparr>sg_poolId = Some (pool_id pool), sg_poolName = Some (pool_name pool), sg_policy = pool_policy pool,
           sg_rotationCounter = or_default (pool_rotationCounter pool) fallbackRotation,
           sg_members = members, sg_overflow = overflow\<rparr>,
          unresolved @ unresolved'))"

fun pools_loop ::
  "pool_id list \<Rightarrow> (pool_id, pool_snapshot) js_map \<Rightarrow> account_map \<Rightarrow> int \<Rightarrow> scope_group list \<times> string list" where
  "pools_loop [] pools accounts rotation = ([], [])"
| "pools_loop (p # ps) pools accounts rotation =
     (case map_get pools p of
        None \<Rightarrow> (let (groups, unresolved) = pools_loop ps pools accounts rotation in (groups, p # unresolved))
      | Some pool \<Rightarrow>
          let (g, u) = poolGroup pool accounts rotation;
              (groups, unresolved) = pools_loop ps pools accounts rotation
          in (g # groups, u @ unresolved))"

definition buildGroups ::
  "routing_snapshot \<Rightarrow> selection_request \<Rightarrow> selection_options \<Rightarrow> account_map \<Rightarrow> scope_group list \<times> string list" where
  "buildGroups snapshot request opts accounts =
     (let unpooled = or_default (so_unpooledPolicy opts) DEFAULT_ROUTING_POLICY;
          rotation = or_default (rq_rotationCounter request) 0
      in case rq_keyScope request of
           ScopeAll \<Rightarrow> ([flatGroup (rt_accounts snapshot) unpooled rotation], [])
         | ScopeAccounts ids \<Rightarrow>
             (let (members, unresolved) = resolveAccountList ids accounts
              in ([flatGroup members unpooled rotation], unresolved))
         | ScopePools ids \<Rightarrow>
             pools_loop ids (map_from (map (\<lambda>p. (pool_id p, p)) (rt_pools snapshot))) accounts rotation)"

record scope_resolution =
  sr_groups :: "scope_group list"
  sr_diagnostics :: scope_diagnostics

definition account_index :: "routing_snapshot \<Rightarrow> account_map" where
  "account_index snapshot = map_from (map (\<lambda>a. (acc_id a, a)) (rt_accounts snapshot))"

text \<open>A group's entries: the members, then the account held back for overflow.\<close>

definition group_entries :: "scope_group \<Rightarrow> scoped_account list" where
  "group_entries g = sg_members g @ (case sg_overflow g of None \<Rightarrow> [] | Some m \<Rightarrow> [m])"

definition resolveScope ::
  "routing_snapshot \<Rightarrow> selection_request \<Rightarrow> selection_options \<Rightarrow> scope_resolution" where
  "resolveScope snapshot request opts =
     (let (groups, unresolved) = buildGroups snapshot request opts (account_index snapshot)
      in \<lparr>sr_groups = groups,
          sr_diagnostics =
            \<lparr>sd_scope = rq_keyScope request,
             sd_inScopeAccountIds = js_unique (concat (map (\<lambda>g. map (\<lambda>m. sa_id m) (group_entries g)) groups)),
             sd_unresolvedTargetIds = unresolved\<rparr>\<rparr>)"

definition isInScope :: "scope_resolution \<Rightarrow> account_id \<Rightarrow> bool" where
  "isInScope resolution i \<longleftrightarrow> i \<in> set (sd_inScopeAccountIds (sr_diagnostics resolution))"

section \<open>The specification: pool members intersected with the key's scope\<close>

definition has_account :: "routing_snapshot \<Rightarrow> account_id \<Rightarrow> bool" where
  "has_account snapshot i \<longleftrightarrow> i \<in> acc_id ` set (rt_accounts snapshot)"

definition find_pool :: "routing_snapshot \<Rightarrow> pool_id \<Rightarrow> pool_snapshot option" where
  "find_pool snapshot p = find (\<lambda>q. pool_id q = p) (rev (rt_pools snapshot))"

fun key_admits :: "routing_snapshot \<Rightarrow> key_scope \<Rightarrow> account_id \<Rightarrow> bool" where
  "key_admits snapshot ScopeAll i = has_account snapshot i"
| "key_admits snapshot (ScopeAccounts ids) i = (i \<in> set ids \<and> has_account snapshot i)"
| "key_admits snapshot (ScopePools ps) i =
     (has_account snapshot i \<and>
      (\<exists>p \<in> set ps. \<exists>pool. find_pool snapshot p = Some pool \<and> i \<in> pm_accountId ` set (pool_members pool)))"

lemma index_get:
  "map_get (map_from (map (\<lambda>x. (f x, x)) xs)) k = find (\<lambda>x. f x = k) (rev xs)"
proof -
  have "map_of (map (\<lambda>x. (f x, x)) ys) k = find (\<lambda>x. f x = k) ys" for ys by (induction ys) auto
  then show ?thesis by (simp add: map_get_from rev_map)
qed

lemma account_index_Some:
  "map_get (account_index snapshot) i = Some a \<Longrightarrow> a \<in> set (rt_accounts snapshot) \<and> acc_id a = i"
  by (auto simp: account_index_def index_get dest: find_SomeD)

lemma account_index_None: "map_get (account_index snapshot) i = None \<longleftrightarrow> \<not> has_account snapshot i"
  by (auto simp: account_index_def index_get find_None has_account_def)

definition indexed :: "account_map \<Rightarrow> bool" where
  "indexed accounts \<longleftrightarrow> (\<forall>i a. map_get accounts i = Some a \<longrightarrow> acc_id a = i)"

lemma account_index_indexed: "indexed (account_index snapshot)"
  using account_index_Some by (auto simp: indexed_def)

lemma resolveAccountList_spec:
  assumes "indexed accounts"
  shows "set (map acc_id (fst (resolveAccountList ids accounts))) = {i \<in> set ids. map_get accounts i \<noteq> None}
    \<and> set (snd (resolveAccountList ids accounts)) = {i \<in> set ids. map_get accounts i = None}
    \<and> (\<forall>a \<in> set (fst (resolveAccountList ids accounts)). map_get accounts (acc_id a) = Some a)"
proof (induction ids)
  case (Cons i ids)
  then show ?case
    using assms by (cases "map_get accounts i") (auto simp: Let_def indexed_def split: prod.splits)
qed simp

lemma flatGroup_members: "map sa_account (sg_members (flatGroup as p r)) = as"
  by (simp add: flatGroup_def scoped_def o_def case_prod_unfold)

lemma flatGroup_entries: "map sa_account (group_entries (flatGroup as p r)) = as"
  using flatGroup_members [of as p r] by (simp add: group_entries_def) (simp add: flatGroup_def)

text \<open>
  The loop's invariant: what has been collected comes from the memberships seen, and every
  membership seen is collected, held back or unresolved.
\<close>

definition pool_inv ::
  "pool_snapshot \<Rightarrow> account_map \<Rightarrow> pool_membership list \<Rightarrow>
     scoped_account list \<times> pool_membership option \<times> string list \<Rightarrow> bool" where
  "pool_inv pool accounts seen st =
     (case st of (members, ov, unresolved) \<Rightarrow>
       (\<forall>m \<in> set members. map_get accounts (sa_id m) = Some (sa_account m) \<and> sa_poolId m = Some (pool_id pool)) \<and>
       (\<lambda>m. sa_id m) ` set members =
         {i \<in> pm_accountId ` set seen. Some i \<noteq> pool_overflowAccountId pool \<and> map_get accounts i \<noteq> None} \<and>
       set unresolved =
         {i \<in> pm_accountId ` set seen. Some i \<noteq> pool_overflowAccountId pool \<and> map_get accounts i = None} \<and>
       (ov \<noteq> None \<longleftrightarrow> (\<exists>i \<in> pm_accountId ` set seen. Some i = pool_overflowAccountId pool)))"

lemma pool_loop_inv:
  assumes "indexed accounts" and "pool_inv pool accounts seen st"
  shows "pool_inv pool accounts (seen @ rest) (pool_loop pool accounts rest st)"
  using assms(2)
proof (induction rest arbitrary: seen st)
  case (Cons m rest)
  obtain members ov unresolved where st: "st = (members, ov, unresolved)" by (cases st)
  define st' where "st' =
    (if Some (pm_accountId m) = pool_overflowAccountId pool then (members, Some m, unresolved)
     else case map_get accounts (pm_accountId m) of
            None \<Rightarrow> (members, ov, unresolved @ [pm_accountId m])
          | Some a \<Rightarrow> (members @ [scopedMember m a (pool_id pool) (length members)], ov, unresolved))"
  have step: "pool_loop pool accounts (m # rest) st = pool_loop pool accounts rest st'"
    by (simp add: st st'_def split: option.splits)
  have "pool_inv pool accounts (seen @ [m]) st'"
    using Cons.prems assms(1)
    by (auto simp: pool_inv_def st st'_def scopedMember_def indexed_def split: option.splits if_splits)
  then show ?case using Cons.IH [of "seen @ [m]" st'] step by simp
qed simp

lemma poolGroup_spec:
  assumes ix: "indexed accounts"
  shows "(\<forall>m \<in> set (group_entries (fst (poolGroup pool accounts r))).
            map_get accounts (sa_id m) = Some (sa_account m) \<and> sa_poolId m = Some (pool_id pool)) \<and>
    (\<lambda>m. sa_id m) ` set (group_entries (fst (poolGroup pool accounts r))) =
      {i \<in> pm_accountId ` set (pool_members pool). map_get accounts i \<noteq> None} \<and>
    set (snd (poolGroup pool accounts r)) = {i \<in> pm_accountId ` set (pool_members pool). map_get accounts i = None}"
proof -
  obtain members ov unresolved where
    run: "pool_loop pool accounts (pool_members pool) ([], None, []) = (members, ov, unresolved)"
    by (metis prod_cases3)
  have "pool_inv pool accounts [] ([], None, [])" by (simp add: pool_inv_def)
  then have inv: "pool_inv pool accounts (pool_members pool) (members, ov, unresolved)"
    using pool_loop_inv [OF ix, of pool "[]" "([], None, [])" "pool_members pool"] run by simp
  show ?thesis
  proof (cases "pool_overflowAccountId pool")
    case None
    then show ?thesis
      using inv run by (auto simp: pool_inv_def poolGroup_def resolveOverflow_def group_entries_def)
  next
    case (Some ofl)
    then show ?thesis
      using inv run ix
      by (cases ov; cases "map_get accounts ofl")
        (auto simp: pool_inv_def poolGroup_def resolveOverflow_def group_entries_def scopedMember_def indexed_def)
  qed
qed

lemma pools_loop_fst:
  "fst (pools_loop ps pools accounts r) =
     map (\<lambda>pool. fst (poolGroup pool accounts r)) (List.map_filter (map_get pools) ps)"
  by (induction ps) (auto simp: Let_def map_filter_simps split: option.splits prod.splits)

lemma pools_loop_snd:
  "snd (pools_loop ps pools accounts r) =
     concat (map (\<lambda>p. case map_get pools p of None \<Rightarrow> [p] | Some pool \<Rightarrow> snd (poolGroup pool accounts r)) ps)"
  by (induction ps) (auto simp: Let_def split: option.splits prod.splits)

lemma pools_loop_spec:
  shows "(\<forall>g \<in> set (fst (pools_loop ps pools accounts r)). \<exists>p pool. p \<in> set ps \<and> map_get pools p = Some pool \<and>
            g = fst (poolGroup pool accounts r)) \<and>
    (\<forall>p pool. p \<in> set ps \<longrightarrow> map_get pools p = Some pool \<longrightarrow>
        fst (poolGroup pool accounts r) \<in> set (fst (pools_loop ps pools accounts r)) \<and>
        set (snd (poolGroup pool accounts r)) \<subseteq> set (snd (pools_loop ps pools accounts r))) \<and>
    (\<forall>p. p \<in> set ps \<longrightarrow> map_get pools p = None \<longrightarrow> p \<in> set (snd (pools_loop ps pools accounts r)))"
proof (intro conjI allI impI)
  show "\<forall>g \<in> set (fst (pools_loop ps pools accounts r)). \<exists>p pool. p \<in> set ps \<and> map_get pools p = Some pool \<and>
            g = fst (poolGroup pool accounts r)"
    by (auto simp: pools_loop_fst set_map_filter)
  fix p pool
  assume p: "p \<in> set ps" "map_get pools p = Some pool"
  then show "fst (poolGroup pool accounts r) \<in> set (fst (pools_loop ps pools accounts r))"
    by (force simp: pools_loop_fst set_map_filter)
  show "set (snd (poolGroup pool accounts r)) \<subseteq> set (snd (pools_loop ps pools accounts r))"
    using p by (force simp: pools_loop_snd)
next
  fix p
  assume "p \<in> set ps" "map_get pools p = None"
  then show "p \<in> set (snd (pools_loop ps pools accounts r))" by (force simp: pools_loop_snd)
qed

section \<open>The contract selection relies on\<close>

text \<open>
  Every entry of every group is an account of the snapshot the key admits. Whatever a client of the
  scope picks from the entries is therefore in scope: nothing downstream has to check it again.
\<close>

locale scoped_groups =
  fixes groups :: "scope_group list"
    and known :: "account_snapshot \<Rightarrow> bool"
    and admits :: "account_id \<Rightarrow> bool"
  assumes entries: "g \<in> set groups \<Longrightarrow> m \<in> set (group_entries g) \<Longrightarrow> known (sa_account m) \<and> admits (sa_id m)"
    and complete: "admits i \<Longrightarrow> \<exists>g \<in> set groups. \<exists>m \<in> set (group_entries g). sa_id m = i"
begin

lemma members_admitted: "g \<in> set groups \<Longrightarrow> m \<in> set (sg_members g) \<Longrightarrow> known (sa_account m) \<and> admits (sa_id m)"
  by (rule entries) (auto simp: group_entries_def)

lemma overflow_admitted: "g \<in> set groups \<Longrightarrow> sg_overflow g = Some m \<Longrightarrow> known (sa_account m) \<and> admits (sa_id m)"
  by (rule entries) (auto simp: group_entries_def)

lemma in_scope_iff:
  "i \<in> set (js_unique (concat (map (\<lambda>g. map (\<lambda>m. sa_id m) (group_entries g)) groups))) \<longleftrightarrow> admits i"
  using entries complete by fastforce

end

lemma buildGroups_flat:
  assumes "rq_keyScope request = ScopeAll"
  shows "buildGroups snapshot request opts (account_index snapshot) =
     ([flatGroup (rt_accounts snapshot) (or_default (so_unpooledPolicy opts) DEFAULT_ROUTING_POLICY)
         (or_default (rq_rotationCounter request) 0)], [])"
  using assms by (simp add: buildGroups_def)

lemma flat_entry:
  assumes "m \<in> set (group_entries (flatGroup as p r))"
  shows "sa_account m \<in> set as"
  using assms flatGroup_entries [of as p r] by (metis image_eqI list.set_map)

lemma flat_entry_exists:
  assumes "a \<in> set as"
  shows "\<exists>m \<in> set (group_entries (flatGroup as p r)). sa_account m = a"
  using assms flatGroup_entries [of as p r] by (metis image_iff list.set_map)

lemma pool_index_get: "map_get (map_from (map (\<lambda>p. (pool_id p, p)) (rt_pools snapshot))) p = find_pool snapshot p"
  by (simp add: index_get find_pool_def)

lemma index_known: "map_get (account_index snapshot) i = Some a \<Longrightarrow> has_account snapshot i \<and> a \<in> set (rt_accounts snapshot)"
  using account_index_Some [of snapshot i a] by (auto simp: has_account_def)

lemma poolGroup_entry:
  assumes "m \<in> set (group_entries (fst (poolGroup pool (account_index snapshot) r)))"
  shows "sa_account m \<in> set (rt_accounts snapshot) \<and> has_account snapshot (sa_id m) \<and>
         sa_id m \<in> pm_accountId ` set (pool_members pool)"
proof -
  note spec = poolGroup_spec [OF account_index_indexed, of pool snapshot r]
  have "map_get (account_index snapshot) (sa_id m) = Some (sa_account m)" using assms spec by blast
  then have "has_account snapshot (sa_id m) \<and> sa_account m \<in> set (rt_accounts snapshot)" by (rule index_known)
  moreover have "sa_id m \<in> pm_accountId ` set (pool_members pool)" using assms spec by blast
  ultimately show ?thesis by blast
qed

lemma poolGroup_complete:
  assumes "i \<in> pm_accountId ` set (pool_members pool)" and "has_account snapshot i"
  shows "\<exists>m \<in> set (group_entries (fst (poolGroup pool (account_index snapshot) r))). sa_id m = i"
proof -
  have "map_get (account_index snapshot) i \<noteq> None" using assms(2) by (simp add: account_index_None)
  then have "i \<in> (\<lambda>m. sa_id m) ` set (group_entries (fst (poolGroup pool (account_index snapshot) r)))"
    using poolGroup_spec [OF account_index_indexed, of pool snapshot r] assms(1) by blast
  then show ?thesis by blast
qed

lemma buildGroups_entries:
  assumes "g \<in> set (fst (buildGroups snapshot request opts (account_index snapshot)))"
    and "m \<in> set (group_entries g)"
  shows "sa_account m \<in> set (rt_accounts snapshot) \<and> key_admits snapshot (rq_keyScope request) (sa_id m)"
proof (cases "rq_keyScope request")
  case ScopeAll
  then have "sa_account m \<in> set (rt_accounts snapshot)" using assms by (auto simp: buildGroups_flat flat_entry)
  then show ?thesis using ScopeAll by (simp add: has_account_def)
next
  case (ScopeAccounts ids)
  note spec = resolveAccountList_spec [OF account_index_indexed, of ids snapshot]
  have "sa_account m \<in> set (fst (resolveAccountList ids (account_index snapshot)))"
    using assms ScopeAccounts by (auto simp: buildGroups_def Let_def split: prod.splits dest: flat_entry)
  then have "map_get (account_index snapshot) (sa_id m) = Some (sa_account m)" "sa_id m \<in> set ids"
    using spec by auto
  then show ?thesis using ScopeAccounts index_known by auto
next
  case (ScopePools ps)
  then obtain p pool where p: "p \<in> set ps" "find_pool snapshot p = Some pool"
      "g = fst (poolGroup pool (account_index snapshot) (or_default (rq_rotationCounter request) 0))"
    using assms(1) pools_loop_spec [of ps
        "map_from (map (\<lambda>p. (pool_id p, p)) (rt_pools snapshot))" "account_index snapshot" "or_default (rq_rotationCounter request) 0"]
    by (auto simp: buildGroups_def Let_def pool_index_get)
  have m: "m \<in> set (group_entries (fst (poolGroup pool (account_index snapshot) (or_default (rq_rotationCounter request) 0))))"
    using assms(2) p(3) by simp
  show ?thesis using poolGroup_entry [OF m] p(1,2) ScopePools by auto
qed

lemma buildGroups_complete:
  assumes "key_admits snapshot (rq_keyScope request) i"
  shows "\<exists>g \<in> set (fst (buildGroups snapshot request opts (account_index snapshot))).
           \<exists>m \<in> set (group_entries g). sa_id m = i"
proof (cases "rq_keyScope request")
  case ScopeAll
  then obtain a where "a \<in> set (rt_accounts snapshot)" "acc_id a = i" using assms by (auto simp: has_account_def)
  then show ?thesis using ScopeAll flat_entry_exists by (fastforce simp: buildGroups_flat)
next
  case (ScopeAccounts ids)
  then have "i \<in> set ids" "map_get (account_index snapshot) i \<noteq> None"
    using assms by (simp_all add: account_index_None)
  then have "i \<in> acc_id ` set (fst (resolveAccountList ids (account_index snapshot)))"
    using resolveAccountList_spec [OF account_index_indexed, of ids snapshot] by auto
  then obtain a where "a \<in> set (fst (resolveAccountList ids (account_index snapshot)))" "acc_id a = i" by blast
  then show ?thesis
    using ScopeAccounts flat_entry_exists by (fastforce simp: buildGroups_def Let_def split: prod.splits)
next
  case (ScopePools ps)
  then obtain p pool where p: "p \<in> set ps" "find_pool snapshot p = Some pool"
      "i \<in> pm_accountId ` set (pool_members pool)" "has_account snapshot i"
    using assms by auto
  define r where "r = or_default (rq_rotationCounter request) 0"
  have "fst (poolGroup pool (account_index snapshot) r) \<in> set (fst (buildGroups snapshot request opts (account_index snapshot)))"
    using p(1,2) ScopePools pools_loop_spec [of ps
        "map_from (map (\<lambda>p. (pool_id p, p)) (rt_pools snapshot))" "account_index snapshot" r]
    by (simp add: buildGroups_def Let_def pool_index_get r_def)
  then show ?thesis using poolGroup_complete [OF p(3,4)] by blast
qed

lemma resolveScope_groups:
  "sr_groups (resolveScope snapshot request opts) = fst (buildGroups snapshot request opts (account_index snapshot))"
  by (simp add: resolveScope_def split: prod.splits)

interpretation scope: scoped_groups
  "sr_groups (resolveScope snapshot request opts)"
  "\<lambda>a. a \<in> set (rt_accounts snapshot)"
  "key_admits snapshot (rq_keyScope request)"
  for snapshot request opts
  unfolding resolveScope_groups
  by unfold_locales (use buildGroups_entries buildGroups_complete in blast)+

section \<open>Properties\<close>

text \<open>
  (C21) The scope is exactly the key's: the accounts in scope are the ones the key names (all, the
  listed ids, or the members of the listed pools, the overflow account included only as a member),
  each once, and every entry of every group, its overflow account included, is an account of the
  snapshot that the key names. There is no branch on which a pool, an overflow designation or a stale
  row widens it.
\<close>

theorem resolveScope_exact:
  "distinct (sd_inScopeAccountIds (sr_diagnostics (resolveScope snapshot request opts))) \<and>
   (isInScope (resolveScope snapshot request opts) i \<longleftrightarrow> key_admits snapshot (rq_keyScope request) i) \<and>
   list_all (\<lambda>g. list_all (\<lambda>m. sa_account m \<in> set (rt_accounts snapshot) \<and> key_admits snapshot (rq_keyScope request) (sa_id m))
     (group_entries g)) (sr_groups (resolveScope snapshot request opts))"
proof (intro conjI)
  have ids: "sd_inScopeAccountIds (sr_diagnostics (resolveScope snapshot request opts)) =
      js_unique (concat (map (\<lambda>g. map (\<lambda>m. sa_id m) (group_entries g)) (sr_groups (resolveScope snapshot request opts))))"
    by (simp add: resolveScope_def split: prod.splits)
  show "distinct (sd_inScopeAccountIds (sr_diagnostics (resolveScope snapshot request opts)))" by (simp add: ids)
  show "isInScope (resolveScope snapshot request opts) i \<longleftrightarrow> key_admits snapshot (rq_keyScope request) i"
    unfolding isInScope_def ids by (rule scope.in_scope_iff)
  show "list_all (\<lambda>g. list_all (\<lambda>m. sa_account m \<in> set (rt_accounts snapshot) \<and> key_admits snapshot (rq_keyScope request) (sa_id m))
     (group_entries g)) (sr_groups (resolveScope snapshot request opts))"
    unfolding list_all_iff using scope.entries by blast
qed

text \<open>What a key names: its account ids, or the members of its pools (the pool id of an unknown pool).\<close>

fun scope_targets :: "routing_snapshot \<Rightarrow> key_scope \<Rightarrow> string list" where
  "scope_targets snapshot ScopeAll = map acc_id (rt_accounts snapshot)"
| "scope_targets snapshot (ScopeAccounts ids) = ids"
| "scope_targets snapshot (ScopePools ps) =
     concat (map (\<lambda>p. case find_pool snapshot p of
                         None \<Rightarrow> [p]
                       | Some pool \<Rightarrow> map pm_accountId (pool_members pool)) ps)"

lemma resolveScope_unresolved:
  "sd_unresolvedTargetIds (sr_diagnostics (resolveScope snapshot request opts)) =
     snd (buildGroups snapshot request opts (account_index snapshot))"
  by (simp add: resolveScope_def split: prod.splits)

lemma isInScope_iff:
  "isInScope (resolveScope snapshot request opts) i \<longleftrightarrow> key_admits snapshot (rq_keyScope request) i"
  using scope.in_scope_iff [of i snapshot request opts]
  by (simp add: isInScope_def resolveScope_def split: prod.splits)

lemma pool_targets_accounted_for:
  assumes "rq_keyScope request = ScopePools ps" and "p \<in> set ps"
    and "i \<in> set (case find_pool snapshot p of None \<Rightarrow> [p] | Some pool \<Rightarrow> map pm_accountId (pool_members pool))"
  shows "key_admits snapshot (rq_keyScope request) i \<or>
         i \<in> set (snd (buildGroups snapshot request opts (account_index snapshot)))"
proof -
  let ?r = "or_default (rq_rotationCounter request) 0"
  note loop = pools_loop_spec [of ps "map_from (map (\<lambda>p. (pool_id p, p)) (rt_pools snapshot))" "account_index snapshot" ?r]
  have u: "snd (buildGroups snapshot request opts (account_index snapshot)) =
      snd (pools_loop ps (map_from (map (\<lambda>p. (pool_id p, p)) (rt_pools snapshot))) (account_index snapshot) ?r)"
    using assms(1) by (simp add: buildGroups_def)
  show ?thesis
  proof (cases "find_pool snapshot p")
    case None
    then show ?thesis using assms loop by (auto simp: u pool_index_get)
  next
    case (Some pool)
    have "set (snd (poolGroup pool (account_index snapshot) ?r)) \<subseteq>
        set (snd (buildGroups snapshot request opts (account_index snapshot)))"
      using assms Some loop by (simp add: u pool_index_get)
    then show ?thesis
      using Some assms poolGroup_spec [OF account_index_indexed, of pool snapshot ?r]
      by (auto simp: account_index_None)
  qed
qed

text \<open>
  A key's target never disappears silently: every account id a key names, every member of a
  pool it names, and every pool id that names no pool, is in scope or reported as unresolved.
\<close>

theorem scope_targets_accounted_for:
  "set (scope_targets snapshot (rq_keyScope request)) \<subseteq>
     {i. isInScope (resolveScope snapshot request opts) i} \<union>
     set (sd_unresolvedTargetIds (sr_diagnostics (resolveScope snapshot request opts)))"
proof (cases "rq_keyScope request")
  case ScopeAll
  then show ?thesis by (auto simp: isInScope_iff has_account_def)
next
  case (ScopeAccounts ids)
  then show ?thesis
    using resolveAccountList_spec [OF account_index_indexed, of ids snapshot]
    by (auto simp: resolveScope_unresolved isInScope_iff buildGroups_def Let_def account_index_None split: prod.splits)
next
  case (ScopePools ps)
  show ?thesis
  proof
    fix i
    assume "i \<in> set (scope_targets snapshot (rq_keyScope request))"
    then obtain p where "p \<in> set ps"
        "i \<in> set (case find_pool snapshot p of None \<Rightarrow> [p] | Some pool \<Rightarrow> map pm_accountId (pool_members pool))"
      using ScopePools by auto
    then show "i \<in> {i. isInScope (resolveScope snapshot request opts) i} \<union>
        set (sd_unresolvedTargetIds (sr_diagnostics (resolveScope snapshot request opts)))"
      using pool_targets_accounted_for [OF ScopePools] by (simp add: resolveScope_unresolved isInScope_iff)
  qed
qed

end
