(* ===== verification/Session_Binding.thy ===== *)
theory Session_Binding
  imports Candidate_Filter Key_Scope
begin

text \<open>
  \<open>binding.ts\<close> of \<open>services/routing\<close>: what becomes of a session's stored account. The outcomes are the
  constructors of \<^typ>\<open>binding_decision\<close>.
\<close>

fun findInScope :: "scope_group list \<Rightarrow> account_id \<Rightarrow> scoped_account option" where
  "findInScope [] accountId = None"
| "findInScope (g # gs) accountId =
     (case find (\<lambda>m. sa_id m = accountId) (sg_members g) of
        Some m \<Rightarrow> Some m
      | None \<Rightarrow>
          (case sg_overflow g of
             Some m \<Rightarrow> if sa_id m = accountId then Some m else findInScope gs accountId
           | None \<Rightarrow> findInScope gs accountId))"

definition decideBinding ::
  "routing_snapshot \<Rightarrow> scope_group list \<Rightarrow> account_id option \<Rightarrow> string \<Rightarrow> selection_options \<Rightarrow> binding_decision" where
  "decideBinding snapshot groups boundAccountId model opts =
     (case boundAccountId of
        None \<Rightarrow> NoBinding
      | Some i \<Rightarrow>
          (case findInScope groups i of
             None \<Rightarrow>
               (let known = list_ex (\<lambda>a. acc_id a = i) (rt_accounts snapshot)
                in Invalidated i (if known then OutOfScope else AccountMissing))
           | Some m \<Rightarrow>
               (case evaluateCandidate m model (rt_now snapshot) opts of
                  Admitted _ \<Rightarrow> Honored i
                | Dropped r \<Rightarrow>
                    if isRecoverableFilterReason (rj_reason r) \<and>
                       (or_default (so_boundAccountCoolingDown opts) FailBound = FailBound \<or>
                        rj_reason r = FProbeInFlight)
                    then Blocked i (rj_reason r) (rj_resetsAt r) (rj_resetSource r)
                    else Invalidated i (DroppedFor (rj_reason r)))))"

definition carryBlockedBinding :: "binding_decision \<Rightarrow> bool \<Rightarrow> selection_options \<Rightarrow> binding_decision" where
  "carryBlockedBinding binding hasAlternative opts =
     (case binding of
        Blocked i reason _ _ \<Rightarrow>
          if \<not> hasAlternative \<or> \<not> so_carryBoundSessions opts then binding
          else Invalidated i (DroppedFor reason)
      | _ \<Rightarrow> binding)"

section \<open>Facts\<close>

lemma findInScope_Some:
  "findInScope gs i = Some m \<Longrightarrow> sa_id m = i \<and> (\<exists>g \<in> set gs. m \<in> set (group_entries g))"
  by (induction gs i rule: findInScope.induct)
    (auto simp: group_entries_def split: option.splits if_splits dest: find_SomeD)

lemma findInScope_None: "findInScope gs i = None \<longleftrightarrow> (\<forall>g \<in> set gs. \<forall>m \<in> set (group_entries g). sa_id m \<noteq> i)"
  by (induction gs i rule: findInScope.induct)
    (auto simp: group_entries_def find_None split: option.splits if_splits dest: find_SomeD)

lemma decide_honored:
  "decideBinding snapshot gs b model opts = Honored i \<longleftrightarrow>
     b = Some i \<and> (\<exists>m. findInScope gs i = Some m \<and> admissible (sa_account m) model (rt_now snapshot) (spent_threshold opts))"
proof -
  have adm: "(\<exists>c. evaluateCandidate m model (rt_now snapshot) opts = Admitted c) \<longleftrightarrow>
      admissible (sa_account m) model (rt_now snapshot) (spent_threshold opts)" for m
    by (simp add: evaluate_admitted_iff)
  show ?thesis
    unfolding adm [symmetric]
    by (auto simp: decideBinding_def Let_def split: option.splits candidate_verdict.splits if_splits)
qed

lemma decide_blocked:
  assumes "decideBinding snapshot gs b model opts = Blocked i r t s"
  shows "\<exists>m. b = Some i \<and> findInScope gs i = Some m \<and> isRecoverableFilterReason r \<and>
     evaluateCandidate m model (rt_now snapshot) opts = Dropped
       \<lparr>rj_accountId = i, rj_label = acc_label (sa_account m), rj_reason = r, rj_resetsAt = t, rj_resetSource = s,
        rj_window = (case evaluateCandidate m model (rt_now snapshot) opts of Dropped d \<Rightarrow> rj_window d | _ \<Rightarrow> None)\<rparr>"
proof -
  obtain m d where m: "b = Some i" "findInScope gs i = Some m"
      "evaluateCandidate m model (rt_now snapshot) opts = Dropped d"
      "r = rj_reason d" "t = rj_resetsAt d" "s = rj_resetSource d" "isRecoverableFilterReason r"
    using assms by (auto simp: decideBinding_def Let_def split: option.splits candidate_verdict.splits if_splits)
  then have "rj_accountId d = i" "rj_label d = acc_label (sa_account m)"
    using evaluate_dropped_id [OF m(3)] findInScope_Some [OF m(2)] by auto
  then show ?thesis using m by (intro exI [of _ m]) (cases d, simp)
qed

text \<open>
  A conversation is never given up for a clock: with the default setting, a bound account that
  is in scope but out for a reason a clock clears keeps its binding (blocked, with the account's own
  reset), and a binding is dropped only when the account is gone, out of the key's scope, or out for
  a reason no clock clears. The \<open>rebind\<close> setting never applies to a probe in flight.
\<close>

theorem binding_survives_every_clock:
  assumes "decideBinding snapshot groups (Some i) model opts = Invalidated j reason"
  shows "j = i \<and>
    (case reason of
       AccountMissing \<Rightarrow> i \<notin> acc_id ` set (rt_accounts snapshot)
     | OutOfScope \<Rightarrow> findInScope groups i = None
     | DroppedFor r \<Rightarrow> \<not> isRecoverableFilterReason r \<or>
         (so_boundAccountCoolingDown opts = Some RebindBound \<and> r \<noteq> FProbeInFlight))"
proof (cases "findInScope groups i")
  case None
  then show ?thesis
    using assms by (auto simp: decideBinding_def Let_def list_ex_iff split: binding_invalidation_reason.splits if_splits)
next
  case (Some m)
  then show ?thesis
    using assms
    by (cases "so_boundAccountCoolingDown opts")
      (auto simp: decideBinding_def split: candidate_verdict.splits if_splits binding_invalidation_reason.splits
        bound_cooldown_behavior.splits, (metis bound_cooldown_behavior.exhaust)+)
qed

theorem binding_survives_every_clock_witness:
  "decideBinding \<lparr>rt_accounts = [], rt_pools = [], rt_now = 0\<rparr> [] (Some ''acc_1'') ''m'' NO_OPTIONS =
     Invalidated ''acc_1'' AccountMissing \<and> ''acc_1'' \<notin> acc_id ` set []"
proof -
  have d: "decideBinding \<lparr>rt_accounts = [], rt_pools = [], rt_now = 0\<rparr> [] (Some ''acc_1'') ''m'' NO_OPTIONS =
     Invalidated ''acc_1'' AccountMissing"
    by (simp add: decideBinding_def)
  then show ?thesis using binding_survives_every_clock [OF d] by simp
qed

end
