(* ===== verification/No_Candidates.thy ===== *)
theory No_Candidates
  imports Session_Binding
begin

text \<open>
  \<open>no-candidates.ts\<close> of \<open>services/routing\<close>: the error of a request nobody can serve. Messages are the
  source's own text. The long dash is not a Latin-1 character; \<open>EM_DASH\<close> holds the three bytes it has on
  the wire.
\<close>

section \<open>Words\<close>

fun reason_text :: "filter_reason \<Rightarrow> string" where
  "reason_text FDisabled = ''disabled''"
| "reason_text FNeedsReauth = ''needs-reauth''"
| "reason_text FExhausted = ''exhausted''"
| "reason_text FCoolingDown = ''cooling-down''"
| "reason_text FCredentialRejected = ''credential-rejected''"
| "reason_text FProbeInFlight = ''probe-in-flight''"
| "reason_text FQuotaWindowSpent = ''quota-window-spent''"
| "reason_text FModelUnsupported = ''model-unsupported''"

fun reset_source_text :: "reset_source \<Rightarrow> string" where
  "reset_source_text ProviderReported = ''provider-reported''"
| "reset_source_text Estimated = ''estimated''"
| "reset_source_text UnknownReset = ''unknown''"

fun scope_kind :: "key_scope \<Rightarrow> string" where
  "scope_kind ScopeAll = ''all''"
| "scope_kind (ScopePools _) = ''pools''"
| "scope_kind (ScopeAccounts _) = ''accounts''"

definition EM_DASH :: string where "EM_DASH = [CHR 0xE2, CHR 0x80, CHR 0x94]"

definition accountWord :: "nat \<Rightarrow> string" where
  "accountWord n = (if n = 1 then ''account'' else ''accounts'')"

definition qualifier :: "reset_source option \<Rightarrow> string" where
  "qualifier source =
     (case source of
        None \<Rightarrow> ''''
      | Some s \<Rightarrow> if s = ProviderReported then '''' else '' ('' @ reset_source_text s @ '')'')"

definition describe :: "rejected_candidate \<Rightarrow> string" where
  "describe e =
     (if rj_reason e = FNeedsReauth then rj_label e @ '' needs re-auth''
      else if rj_reason e = FCredentialRejected then
        rj_label e @ '' credential rejected upstream'' @
          (case rj_resetsAt e of
             None \<Rightarrow> ''''
           | Some t \<Rightarrow> '', re-checked after '' @ toISOString t @ qualifier (rj_resetSource e))
      else rj_label e @ '' '' @ reason_text (rj_reason e))"

definition labels :: "rejected_candidate list \<Rightarrow> string" where
  "labels es = join '', '' (map rj_label es)"

definition unresolved_text :: "scope_diagnostics \<Rightarrow> string" where
  "unresolved_text s =
     (let n = length (sd_unresolvedTargetIds s)
      in if n = 0 then ''''
         else '' ('' @ show_nat n @ '' scope '' @ (if n = 1 then ''target'' else ''targets'') @ '' no longer exist)'')"

definition poolNames :: "group_decision list \<Rightarrow> string list" where
  "poolNames groups = List.map_filter gd_poolName groups"

definition where_text :: "group_decision list \<Rightarrow> string" where
  "where_text groups =
     (case poolNames groups of
        [] \<Rightarrow> ''''
      | [p] \<Rightarrow> '' in pool '' @ p
      | ps \<Rightarrow> '' in pools '' @ join '', '' ps)"

definition blockedCondition :: "filter_reason \<Rightarrow> string" where
  "blockedCondition r =
     (if r = FQuotaWindowSpent then ''out of quota until its window resets''
      else if r = FProbeInFlight then ''settling a recovery probe''
      else ''cooling down'')"

definition recoverableCondition :: "rejected_candidate list \<Rightarrow> string" where
  "recoverableCondition es =
     (let probe = list_ex (\<lambda>e. rj_reason e = FProbeInFlight) es;
          quota = list_ex (\<lambda>e. rj_reason e \<noteq> FProbeInFlight) es
      in if \<not> probe then ''rate limited or out of quota''
         else if quota then ''rate limited or out of quota, or settling a recovery probe''
         else ''settling a recovery probe'')"

section \<open>Resets\<close>

definition retryAfterSeconds :: "instant \<Rightarrow> instant \<Rightarrow> int" where
  "retryAfterSeconds resetsAt now = max 1 (ceil_div (resetsAt - now) 1000)"

record reset =
  rst_resetsAt :: "instant option"
  rst_resetSource :: "reset_source option"
  rst_reason :: "filter_reason option"

fun earliest_loop :: "rejected_candidate list \<Rightarrow> rejected_candidate option \<Rightarrow> rejected_candidate option" where
  "earliest_loop [] earliest = earliest"
| "earliest_loop (e # es) earliest =
     (case rj_resetsAt e of
        None \<Rightarrow> earliest_loop es earliest
      | Some t \<Rightarrow>
          (case Option.bind earliest rj_resetsAt of
             None \<Rightarrow> earliest_loop es (Some e)
           | Some t' \<Rightarrow> earliest_loop es (if t < t' then Some e else earliest)))"

definition earliestRecoverable :: "rejected_candidate list \<Rightarrow> reset" where
  "earliestRecoverable entries =
     (let earliest = earliest_loop entries None
      in \<lparr>rst_resetsAt = Option.bind earliest rj_resetsAt, rst_resetSource = Option.bind earliest rj_resetSource,
          rst_reason = map_option rj_reason earliest\<rparr>)"

definition quotaError ::
  "string \<Rightarrow> reset \<Rightarrow> instant \<Rightarrow> int \<Rightarrow> router_error_detail \<Rightarrow> router_error" where
  "quotaError message rst now unknownFloorSeconds detail =
     (case rst_resetsAt rst of
        None \<Rightarrow> QuotaExhaustedError (message @ '', reset time unknown'') (Some unknownFloorSeconds) None detail
      | Some t \<Rightarrow>
          QuotaExhaustedError
            (message @ '', earliest reset '' @ toISOString t @ qualifier (rst_resetSource rst))
            (Some (retryAfterSeconds t now)) (Some t)
            (detail\<lparr>ed_resetSource := Some (or_default (rst_resetSource rst) ProviderReported)\<rparr>))"

section \<open>The error\<close>

definition isHumanReason :: "filter_reason \<Rightarrow> bool" where
  "isHumanReason r \<longleftrightarrow> r = FDisabled \<or> r = FNeedsReauth \<or> r = FCredentialRejected"

definition remainder :: "rejected_candidate list \<Rightarrow> nat \<Rightarrow> string" where
  "remainder rejected described =
     (if described = length rejected then ''''
      else
        let recoverable = filter (\<lambda>e. isRecoverableFilterReason (rj_reason e)) rejected;
            exhausted = filter (\<lambda>e. rj_reason e = FExhausted) rejected;
            human = filter (\<lambda>e. isHumanReason (rj_reason e)) rejected;
            unsupported = filter (\<lambda>e. rj_reason e = FModelUnsupported) rejected;
            one = (\<lambda>es s p. if length es = 1 then s else p);
            clauses =
              (if recoverable \<noteq> [] \<and> exhausted \<noteq> []
               then [show_nat (length exhausted) @ '' more '' @ accountWord (length exhausted) @ '' out of credits and ''
                       @ one exhausted ''needs'' ''need'' @ '' a top-up ('' @ labels exhausted @ '')'']
               else [])
              @ (if human \<noteq> []
                 then [show_nat (length human) @ '' more '' @ one human ''needs'' ''need'' @ '' a human (''
                         @ join '', '' (map describe human) @ '')'']
                 else [])
              @ (if unsupported \<noteq> []
                 then [show_nat (length unsupported) @ '' more '' @ one unsupported ''does'' ''do''
                         @ '' not serve this model '' @ EM_DASH @ '' a client change ('' @ labels unsupported @ '')'']
                 else [])
        in if clauses = [] then '''' else ''; '' @ join ''; '' clauses)"

record no_candidates_input =
  nc_scope :: scope_diagnostics
  nc_groups :: "group_decision list"
  nc_rejected :: "rejected_candidate list"
  nc_binding :: binding_decision
  nc_now :: instant
  nc_unknownResetRetryAfterSeconds :: "int option"
  nc_model :: "string option"

definition walled :: "rejected_candidate \<Rightarrow> walled_account" where
  "walled e = \<lparr>wa_accountId = rj_accountId e, wa_state = reason_text (rj_reason e), wa_resetsAt = rj_resetsAt e\<rparr>"

definition pool_detail :: "no_candidates_input \<Rightarrow> string option \<Rightarrow> router_error_detail" where
  "pool_detail inp signal =
     NO_DETAIL\<lparr>ed_signal := signal, ed_accounts := Some (map walled (nc_rejected inp)),
               ed_pools := Some (poolNames (nc_groups inp))\<rparr>"

definition first_reason :: "rejected_candidate list \<Rightarrow> filter_reason option" where
  "first_reason es = (case es of [] \<Rightarrow> None | e # _ \<Rightarrow> Some (rj_reason e))"

definition recoverable_error :: "no_candidates_input \<Rightarrow> rejected_candidate list \<Rightarrow> int \<Rightarrow> router_error" where
  "recoverable_error inp recoverable unknownFloor =
     (let n = length (nc_rejected inp);
          earliest = earliestRecoverable recoverable;
          signal = (case rst_reason earliest of Some r \<Rightarrow> Some r | None \<Rightarrow> first_reason recoverable)
      in quotaError
           (show_nat (length recoverable) @ '' of '' @ show_nat n @ '' '' @ accountWord n @ where_text (nc_groups inp)
              @ '' '' @ (if length recoverable = 1 then ''is'' else ''are'') @ '' '' @ recoverableCondition recoverable
              @ '' ('' @ labels recoverable @ '')'' @ remainder (nc_rejected inp) (length recoverable))
           earliest (nc_now inp) unknownFloor (pool_detail inp (map_option reason_text signal)))"

definition exhausted_error :: "no_candidates_input \<Rightarrow> rejected_candidate list \<Rightarrow> router_error" where
  "exhausted_error inp exhausted =
     (let n = length (nc_rejected inp);
          k = length exhausted
      in CreditsExhaustedError
           ((if k = n then ''all'' else show_nat k @ '' of'') @ '' '' @ show_nat n @ '' '' @ accountWord n
              @ where_text (nc_groups inp) @ '' '' @ (if k = 1 then ''is'' else ''are'') @ '' out of credits and ''
              @ (if k = 1 then ''needs'' else ''need'') @ '' a top-up ('' @ labels exhausted @ '')''
              @ remainder (nc_rejected inp) k)
           (pool_detail inp (Some ''exhausted'')))"

definition noCandidatesError :: "no_candidates_input \<Rightarrow> router_error" where
  "noCandidatesError inp =
     (let unknownFloor = or_default (nc_unknownResetRetryAfterSeconds inp) DEFAULT_UNKNOWN_RESET_RETRY_AFTER_SECONDS
      in case nc_binding inp of
           Blocked accountId reason resetsAt resetSource \<Rightarrow>
             quotaError
               (''session is bound to account '' @ accountId @ '', which is '' @ blockedCondition reason)
               \<lparr>rst_resetsAt = resetsAt, rst_resetSource = resetSource, rst_reason = None\<rparr>
               (nc_now inp) unknownFloor
               (NO_DETAIL\<lparr>ed_scope := Some SessionScope, ed_signal := Some (reason_text reason),
                  ed_accounts := Some [\<lparr>wa_accountId = accountId, wa_state = reason_text reason, wa_resetsAt = resetsAt\<rparr>]\<rparr>)
         | _ \<Rightarrow>
             if sd_inScopeAccountIds (nc_scope inp) = [] then
               ScopeViolationError
                 (''no account is reachable through this key'' @ [CHR 0x27] @ ''s scope ('' @ scope_kind (sd_scope (nc_scope inp))
                    @ '')'' @ unresolved_text (nc_scope inp))
                 (NO_DETAIL\<lparr>ed_signal := Some ''no-account-in-scope''\<rparr>)
             else
               let rejected = nc_rejected inp;
                   recoverable = filter (\<lambda>e. isRecoverableFilterReason (rj_reason e)) rejected;
                   exhausted = filter (\<lambda>e. rj_reason e = FExhausted) rejected;
                   n = length rejected
               in if recoverable \<noteq> [] then recoverable_error inp recoverable unknownFloor
               else if exhausted \<noteq> [] then exhausted_error inp exhausted
               else if n > 0 \<and> list_all (\<lambda>e. rj_reason e = FModelUnsupported) rejected then
                 NoHealthyAccountError
                   (''no account'' @ where_text (nc_groups inp) @ '' serves ''
                      @ (case nc_model inp of None \<Rightarrow> ''this model'' | Some m \<Rightarrow> ''model '' @ [CHR 0x22] @ m @ [CHR 0x22])
                      @ '' '' @ EM_DASH @ '' a client change ('' @ show_nat n @ '' '' @ accountWord n @ '' in scope: ''
                      @ labels rejected @ '')'')
                   (Some ScopeWall) (pool_detail inp (Some ''model-unsupported''))
               else
                 NoHealthyAccountError
                   (''no eligible account'' @ where_text (nc_groups inp) @ '': '' @ join '', '' (map describe rejected))
                   (if n > 0 then Some HumanWall else None)
                   (pool_detail inp (map_option reason_text (first_reason rejected))))"

section \<open>The table\<close>

definition is_blocked :: "binding_decision \<Rightarrow> bool" where
  "is_blocked b \<longleftrightarrow> (case b of Blocked _ _ _ _ \<Rightarrow> True | _ \<Rightarrow> False)"

lemma is_blocked_iff: "is_blocked b \<longleftrightarrow> (\<exists>i r t s. b = Blocked i r t s)"
  by (cases b) (simp_all add: is_blocked_def)

lemma quotaError_fields:
  "re_code (quotaError m r now f d) = QuotaExhausted \<and>
   re_retryAfterSeconds (quotaError m r now f d) =
     Some (case rst_resetsAt r of None \<Rightarrow> f | Some t \<Rightarrow> retryAfterSeconds t now) \<and>
   re_resetsAt (quotaError m r now f d) = rst_resetsAt r"
  by (simp add: quotaError_def record_defs split: option.splits)

text \<open>The earliest instant of the entries, through the fold \<open>quota.ts\<close> has for plain instants.\<close>

lemma earliest_loop_reset:
  assumes "\<And>b. acc = Some b \<Longrightarrow> rj_resetsAt b \<noteq> None"
  shows "Option.bind (earliest_loop es acc) rj_resetsAt =
         earliestReset_loop (map rj_resetsAt es) (Option.bind acc rj_resetsAt)"
  using assms
proof (induction es arbitrary: acc)
  case (Cons e es)
  show ?case
  proof (cases "rj_resetsAt e")
    case None
    then show ?thesis using Cons.IH [OF Cons.prems] by simp
  next
    case (Some t)
    have e: "Option.bind (earliest_loop es (Some e)) rj_resetsAt = earliestReset_loop (map rj_resetsAt es) (Some t)"
      using Cons.IH [of "Some e"] Some by simp
    show ?thesis using Some e Cons.IH [OF Cons.prems] by (cases "Option.bind acc rj_resetsAt") simp_all
  qed
qed simp

lemma earliestReset_loop_Some:
  "earliestReset_loop ws (Some e) = Some (fold min (List.map_filter id ws) e)"
  by (induction ws arbitrary: e) (auto simp: map_filter_simps min_def split: option.splits)

lemma earliestReset_alt:
  "earliestReset ws = (case List.map_filter id ws of [] \<Rightarrow> None | t # ts \<Rightarrow> Some (Min (set (t # ts))))"
proof -
  have "earliestReset ws = (case List.map_filter id ws of [] \<Rightarrow> None | t # ts \<Rightarrow> Some (fold min ts t))"
    unfolding earliestReset_def
    by (induction ws "None :: instant option" rule: earliestReset_loop.induct)
      (simp_all add: map_filter_simps earliestReset_loop_Some)
  moreover have "fold min ts t = Min (insert t (set ts))" for t :: instant and ts
    using Min.set_eq_fold [of t ts] by simp
  ultimately show ?thesis by (auto split: list.splits)
qed

lemma earliestRecoverable_reset: "rst_resetsAt (earliestRecoverable es) = earliestReset (map rj_resetsAt es)"
  using earliest_loop_reset [of None es] by (simp add: earliestRecoverable_def earliestReset_def Let_def)

lemma earliestReset_le:
  assumes "earliestReset ws = Some t" and "Some t' \<in> set ws"
  shows "t \<le> t' \<and> Some t \<in> set ws"
proof -
  obtain x xs where xs: "List.map_filter id ws = x # xs" and t: "t = Min (set (x # xs))"
    using assms(1) by (auto simp: earliestReset_alt split: list.splits)
  have in_iff: "u \<in> set (x # xs) \<longleftrightarrow> Some u \<in> set ws" for u
    unfolding xs [symmetric] by (auto simp: set_map_filter)
  have "t \<in> set (x # xs)" unfolding t by (rule Min_in) auto
  moreover have "t \<le> t'" unfolding t using in_iff assms(2) by (intro Min_le) auto
  ultimately show ?thesis using in_iff by blast
qed

lemma earliestReset_None: "earliestReset ws = None \<longleftrightarrow> (\<forall>w \<in> set ws. w = None)"
proof -
  have "List.map_filter id ws = [] \<longleftrightarrow> (\<forall>w \<in> set ws. w = None)"
    by (induction ws) (auto simp: map_filter_simps split: option.splits)
  then show ?thesis by (auto simp: earliestReset_alt split: list.splits)
qed

lemma retryAfterSeconds_bounds:
  "1 \<le> retryAfterSeconds t now \<and> t \<le> now + 1000 * retryAfterSeconds t now"
proof -
  have "t - now \<le> 1000 * ceil_div (t - now) 1000" by (rule ceil_div_lower) simp
  also have "\<dots> \<le> 1000 * retryAfterSeconds t now" by (simp add: retryAfterSeconds_def)
  finally show ?thesis by (simp add: retryAfterSeconds_def)
qed

definition table_code :: "no_candidates_input \<Rightarrow> router_error_code" where
  "table_code inp =
     (if is_blocked (nc_binding inp) then QuotaExhausted
      else if sd_inScopeAccountIds (nc_scope inp) = [] then ScopeViolation
      else if \<exists>e \<in> set (nc_rejected inp). isRecoverableFilterReason (rj_reason e) then QuotaExhausted
      else if \<exists>e \<in> set (nc_rejected inp). rj_reason e = FExhausted then CreditsExhausted
      else NoHealthyAccount)"

text \<open>The instants a 429 may name: the session's own, or those of the members out for a clock.\<close>

definition waiting_resets :: "no_candidates_input \<Rightarrow> instant option list" where
  "waiting_resets inp =
     (case nc_binding inp of
        Blocked _ _ t _ \<Rightarrow> [t]
      | _ \<Rightarrow> map rj_resetsAt (filter (\<lambda>e. isRecoverableFilterReason (rj_reason e)) (nc_rejected inp)))"

lemma noCandidatesError_code: "re_code (noCandidatesError inp) = table_code inp"
proof (cases "is_blocked (nc_binding inp)")
  case True
  then show ?thesis by (auto simp: is_blocked_iff noCandidatesError_def table_code_def Let_def quotaError_fields)
next
  case False
  then show ?thesis
    by (cases "nc_binding inp")
      (auto simp: noCandidatesError_def table_code_def Let_def quotaError_fields is_blocked_iff record_defs
        recoverable_error_def exhausted_error_def filter_empty_conv)
qed

lemma earliestReset_single: "earliestReset [t] = t"
  by (cases t) (simp_all add: earliestReset_def)

lemma noCandidatesError_clock:
  assumes "table_code inp = QuotaExhausted"
  shows "re_resetsAt (noCandidatesError inp) = earliestReset (waiting_resets inp) \<and>
    re_retryAfterSeconds (noCandidatesError inp) =
      Some (case earliestReset (waiting_resets inp) of
              None \<Rightarrow> or_default (nc_unknownResetRetryAfterSeconds inp) DEFAULT_UNKNOWN_RESET_RETRY_AFTER_SECONDS
            | Some t \<Rightarrow> retryAfterSeconds t (nc_now inp))"
proof (cases "is_blocked (nc_binding inp)")
  case True
  then show ?thesis
    by (auto simp: is_blocked_iff noCandidatesError_def Let_def quotaError_fields waiting_resets_def earliestReset_single)
next
  case False
  define rec where "rec = filter (\<lambda>e. isRecoverableFilterReason (rj_reason e)) (nc_rejected inp)"
  have w: "waiting_resets inp = map rj_resetsAt rec"
    using False by (auto simp: waiting_resets_def rec_def is_blocked_iff split: binding_decision.splits)
  have "rec \<noteq> []" "sd_inScopeAccountIds (nc_scope inp) \<noteq> []"
    using assms False by (auto simp: table_code_def rec_def filter_empty_conv split: if_splits)
  then have "noCandidatesError inp = recoverable_error inp rec
      (or_default (nc_unknownResetRetryAfterSeconds inp) DEFAULT_UNKNOWN_RESET_RETRY_AFTER_SECONDS)"
    using False by (cases "nc_binding inp")
      (auto simp: noCandidatesError_def Let_def rec_def [symmetric] is_blocked_iff)
  then show ?thesis
    by (simp add: recoverable_error_def Let_def quotaError_fields earliestRecoverable_reset w)
qed

text \<open>
  The refusal is the table's and its clock is true: 429 when the session's account or any
  member is out for a clock, else 403 when the key reaches nothing, else 402 when somebody is out of
  credits, else 503, and never another status. A 429 names the earliest reset known among those it
  waits for, its \<open>Retry-After\<close> is at least a second and not before that reset, and only when no reset
  is known it is the configured floor.
\<close>

theorem no_candidates_table:
  assumes "1 \<le> or_default (nc_unknownResetRetryAfterSeconds inp) DEFAULT_UNKNOWN_RESET_RETRY_AFTER_SECONDS"
  shows "status_of (re_code (noCandidatesError inp)) \<in> {402, 403, 429, 503} \<and>
    re_code (noCandidatesError inp) = table_code inp \<and>
    (table_code inp = QuotaExhausted \<longrightarrow>
       (\<exists>s. re_retryAfterSeconds (noCandidatesError inp) = Some s \<and> 1 \<le> s \<and>
            (case re_resetsAt (noCandidatesError inp) of
               None \<Rightarrow> \<forall>w \<in> set (waiting_resets inp). w = None
             | Some t \<Rightarrow> t \<le> nc_now inp + 1000 * s \<and> Some t \<in> set (waiting_resets inp) \<and>
                         (\<forall>t'. Some t' \<in> set (waiting_resets inp) \<longrightarrow> t \<le> t'))))"
proof (intro conjI impI)
  show "re_code (noCandidatesError inp) = table_code inp" by (rule noCandidatesError_code)
  show "status_of (re_code (noCandidatesError inp)) \<in> {402, 403, 429, 503}"
    by (simp add: noCandidatesError_code table_code_def)
  assume q: "table_code inp = QuotaExhausted"
  note clock = noCandidatesError_clock [OF q]
  show "\<exists>s. re_retryAfterSeconds (noCandidatesError inp) = Some s \<and> 1 \<le> s \<and>
            (case re_resetsAt (noCandidatesError inp) of
               None \<Rightarrow> \<forall>w \<in> set (waiting_resets inp). w = None
             | Some t \<Rightarrow> t \<le> nc_now inp + 1000 * s \<and> Some t \<in> set (waiting_resets inp) \<and>
                         (\<forall>t'. Some t' \<in> set (waiting_resets inp) \<longrightarrow> t \<le> t'))"
  proof (cases "earliestReset (waiting_resets inp)")
    case None
    moreover have "\<forall>w \<in> set (waiting_resets inp). w = None" using None by (simp only: earliestReset_None)
    ultimately show ?thesis using clock assms by simp
  next
    case (Some t)
    then have "earliestReset (waiting_resets inp) \<noteq> None" by simp
    then obtain t' where "Some t' \<in> set (waiting_resets inp)" unfolding earliestReset_None by auto
    then have "Some t \<in> set (waiting_resets inp)" using earliestReset_le [OF Some] by blast
    then show ?thesis using clock Some retryAfterSeconds_bounds earliestReset_le [OF Some] by simp
  qed
qed

theorem no_candidates_table_witness:
  "let e = \<lparr>rj_accountId = ''a'', rj_label = ''a'', rj_reason = FCoolingDown, rj_resetsAt = Some 5500,
            rj_resetSource = Some ProviderReported, rj_window = None\<rparr>;
       d = \<lparr>rj_accountId = ''b'', rj_label = ''b'', rj_reason = FExhausted, rj_resetsAt = None,
            rj_resetSource = None, rj_window = None\<rparr>;
       inp = \<lparr>nc_scope = \<lparr>sd_scope = ScopeAll, sd_inScopeAccountIds = [''a'', ''b''], sd_unresolvedTargetIds = []\<rparr>,
              nc_groups = [], nc_rejected = [e, d], nc_binding = NoBinding, nc_now = 1000,
              nc_unknownResetRetryAfterSeconds = None, nc_model = None\<rparr>
   in re_code (noCandidatesError inp) = table_code inp \<and>
      re_retryAfterSeconds (noCandidatesError inp) = Some 5 \<and>
      re_message (noCandidatesError inp) =
        ''1 of 2 accounts is rate limited or out of quota (a); 1 more account out of credits and needs a top-up (b), earliest reset 1970-01-01T00:00:05.500Z''"
proof -
  define e where "e = \<lparr>rj_accountId = ''a'', rj_label = ''a'', rj_reason = FCoolingDown, rj_resetsAt = Some 5500,
    rj_resetSource = Some ProviderReported, rj_window = None\<rparr>"
  define d where "d = \<lparr>rj_accountId = ''b'', rj_label = ''b'', rj_reason = FExhausted, rj_resetsAt = None,
    rj_resetSource = None, rj_window = None\<rparr>"
  define inp where "inp = \<lparr>nc_scope = \<lparr>sd_scope = ScopeAll, sd_inScopeAccountIds = [''a'', ''b''], sd_unresolvedTargetIds = []\<rparr>,
    nc_groups = [], nc_rejected = [e, d], nc_binding = NoBinding, nc_now = 1000,
    nc_unknownResetRetryAfterSeconds = None, nc_model = None\<rparr>"
  have "re_code (noCandidatesError inp) = table_code inp"
    using no_candidates_table [of inp] by (simp add: inp_def DEFAULT_UNKNOWN_RESET_RETRY_AFTER_SECONDS_def)
  moreover have "re_retryAfterSeconds (noCandidatesError inp) = Some 5"
    "re_message (noCandidatesError inp) =
        ''1 of 2 accounts is rate limited or out of quota (a); 1 more account out of credits and needs a top-up (b), earliest reset 1970-01-01T00:00:05.500Z''"
    unfolding inp_def e_def d_def by code_simp+
  ultimately show ?thesis unfolding Let_def inp_def e_def d_def by blast
qed

end
