(* ===== verification/Selection.thy ===== *)
theory Selection
  imports No_Candidates Policy_Rules
begin

text \<open>
  \<open>select.ts\<close> of \<open>services/routing\<close>: scope, binding, filter and policy composed into one decision. The
  loop over the scope groups is a fold over the state its locals form.
\<close>

record resolved_group =
  rg_eligible :: "candidate list"
  rg_rejected :: "rejected_candidate list"
  rg_notes :: "policy_note list"
  rg_usedOverflow :: bool

definition resolveGroup ::
  "scope_group \<Rightarrow> selection_request \<Rightarrow> routing_snapshot \<Rightarrow> selection_options \<Rightarrow> resolved_group" where
  "resolveGroup g request snapshot opts =
     (let filtered = filterCandidates (sg_members g) (rq_model request) (rt_now snapshot) opts;
          boundOverflow = (map_option (\<lambda>m. sa_id m) (sg_overflow g) = map_option sb_accountId (rq_binding request));
          plain = \<lparr>rg_eligible = fr_eligible filtered, rg_rejected = fr_rejected filtered, rg_notes = [],
                   rg_usedOverflow = False\<rparr>
      in case sg_overflow g of
           None \<Rightarrow> plain
         | Some overflow \<Rightarrow>
             if fr_eligible filtered \<noteq> [] \<and> \<not> boundOverflow then plain
             else case evaluateCandidate overflow (rq_model request) (rt_now snapshot) opts of
                    Dropped d \<Rightarrow>
                      \<lparr>rg_eligible = fr_eligible filtered, rg_rejected = fr_rejected filtered @ [d], rg_notes = [],
                       rg_usedOverflow = False\<rparr>
                  | Admitted c \<Rightarrow>
                      \<lparr>rg_eligible = fr_eligible filtered @ [c], rg_rejected = fr_rejected filtered,
                       rg_notes = [OverflowEngaged (sa_id c)], rg_usedOverflow = True\<rparr>)"

definition hoist :: "candidate list \<Rightarrow> account_id \<Rightarrow> candidate list" where
  "hoist cs accountId =
     (case find_index (\<lambda>c. sa_id c = accountId) cs of
        None \<Rightarrow> cs
      | Some index \<Rightarrow> cs ! index # take index cs @ drop (Suc index) cs)"

record select_state =
  ss_groups :: "group_decision list"
  ss_rejected :: "(account_id, rejected_candidate) js_map"
  ss_ordered :: "candidate list"
  ss_seen :: "account_id list"
  ss_usedOverflow :: bool

fun push_rejected ::
  "rejected_candidate list \<Rightarrow> (account_id, rejected_candidate) js_map \<Rightarrow> (account_id, rejected_candidate) js_map" where
  "push_rejected [] m = m"
| "push_rejected (e # es) m =
     push_rejected es (if map_has (rj_accountId e) m then m else map_set (rj_accountId e) e m)"

fun push_ordered ::
  "candidate list \<Rightarrow> candidate list \<times> account_id list \<Rightarrow> candidate list \<times> account_id list" where
  "push_ordered [] st = st"
| "push_ordered (c # cs) (ordered, seen) =
     (if sa_id c \<in> set seen then push_ordered cs (ordered, seen)
      else push_ordered cs (ordered @ [c], seen @ [sa_id c]))"

definition policed ::
  "scope_group \<Rightarrow> resolved_group \<Rightarrow> selection_request \<Rightarrow> routing_snapshot \<Rightarrow> selection_options \<Rightarrow>
     binding_decision \<Rightarrow> policy_output" where
  "policed g resolved request snapshot opts decided =
     (if rg_eligible resolved = [] then \<lparr>po_ordered = [], po_notes = []\<rparr>
      else runPolicy (sg_policy g)
             \<lparr>pi_now = rt_now snapshot, pi_candidates = rg_eligible resolved, pi_sessionKey = rq_sessionKey request,
              pi_rotationCounter = sg_rotationCounter g, pi_leastUsedMeasure = so_leastUsedMeasure opts\<rparr>
             decided)"

definition select_group ::
  "selection_request \<Rightarrow> routing_snapshot \<Rightarrow> selection_options \<Rightarrow> binding_decision \<Rightarrow> select_state \<Rightarrow>
     scope_group \<Rightarrow> select_state" where
  "select_group request snapshot opts decided st g =
     (let resolved = resolveGroup g request snapshot opts;
          out = policed g resolved request snapshot opts decided;
          (ordered, seen) = push_ordered (po_ordered out) (ss_ordered st, ss_seen st)
      in \<lparr>ss_groups = ss_groups st @
            [\<lparr>gd_poolId = sg_poolId g, gd_poolName = sg_poolName g, gd_policy = sg_policy g,
              gd_ordered = map (\<lambda>c. sa_id c) (po_ordered out), gd_notes = po_notes out @ rg_notes resolved\<rparr>],
          ss_rejected = push_rejected (rg_rejected resolved) (ss_rejected st),
          ss_ordered = ordered, ss_seen = seen,
          ss_usedOverflow = (ss_usedOverflow st \<or> rg_usedOverflow resolved)\<rparr>)"

definition EMPTY_SELECT :: select_state where
  "EMPTY_SELECT =
     \<lparr>ss_groups = [], ss_rejected = [], ss_ordered = [], ss_seen = [], ss_usedOverflow = False\<rparr>"

definition selectAccounts ::
  "routing_snapshot \<Rightarrow> selection_request \<Rightarrow> selection_options \<Rightarrow> selection_result" where
  "selectAccounts snapshot request opts =
     (let resolution = resolveScope snapshot request opts;
          decided = decideBinding snapshot (sr_groups resolution) (map_option sb_accountId (rq_binding request))
                      (rq_model request) opts;
          st = foldl (select_group request snapshot opts decided) EMPTY_SELECT (sr_groups resolution);
          preferred = fst (nativeFirst (ss_ordered st));
          binding = carryBlockedBinding decided (preferred \<noteq> []) opts;
          decision = \<lparr>dn_scope = sr_diagnostics resolution, dn_groups = ss_groups st,
                      dn_rejected = map_values (ss_rejected st), dn_binding = binding,
                      dn_usedOverflow = ss_usedOverflow st\<rparr>;
          cands = (case binding of Honored i \<Rightarrow> hoist preferred i | _ \<Rightarrow> preferred)
      in if is_blocked binding \<or> cands = []
         then SelectionFailure
                (noCandidatesError
                  \<lparr>nc_scope = dn_scope decision, nc_groups = dn_groups decision, nc_rejected = dn_rejected decision,
                   nc_binding = binding, nc_now = rt_now snapshot,
                   nc_unknownResetRetryAfterSeconds = so_unknownResetRetryAfterSeconds opts,
                   nc_model = Some (rq_model request)\<rparr>)
                decision
         else SelectionSuccess cands decision)"

section \<open>One group\<close>

lemma overflow_designated:
  assumes "g \<in> set (sr_groups (resolveScope snapshot request opts))" and "sg_overflow g = Some m"
  shows "\<exists>p \<in> set (rt_pools snapshot). pool_overflowAccountId p = Some (sa_id m)"
proof (cases "rq_keyScope request")
  case (ScopePools ps)
  then obtain p pool where p: "find_pool snapshot p = Some pool"
      "g = fst (poolGroup pool (account_index snapshot) (or_default (rq_rotationCounter request) 0))"
    using assms(1) pools_loop_spec [of ps "map_from (map (\<lambda>p. (pool_id p, p)) (rt_pools snapshot))"
        "account_index snapshot" "or_default (rq_rotationCounter request) 0"]
    by (auto simp: resolveScope_groups buildGroups_def Let_def pool_index_get)
  have "pool \<in> set (rt_pools snapshot)" using p(1) find_SomeD by (fastforce simp: find_pool_def)
  moreover have "pool_overflowAccountId pool = Some (sa_id m)"
    using assms(2) p(2) account_index_Some
    by (auto simp: poolGroup_def resolveOverflow_def scopedMember_def split: prod.splits option.splits)
  ultimately show ?thesis by blast
qed (use assms in \<open>auto simp: resolveScope_groups buildGroups_def Let_def flatGroup_def split: prod.splits\<close>)


lemma hoist_move: "hoist = (\<lambda>cs i. move_to_front (\<lambda>c. sa_id c = i) cs)"
  by (simp add: fun_eq_iff hoist_def move_to_front_def)

abbreviation can_serve :: "selection_request \<Rightarrow> routing_snapshot \<Rightarrow> selection_options \<Rightarrow> account_snapshot \<Rightarrow> bool" where
  "can_serve request snapshot opts a \<equiv> admissible a (rq_model request) (rt_now snapshot) (spent_threshold opts)"

lemma policed_mset: "mset (po_ordered (policed g r request snapshot opts b)) = mset (rg_eligible r)"
  by (simp add: policed_def run.permutes)

lemma policed_set: "set (po_ordered (policed g r request snapshot opts b)) = set (rg_eligible r)"
  using policed_mset by (metis set_mset_mset)

lemma filter_eligible_set:
  "set (fr_eligible (filterCandidates ms model now opts)) =
     (\<lambda>m. candidate_of m model) ` {m \<in> set ms. admissible (sa_account m) model now (spent_threshold opts)}"
  by (simp add: filterCandidates_alt gate.eligible_def)

text \<open>Every eligible candidate of a group is one of its entries that can serve.\<close>

lemma resolveGroup_eligible:
  assumes "c \<in> set (rg_eligible (resolveGroup g request snapshot opts))"
  shows "\<exists>m \<in> set (group_entries g). c = candidate_of m (rq_model request) \<and> can_serve request snapshot opts (sa_account m)"
proof (cases "c \<in> set (fr_eligible (filterCandidates (sg_members g) (rq_model request) (rt_now snapshot) opts))")
  case True
  then show ?thesis unfolding filter_eligible_set by (auto simp: group_entries_def)
next
  case False
  then obtain ov where "sg_overflow g = Some ov"
      "evaluateCandidate ov (rq_model request) (rt_now snapshot) opts = Admitted c"
    using assms by (auto simp: resolveGroup_def Let_def split: option.splits if_splits candidate_verdict.splits)
  then show ?thesis by (auto simp: evaluate_admitted_iff group_entries_def)
qed

lemma resolveGroup_members:
  assumes "m \<in> set (sg_members g)" and "can_serve request snapshot opts (sa_account m)"
  shows "candidate_of m (rq_model request) \<in> set (rg_eligible (resolveGroup g request snapshot opts))"
proof -
  have "candidate_of m (rq_model request) \<in>
      set (fr_eligible (filterCandidates (sg_members g) (rq_model request) (rt_now snapshot) opts))"
    using assms by (simp add: filter_eligible_set)
  then show ?thesis
    by (auto simp: resolveGroup_def Let_def split: option.splits candidate_verdict.splits)
qed

lemma resolveGroup_overflow:
  assumes "sg_overflow g = Some m" and "can_serve request snapshot opts (sa_account m)"
    and "map_option sb_accountId (rq_binding request) = Some (sa_id m) \<or>
         rg_eligible (resolveGroup g request snapshot opts) = []"
  shows "candidate_of m (rq_model request) \<in> set (rg_eligible (resolveGroup g request snapshot opts))"
proof -
  have ev: "evaluateCandidate m (rq_model request) (rt_now snapshot) opts = Admitted (candidate_of m (rq_model request))"
    using assms(2) by (simp add: evaluate_admitted_iff)
  show ?thesis using assms(1,3) ev by (auto simp: resolveGroup_def Let_def split: if_splits)
qed

text \<open>So a group with nobody eligible has nobody who can serve, the overflow account included.\<close>

lemma resolveGroup_empty:
  assumes "rg_eligible (resolveGroup g request snapshot opts) = []" and "m \<in> set (group_entries g)"
  shows "\<not> can_serve request snapshot opts (sa_account m)"
proof
  assume serve: "can_serve request snapshot opts (sa_account m)"
  from assms(2) consider "m \<in> set (sg_members g)" | "sg_overflow g = Some m"
    by (auto simp: group_entries_def split: option.splits)
  then show False
  proof cases
    case 1
    then show ?thesis using resolveGroup_members [OF 1 serve] assms(1) by simp
  next
    case 2
    then show ?thesis using resolveGroup_overflow [OF 2 serve] assms(1) by simp
  qed
qed

section \<open>The loop\<close>

lemma push_ordered_spec:
  assumes "seen = map (\<lambda>c. sa_id c) ordered" and "distinct seen" and "push_ordered cs (ordered, seen) = (ordered', seen')"
  shows "seen' = map (\<lambda>c. sa_id c) ordered' \<and> distinct seen' \<and> set ordered' \<subseteq> set ordered \<union> set cs \<and>
         set seen' = set seen \<union> (\<lambda>c. sa_id c) ` set cs"
  using assms
proof (induction cs arbitrary: ordered seen)
  case (Cons c cs)
  show ?case
  proof (cases "sa_id c \<in> set seen")
    case True
    then show ?thesis using Cons.IH [OF Cons.prems(1,2)] Cons.prems(3) by auto
  next
    case False
    then have "push_ordered cs (ordered @ [c], seen @ [sa_id c]) = (ordered', seen')" using Cons.prems(3) by simp
    then show ?thesis using Cons.IH [of "seen @ [sa_id c]" "ordered @ [c]"] Cons.prems(1,2) False by auto
  qed
qed auto

text \<open>What the loop has established after the groups \<open>gs\<close>.\<close>

definition select_inv ::
  "selection_request \<Rightarrow> routing_snapshot \<Rightarrow> selection_options \<Rightarrow> scope_group list \<Rightarrow> select_state \<Rightarrow> bool" where
  "select_inv request snapshot opts gs st \<longleftrightarrow>
     ss_seen st = map (\<lambda>c. sa_id c) (ss_ordered st) \<and> distinct (ss_seen st) \<and>
     (\<forall>c \<in> set (ss_ordered st). \<exists>g \<in> set gs. c \<in> set (rg_eligible (resolveGroup g request snapshot opts))) \<and>
     set (ss_seen st) = (\<Union>g \<in> set gs. (\<lambda>c. sa_id c) ` set (rg_eligible (resolveGroup g request snapshot opts)))"

lemma select_group_inv:
  assumes "select_inv request snapshot opts gs st"
  shows "select_inv request snapshot opts (gs @ [g]) (select_group request snapshot opts b st g)"
proof -
  define out where "out = po_ordered (policed g (resolveGroup g request snapshot opts) request snapshot opts b)"
  obtain ordered seen where push: "push_ordered out (ss_ordered st, ss_seen st) = (ordered, seen)" by fastforce
  have out: "set out = set (rg_eligible (resolveGroup g request snapshot opts))" by (simp add: out_def policed_set)
  have spec: "seen = map (\<lambda>c. sa_id c) ordered \<and> distinct seen \<and> set ordered \<subseteq> set (ss_ordered st) \<union> set out \<and>
      set seen = set (ss_seen st) \<union> (\<lambda>c. sa_id c) ` set out"
    using assms push by (intro push_ordered_spec) (auto simp: select_inv_def)
  have st': "ss_ordered (select_group request snapshot opts b st g) = ordered"
    "ss_seen (select_group request snapshot opts b st g) = seen"
    using push by (simp_all add: select_group_def Let_def out_def)
  have "\<forall>c \<in> set ordered. \<exists>g' \<in> set (gs @ [g]). c \<in> set (rg_eligible (resolveGroup g' request snapshot opts))"
    using spec out assms by (auto simp: select_inv_def)
  moreover have "set seen = (\<Union>g' \<in> set (gs @ [g]). (\<lambda>c. sa_id c) ` set (rg_eligible (resolveGroup g' request snapshot opts)))"
  proof -
    have "set seen = set (ss_seen st) \<union> (\<lambda>c. sa_id c) ` set out" using spec by blast
    moreover have "set (ss_seen st) = (\<Union>g \<in> set gs. (\<lambda>c. sa_id c) ` set (rg_eligible (resolveGroup g request snapshot opts)))"
      using assms unfolding select_inv_def by blast
    ultimately show ?thesis by (simp add: out Un_commute)
  qed
  ultimately show ?thesis using spec unfolding select_inv_def st' by blast
qed

lemma select_loop_inv:
  "select_inv request snapshot opts gs (foldl (select_group request snapshot opts b) EMPTY_SELECT gs)"
proof (induction gs rule: rev_induct)
  case Nil
  then show ?case by (simp add: select_inv_def EMPTY_SELECT_def)
next
  case (snoc g gs)
  then show ?case using select_group_inv by simp
qed

lemma nativeFirst_mset [simp]: "mset (fst (nativeFirst cs)) = mset cs"
  using filter_both_mset [of cd_aliased cs]
  by (simp add: nativeFirst_def Let_def union_commute del: mset_filter)

section \<open>The result\<close>

definition sel_groups :: "routing_snapshot \<Rightarrow> selection_request \<Rightarrow> selection_options \<Rightarrow> scope_group list" where
  "sel_groups snapshot request opts = sr_groups (resolveScope snapshot request opts)"

definition sel_decided :: "routing_snapshot \<Rightarrow> selection_request \<Rightarrow> selection_options \<Rightarrow> binding_decision" where
  "sel_decided snapshot request opts =
     decideBinding snapshot (sel_groups snapshot request opts) (map_option sb_accountId (rq_binding request))
       (rq_model request) opts"

definition sel_state :: "routing_snapshot \<Rightarrow> selection_request \<Rightarrow> selection_options \<Rightarrow> select_state" where
  "sel_state snapshot request opts =
     foldl (select_group request snapshot opts (sel_decided snapshot request opts)) EMPTY_SELECT
       (sel_groups snapshot request opts)"

abbreviation sel_ordered :: "routing_snapshot \<Rightarrow> selection_request \<Rightarrow> selection_options \<Rightarrow> candidate list" where
  "sel_ordered snapshot request opts \<equiv> ss_ordered (sel_state snapshot request opts)"

definition sel_binding :: "routing_snapshot \<Rightarrow> selection_request \<Rightarrow> selection_options \<Rightarrow> binding_decision" where
  "sel_binding snapshot request opts =
     carryBlockedBinding (sel_decided snapshot request opts) (fst (nativeFirst (sel_ordered snapshot request opts)) \<noteq> []) opts"

definition sel_cands :: "routing_snapshot \<Rightarrow> selection_request \<Rightarrow> selection_options \<Rightarrow> candidate list" where
  "sel_cands snapshot request opts =
     (case sel_binding snapshot request opts of
        Honored i \<Rightarrow> hoist (fst (nativeFirst (sel_ordered snapshot request opts))) i
      | _ \<Rightarrow> fst (nativeFirst (sel_ordered snapshot request opts)))"

definition sel_decision :: "routing_snapshot \<Rightarrow> selection_request \<Rightarrow> selection_options \<Rightarrow> selection_decision" where
  "sel_decision snapshot request opts =
     \<lparr>dn_scope = sr_diagnostics (resolveScope snapshot request opts), dn_groups = ss_groups (sel_state snapshot request opts),
      dn_rejected = map_values (ss_rejected (sel_state snapshot request opts)),
      dn_binding = sel_binding snapshot request opts, dn_usedOverflow = ss_usedOverflow (sel_state snapshot request opts)\<rparr>"

definition sel_refusal :: "routing_snapshot \<Rightarrow> selection_request \<Rightarrow> selection_options \<Rightarrow> no_candidates_input" where
  "sel_refusal snapshot request opts =
     (let d = sel_decision snapshot request opts
      in \<lparr>nc_scope = dn_scope d, nc_groups = dn_groups d, nc_rejected = dn_rejected d,
          nc_binding = sel_binding snapshot request opts, nc_now = rt_now snapshot, nc_unknownResetRetryAfterSeconds = so_unknownResetRetryAfterSeconds opts,
          nc_model = Some (rq_model request)\<rparr>)"

lemma selectAccounts_alt:
  "selectAccounts snapshot request opts =
     (if is_blocked (sel_binding snapshot request opts) \<or> sel_cands snapshot request opts = []
      then SelectionFailure (noCandidatesError (sel_refusal snapshot request opts)) (sel_decision snapshot request opts)
      else SelectionSuccess (sel_cands snapshot request opts) (sel_decision snapshot request opts))"
  unfolding selectAccounts_def Let_def sel_groups_def sel_decided_def sel_state_def sel_binding_def sel_cands_def
    sel_decision_def sel_refusal_def
  by (rule refl)

lemma sel_cands_mset: "mset (sel_cands snapshot request opts) = mset (sel_ordered snapshot request opts)"
  by (simp add: sel_cands_def hoist_move split: binding_decision.splits)

lemma sel_cands_Nil: "sel_cands snapshot request opts = [] \<longleftrightarrow> sel_ordered snapshot request opts = []"
  using sel_cands_mset by (metis mset_zero_iff)

lemma dn_binding_decision [simp]: "dn_binding (sel_decision snapshot request opts) = sel_binding snapshot request opts"
  by (simp add: sel_decision_def)

lemma selection_success:
  "selectAccounts snapshot request opts = SelectionSuccess cs d \<longleftrightarrow>
     cs = sel_cands snapshot request opts \<and> d = sel_decision snapshot request opts \<and>
     \<not> is_blocked (sel_binding snapshot request opts) \<and> sel_ordered snapshot request opts \<noteq> []"
  by (auto simp: selectAccounts_alt sel_cands_Nil)

lemma selection_failure:
  "selectAccounts snapshot request opts = SelectionFailure e d \<longleftrightarrow>
     e = noCandidatesError (sel_refusal snapshot request opts) \<and> d = sel_decision snapshot request opts \<and>
     (is_blocked (sel_binding snapshot request opts) \<or> sel_ordered snapshot request opts = [])"
  by (auto simp: selectAccounts_alt sel_cands_Nil)

lemma sel_ordered_inv:
  "distinct (map (\<lambda>c. sa_id c) (sel_ordered snapshot request opts)) \<and>
   (\<forall>c \<in> set (sel_ordered snapshot request opts). \<exists>g \<in> set (sel_groups snapshot request opts).
      c \<in> set (rg_eligible (resolveGroup g request snapshot opts))) \<and>
   (\<lambda>c. sa_id c) ` set (sel_ordered snapshot request opts) =
     (\<Union>g \<in> set (sel_groups snapshot request opts). (\<lambda>c. sa_id c) ` set (rg_eligible (resolveGroup g request snapshot opts)))"
  using select_loop_inv [of request snapshot opts "sel_groups snapshot request opts" "sel_decided snapshot request opts"]
  unfolding select_inv_def sel_state_def [symmetric] by (metis list.set_map)

section \<open>Properties\<close>

lemma offered_sound:
  assumes "selectAccounts snapshot request opts = SelectionSuccess cs d" "c \<in> set cs"
  shows "sa_account c \<in> set (rt_accounts snapshot) \<and> key_admits snapshot (rq_keyScope request) (sa_id c) \<and>
    can_serve request snapshot opts (sa_account c) \<and>
    cd_upstreamModel c = mr_upstreamModel (resolveModel (sa_account c) (rq_model request))"
proof -
  have "mset cs = mset (sel_ordered snapshot request opts)" using assms(1) by (simp add: selection_success sel_cands_mset)
  then have "c \<in> set (sel_ordered snapshot request opts)" using assms(2) by (metis set_mset_mset)
  then obtain g m where g: "g \<in> set (sr_groups (resolveScope snapshot request opts))" "m \<in> set (group_entries g)"
      "c = candidate_of m (rq_model request)" "can_serve request snapshot opts (sa_account m)"
    using sel_ordered_inv [of snapshot request opts] resolveGroup_eligible unfolding sel_groups_def by metis
  have "sa_account c = sa_account m" using g(3) by (simp add: candidate_of_def)
  then show ?thesis using scope.entries [OF g(1,2)] g(3,4) by (simp add: candidate_of_def)
qed

text \<open>
  (C1) No request ever leaves its key's scope: every account selection offers (first choice, failover
  tail and overflow alike) is a known account the key admits, it can serve the request at this
  instant, it is offered under the name its alias map gives, and it is offered once; a successful
  selection offers at least one.
\<close>

theorem selection_stays_in_scope:
  assumes "selectAccounts snapshot request opts = SelectionSuccess cs d"
  shows "cs \<noteq> [] \<and> distinct (map (\<lambda>c. sa_id c) cs) \<and>
    (\<forall>c \<in> set cs. sa_account c \<in> set (rt_accounts snapshot) \<and>
       key_admits snapshot (rq_keyScope request) (sa_id c) \<and>
       admissible (sa_account c) (rq_model request) (rt_now snapshot) (spent_threshold opts) \<and>
       cd_upstreamModel c = mr_upstreamModel (resolveModel (sa_account c) (rq_model request)))"
proof -
  have ms: "mset cs = mset (sel_ordered snapshot request opts)" and ne: "sel_ordered snapshot request opts \<noteq> []"
    using assms by (simp_all add: selection_success sel_cands_mset)
  have "distinct (map (\<lambda>c. sa_id c) cs)" using distinct_map_mset [OF ms] sel_ordered_inv by blast
  moreover have "cs \<noteq> []" using ms ne by auto
  ultimately show ?thesis using offered_sound [OF assms] by blast
qed

lemma nobody_eligible:
  assumes "sel_ordered snapshot request opts = []" and "g \<in> set (sel_groups snapshot request opts)"
  shows "rg_eligible (resolveGroup g request snapshot opts) = []"
proof -
  have "(\<Union>g \<in> set (sel_groups snapshot request opts). (\<lambda>c. sa_id c) ` set (rg_eligible (resolveGroup g request snapshot opts))) = {}"
    using assms(1) sel_ordered_inv [of snapshot request opts] by auto
  then show ?thesis using assms(2) by auto
qed

lemma unique_entry:
  assumes "distinct (map acc_id (rt_accounts snapshot))" and "a \<in> set (rt_accounts snapshot)"
    and "key_admits snapshot (rq_keyScope request) (acc_id a)"
  shows "\<exists>g \<in> set (sel_groups snapshot request opts). \<exists>m \<in> set (group_entries g). sa_account m = a"
proof -
  obtain g m where gm: "g \<in> set (sel_groups snapshot request opts)" "m \<in> set (group_entries g)" "sa_id m = acc_id a"
    using scope.complete [OF assms(3), of opts] unfolding sel_groups_def by blast
  then have "sa_account m \<in> set (rt_accounts snapshot)" using scope.entries unfolding sel_groups_def by blast
  then have "sa_account m = a" using gm(3) assms(1,2) by (auto simp: distinct_map inj_on_def)
  then show ?thesis using gm by blast
qed

text \<open>
  (C6) A refusal is honest: when selection fails and no bound session is being kept for a clock, there
  is no account in the key's scope that could have served the request, overflow accounts included.
\<close>

theorem refusal_only_when_nobody_can_serve:
  assumes "selectAccounts snapshot request opts = SelectionFailure e d"
    and "\<not> is_blocked (dn_binding d)"
    and "distinct (map acc_id (rt_accounts snapshot))" and "a \<in> set (rt_accounts snapshot)"
    and "key_admits snapshot (rq_keyScope request) (acc_id a)"
  shows "\<not> admissible a (rq_model request) (rt_now snapshot) (spent_threshold opts)"
proof -
  have empty: "sel_ordered snapshot request opts = []" using assms(1,2) by (auto simp: selection_failure)
  obtain g m where "g \<in> set (sel_groups snapshot request opts)" "m \<in> set (group_entries g)" "sa_account m = a"
    using unique_entry [OF assms(3-5)] by blast
  then show ?thesis using resolveGroup_empty [OF nobody_eligible [OF empty]] by metis
qed

lemma offered_ids:
  assumes "g \<in> set (sel_groups snapshot request opts)"
    and "candidate_of m model \<in> set (rg_eligible (resolveGroup g request snapshot opts))"
  shows "sa_id m \<in> (\<lambda>c. sa_id c) ` set (sel_ordered snapshot request opts)"
proof -
  have "sa_id (candidate_of m model) \<in> (\<lambda>c. sa_id c) ` set (sel_ordered snapshot request opts)"
    using sel_ordered_inv [of snapshot request opts] assms by blast
  then show ?thesis by (simp add: candidate_of_def)
qed

lemma bound_account_offered:
  assumes "findInScope (sel_groups snapshot request opts) i = Some m"
    and "can_serve request snapshot opts (sa_account m)"
    and "map_option sb_accountId (rq_binding request) = Some i"
  shows "i \<in> (\<lambda>c. sa_id c) ` set (sel_ordered snapshot request opts)"
proof -
  obtain g where g: "g \<in> set (sel_groups snapshot request opts)" "m \<in> set (group_entries g)" "sa_id m = i"
    using findInScope_Some [OF assms(1)] by blast
  have "candidate_of m (rq_model request) \<in> set (rg_eligible (resolveGroup g request snapshot opts))"
  proof (cases "m \<in> set (sg_members g)")
    case True
    then show ?thesis using assms(2) by (rule resolveGroup_members)
  next
    case False
    then have "sg_overflow g = Some m" using g(2) by (auto simp: group_entries_def split: option.splits)
    then show ?thesis using assms(2,3) g(3) by (intro resolveGroup_overflow) simp_all
  qed
  then show ?thesis using offered_ids [OF g(1)] g(3) by fastforce
qed

text \<open>
  (C4) A live session stays where its transcript is: when the bound account is in the key's scope and
  can serve, selection succeeds and offers that account first, under every policy, across pools, and
  also when the account is a pool's overflow and the primary accounts have recovered.
\<close>

theorem bound_session_stays_put:
  assumes "rq_binding request = Some b" and "distinct (map acc_id (rt_accounts snapshot))"
    and "a \<in> set (rt_accounts snapshot)" and "acc_id a = sb_accountId b"
    and "key_admits snapshot (rq_keyScope request) (acc_id a)"
    and "admissible a (rq_model request) (rt_now snapshot) (spent_threshold opts)"
  shows "\<exists>c rest d. selectAccounts snapshot request opts = SelectionSuccess (c # rest) d \<and>
           sa_account c = a \<and> dn_binding d = Honored (acc_id a)"
proof -
  have bound: "map_option sb_accountId (rq_binding request) = Some (acc_id a)" using assms(1,4) by simp
  obtain g m where "g \<in> set (sel_groups snapshot request opts)" "m \<in> set (group_entries g)" "sa_account m = a"
    using unique_entry [OF assms(2,3,5)] by blast
  then obtain n where n: "findInScope (sel_groups snapshot request opts) (acc_id a) = Some n"
    using findInScope_None [of "sel_groups snapshot request opts" "acc_id a"]
    by (cases "findInScope (sel_groups snapshot request opts) (acc_id a)") auto
  then obtain g' where "sa_id n = acc_id a" "g' \<in> set (sel_groups snapshot request opts)" "n \<in> set (group_entries g')"
    using findInScope_Some [OF n] by blast
  then have "sa_account n = a"
    using scope.entries [of g' snapshot request opts n] assms(2,3)
    by (auto simp: sel_groups_def distinct_map inj_on_def)
  then have serve: "can_serve request snapshot opts (sa_account n)" using assms(6) by simp
  have dec: "sel_decided snapshot request opts = Honored (acc_id a)"
    unfolding sel_decided_def decide_honored using bound n serve by blast
  then have bind: "sel_binding snapshot request opts = Honored (acc_id a)"
    by (simp add: sel_binding_def carryBlockedBinding_def)
  have "\<exists>c \<in> set (sel_ordered snapshot request opts). sa_id c = acc_id a"
    using bound_account_offered [OF n serve bound] by auto
  moreover have "set (fst (nativeFirst (sel_ordered snapshot request opts))) = set (sel_ordered snapshot request opts)"
    by (metis nativeFirst_mset set_mset_mset)
  ultimately obtain c rest where c: "sel_cands snapshot request opts = c # rest" "sa_id c = acc_id a"
    using move_to_front_head [of "fst (nativeFirst (sel_ordered snapshot request opts))" "\<lambda>c. sa_id c = acc_id a"] bind
    by (auto simp: sel_cands_def hoist_move)
  then have succ: "selectAccounts snapshot request opts = SelectionSuccess (c # rest) (sel_decision snapshot request opts)"
    using bind by (simp add: selectAccounts_alt is_blocked_iff)
  have "c \<in> set (sel_ordered snapshot request opts)"
    using c(1) sel_cands_mset [of snapshot request opts] by (metis list.set_intros(1) set_mset_mset)
  then have "sa_account c \<in> set (rt_accounts snapshot)"
    using sel_ordered_inv [of snapshot request opts] resolveGroup_eligible scope.entries
    unfolding sel_groups_def by (metis gate.keeps_account)
  then have "sa_account c = a" using c(2) assms(2,3) by (auto simp: distinct_map inj_on_def)
  then show ?thesis using succ bind by auto
qed

text \<open>
  A refused request carries the right status: 403 exactly when the key reaches no account at all,
  otherwise one of 402, 429 and 503; and whenever a bound session is kept waiting for a clock the
  answer is a 429 with a \<open>Retry-After\<close> of at least one second.
\<close>

theorem refusal_status:
  assumes "selectAccounts snapshot request opts = SelectionFailure e d"
    and "1 \<le> or_default (so_unknownResetRetryAfterSeconds opts) DEFAULT_UNKNOWN_RESET_RETRY_AFTER_SECONDS"
  shows "status_of (re_code e) \<in> {402, 403, 429, 503} \<and>
    (status_of (re_code e) = 403 \<longleftrightarrow> (\<forall>i. \<not> key_admits snapshot (rq_keyScope request) i)) \<and>
    (status_of (re_code e) = 429 \<longrightarrow> (\<exists>s. re_retryAfterSeconds e = Some s \<and> 1 \<le> s)) \<and>
    (is_blocked (dn_binding d) \<longrightarrow> status_of (re_code e) = 429)"
proof -
  define inp where "inp = sel_refusal snapshot request opts"
  have e: "e = noCandidatesError inp" and d: "dn_binding d = nc_binding inp"
    using assms(1) by (auto simp: selection_failure inp_def sel_refusal_def Let_def)
  have code: "re_code e = table_code inp" by (simp add: e noCandidatesError_code)
  have empty: "sd_inScopeAccountIds (nc_scope inp) = [] \<longleftrightarrow> (\<forall>i. \<not> key_admits snapshot (rq_keyScope request) i)"
  proof -
    have "i \<in> set (sd_inScopeAccountIds (nc_scope inp)) \<longleftrightarrow> key_admits snapshot (rq_keyScope request) i" for i
      using isInScope_iff [of snapshot request opts i]
      by (simp add: inp_def sel_refusal_def sel_decision_def isInScope_def Let_def)
    then show ?thesis by (metis list.set(1) empty_iff set_empty ex_in_conv)
  qed
  have blocked: "\<exists>i. key_admits snapshot (rq_keyScope request) i" if "is_blocked (nc_binding inp)"
  proof -
    have "\<exists>i r t s. sel_decided snapshot request opts = Blocked i r t s"
      using that by (auto simp: inp_def sel_refusal_def Let_def sel_binding_def carryBlockedBinding_def is_blocked_iff
          split: binding_decision.splits if_splits)
    then obtain i m where "findInScope (sel_groups snapshot request opts) i = Some m"
      unfolding sel_decided_def using decide_blocked by blast
    then show ?thesis using findInScope_Some scope.entries unfolding sel_groups_def by blast
  qed
  have retry: "\<exists>s. re_retryAfterSeconds e = Some s \<and> 1 \<le> s" if "table_code inp = QuotaExhausted"
  proof -
    have "1 \<le> or_default (nc_unknownResetRetryAfterSeconds inp) DEFAULT_UNKNOWN_RESET_RETRY_AFTER_SECONDS"
      using assms(2) by (simp add: inp_def sel_refusal_def Let_def)
    then show ?thesis
      using noCandidatesError_clock [OF that] retryAfterSeconds_bounds by (auto simp: e split: option.splits)
  qed
  show ?thesis
    using empty blocked retry by (auto simp: code d table_code_def split: if_splits)
qed

text \<open>
  Nobody who could serve is forgotten: a successful selection offers every account in the key's
  scope that can serve, except accounts a pool holds back as its overflow.
\<close>

theorem selection_is_complete:
  assumes "selectAccounts snapshot request opts = SelectionSuccess cs d"
    and "distinct (map acc_id (rt_accounts snapshot))" and "a \<in> set (rt_accounts snapshot)"
    and "key_admits snapshot (rq_keyScope request) (acc_id a)"
    and "admissible a (rq_model request) (rt_now snapshot) (spent_threshold opts)"
    and "\<And>p. p \<in> set (rt_pools snapshot) \<Longrightarrow> pool_overflowAccountId p \<noteq> Some (acc_id a)"
  shows "acc_id a \<in> (\<lambda>c. sa_id c) ` set cs"
proof -
  obtain g m where g: "g \<in> set (sel_groups snapshot request opts)" "m \<in> set (group_entries g)" "sa_account m = a"
    using unique_entry [OF assms(2-4)] by blast
  have "m \<in> set (sg_members g)"
  proof (rule ccontr)
    assume "m \<notin> set (sg_members g)"
    then have "sg_overflow g = Some m" using g(2) by (auto simp: group_entries_def split: option.splits)
    then show False using overflow_designated g(1,3) assms(6) unfolding sel_groups_def by blast
  qed
  then have "candidate_of m (rq_model request) \<in> set (rg_eligible (resolveGroup g request snapshot opts))"
    using g(3) assms(5) by (intro resolveGroup_members) simp_all
  then have "acc_id a \<in> (\<lambda>c. sa_id c) ` set (sel_ordered snapshot request opts)"
    using offered_ids [OF g(1)] g(3) by fastforce
  moreover have "set cs = set (sel_ordered snapshot request opts)"
    using assms(1) sel_cands_mset by (metis selection_success set_mset_mset)
  ultimately show ?thesis by simp
qed

section \<open>Concrete runs\<close>

text \<open>A pool of a healthy account, a cooling one and an overflow; a key scoped to the pool.\<close>

definition sample_cooling :: account_snapshot where
  "sample_cooling = (plain_account ''acc_2'' AnthropicApi)\<lparr>acc_status := CoolingDown,
     acc_health := EMPTY_HEALTH\<lparr>ah_cooldownUntil := Some 5500, ah_cooldownSource := Some ProviderReported\<rparr>\<rparr>"

definition sample_snapshot :: routing_snapshot where
  "sample_snapshot =
     \<lparr>rt_accounts = [plain_account ''acc_1'' AnthropicApi, sample_cooling, plain_account ''acc_3'' Zai,
                     plain_account ''acc_4'' Kimi],
      rt_pools = [\<lparr>pool_id = ''p1'', pool_name = ''team'', pool_policy = RoundRobin,
                   pool_members = [\<lparr>pm_accountId = ''acc_1'', pm_weight = None, pm_priority = None\<rparr>,
                                   \<lparr>pm_accountId = ''acc_2'', pm_weight = None, pm_priority = None\<rparr>,
                                   \<lparr>pm_accountId = ''acc_3'', pm_weight = None, pm_priority = None\<rparr>],
                   pool_overflowAccountId = Some ''acc_3'', pool_rotationCounter = None\<rparr>],
      rt_now = 1000\<rparr>"

definition sample_request :: "key_scope \<Rightarrow> account_id option \<Rightarrow> selection_request" where
  "sample_request scp bound =
     \<lparr>rq_sessionKey = ''s'', rq_model = ''m'', rq_keyScope = scp,
      rq_binding = map_option (\<lambda>i. \<lparr>sb_accountId = i, sb_sdkSessionId = None\<rparr>) bound, rq_rotationCounter = None\<rparr>"

definition offered :: "selection_result \<Rightarrow> account_id list option" where
  "offered r = (case r of SelectionSuccess cs _ \<Rightarrow> Some (map (\<lambda>c. sa_id c) cs) | SelectionFailure _ _ \<Rightarrow> None)"

lemma offered_Some: "offered r = Some is \<Longrightarrow> \<exists>cs d. r = SelectionSuccess cs d \<and> map (\<lambda>c. sa_id c) cs = is"
  by (cases r) (simp_all add: offered_def)

lemma offered_None: "offered r = None \<Longrightarrow> \<exists>e d. r = SelectionFailure e d"
  by (cases r) (simp_all add: offered_def)

lemma sample_distinct: "distinct (map acc_id (rt_accounts sample_snapshot))"
  by code_simp

lemma sample_accounts:
  "plain_account ''acc_1'' AnthropicApi \<in> set (rt_accounts sample_snapshot)"
  "plain_account ''acc_3'' Zai \<in> set (rt_accounts sample_snapshot)"
  "sample_cooling \<in> set (rt_accounts sample_snapshot)"
  by (simp_all add: sample_snapshot_def)

lemma plain_admissible: "admissible (plain_account i p) model now th"
  by (simp add: admissible_def plain_account_def EMPTY_HEALTH_def resolveModel_def resolveExact_def serves_def ownEntry_def
      recoveryIsGated_def Let_def split: option.splits prod.splits)

theorem selection_stays_in_scope_witness:
  "\<exists>cs d. selectAccounts sample_snapshot (sample_request (ScopePools [''p1'']) None) NO_OPTIONS = SelectionSuccess cs d \<and>
     map (\<lambda>c. sa_id c) cs = [''acc_1''] \<and>
     (\<forall>c \<in> set cs. key_admits sample_snapshot (ScopePools [''p1'']) (sa_id c))"
proof -
  have "offered (selectAccounts sample_snapshot (sample_request (ScopePools [''p1'']) None) NO_OPTIONS) = Some [''acc_1'']"
    by code_simp
  then obtain cs d where ok: "selectAccounts sample_snapshot (sample_request (ScopePools [''p1'']) None) NO_OPTIONS = SelectionSuccess cs d"
      and ids: "map (\<lambda>c. sa_id c) cs = [''acc_1'']" by (auto dest!: offered_Some)
  have "\<forall>c \<in> set cs. key_admits sample_snapshot (ScopePools [''p1'']) (sa_id c)"
    using selection_stays_in_scope [OF ok] by (simp add: sample_request_def)
  with ok ids show ?thesis by (intro exI conjI)
qed

theorem refusal_only_when_nobody_can_serve_witness:
  "offered (selectAccounts sample_snapshot (sample_request (ScopeAccounts [''acc_2'']) None) NO_OPTIONS) = None \<and>
   \<not> admissible sample_cooling ''m'' 1000 (spent_threshold NO_OPTIONS)"
proof -
  define rq where "rq = sample_request (ScopeAccounts [''acc_2'']) None"
  have no: "offered (selectAccounts sample_snapshot rq NO_OPTIONS) = None" unfolding rq_def by code_simp
  then obtain e d where fail: "selectAccounts sample_snapshot rq NO_OPTIONS = SelectionFailure e d" using offered_None by blast
  have "sel_decided sample_snapshot rq NO_OPTIONS = NoBinding" by (simp add: sel_decided_def decideBinding_def rq_def sample_request_def)
  then have "\<not> is_blocked (dn_binding d)"
    using fail by (simp add: selection_failure sel_binding_def carryBlockedBinding_def is_blocked_iff)
  then have "\<not> admissible sample_cooling (rq_model rq) (rt_now sample_snapshot) (spent_threshold NO_OPTIONS)"
    by (rule refusal_only_when_nobody_can_serve [OF fail _ sample_distinct sample_accounts(3)])
      (simp add: rq_def sample_request_def has_account_def sample_snapshot_def sample_cooling_def plain_account_def)
  then show ?thesis using no by (simp add: rq_def sample_request_def sample_snapshot_def)
qed

theorem bound_session_stays_put_witness:
  "\<exists>c rest d. selectAccounts sample_snapshot (sample_request (ScopePools [''p1'']) (Some ''acc_3'')) NO_OPTIONS =
       SelectionSuccess (c # rest) d \<and> sa_account c = plain_account ''acc_3'' Zai \<and> dn_binding d = Honored ''acc_3''"
proof -
  have "\<exists>c rest d. selectAccounts sample_snapshot (sample_request (ScopePools [''p1'']) (Some ''acc_3'')) NO_OPTIONS =
       SelectionSuccess (c # rest) d \<and> sa_account c = plain_account ''acc_3'' Zai \<and>
       dn_binding d = Honored (acc_id (plain_account ''acc_3'' Zai))"
    by (rule bound_session_stays_put [where b = "\<lparr>sb_accountId = ''acc_3'', sb_sdkSessionId = None\<rparr>"])
      (use sample_distinct sample_accounts plain_admissible in \<open>auto simp: sample_request_def plain_account_def has_account_def
        sample_snapshot_def find_pool_def\<close>)
  then show ?thesis by (simp add: plain_account_def)
qed

theorem refusal_status_witness:
  "\<exists>e d. selectAccounts sample_snapshot (sample_request (ScopeAccounts [''acc_2'']) (Some ''acc_2'')) NO_OPTIONS = SelectionFailure e d \<and>
     status_of (re_code e) = 429 \<and> (\<exists>s. re_retryAfterSeconds e = Some s \<and> 1 \<le> s) \<and> dn_binding d = Blocked ''acc_2'' FCoolingDown (Some 5500) (Some ProviderReported)"
proof -
  define rq where "rq = sample_request (ScopeAccounts [''acc_2'']) (Some ''acc_2'')"
  have no: "offered (selectAccounts sample_snapshot rq NO_OPTIONS) = None" unfolding rq_def by code_simp
  then obtain e d where fail: "selectAccounts sample_snapshot rq NO_OPTIONS = SelectionFailure e d" using offered_None by blast
  have "sel_binding sample_snapshot rq NO_OPTIONS = Blocked ''acc_2'' FCoolingDown (Some 5500) (Some ProviderReported)"
    unfolding rq_def by code_simp
  then have b: "dn_binding d = Blocked ''acc_2'' FCoolingDown (Some 5500) (Some ProviderReported)"
    using fail by (simp add: selection_failure)
  then have "status_of (re_code e) = 429 \<and> (\<exists>s. re_retryAfterSeconds e = Some s \<and> 1 \<le> s)"
    using refusal_status [OF fail] by (simp add: NO_OPTIONS_def DEFAULT_UNKNOWN_RESET_RETRY_AFTER_SECONDS_def is_blocked_iff)
  then show ?thesis using fail b unfolding rq_def by blast
qed

theorem selection_is_complete_witness:
  "\<exists>cs d. selectAccounts sample_snapshot (sample_request ScopeAll None) NO_OPTIONS = SelectionSuccess cs d \<and>
     ''acc_1'' \<in> (\<lambda>c. sa_id c) ` set cs"
proof -
  have "offered (selectAccounts sample_snapshot (sample_request ScopeAll None) NO_OPTIONS) \<noteq> None" by code_simp
  then obtain cs d where ok: "selectAccounts sample_snapshot (sample_request ScopeAll None) NO_OPTIONS = SelectionSuccess cs d"
    using offered_Some by blast
  have "acc_id (plain_account ''acc_1'' AnthropicApi) \<in> (\<lambda>c. sa_id c) ` set cs"
    by (rule selection_is_complete [OF ok sample_distinct sample_accounts(1)])
      (use plain_admissible in \<open>auto simp: sample_request_def plain_account_def has_account_def sample_snapshot_def\<close>)
  then show ?thesis using ok by (auto simp: plain_account_def)
qed

end
