(* ===== verification/Snapshot.thy ===== *)
theory Snapshot
  imports Selection Health_Rules
begin

text \<open>
  What one request's selection reads (\<open>dataplane/snapshot.ts\<close>): the warm catalog with the live health
  overlaid, and the rotation counters of \<open>dataplane/rotation.ts\<close>. This is where the health store meets
  selection.
\<close>

section \<open>Rotation counters\<close>

definition MAX_SAFE_INTEGER :: int where "MAX_SAFE_INTEGER = 2 ^ 53 - 1"

definition UNPOOLED :: string where "UNPOOLED = []"

type_synonym rotation_counters = "(string, int) js_map"

definition rotation_key :: "pool_id option \<Rightarrow> string" where
  "rotation_key p = or_default p UNPOOLED"

definition rotation_current :: "pool_id option \<Rightarrow> rotation_counters \<Rightarrow> int" where
  "rotation_current p m = or_default (map_get m (rotation_key p)) 0"

definition rotation_advance :: "pool_id option \<Rightarrow> rotation_counters \<Rightarrow> rotation_counters" where
  "rotation_advance p m =
     (let key = rotation_key p; after = or_default (map_get m key) 0 + 1
      in map_set key (if after = MAX_SAFE_INTEGER then 0 else after) m)"

text \<open>A pool's counter is moved by its own placements only and stays a safe integer.\<close>

lemma rotation_advance_current:
  "rotation_current q (rotation_advance p m) =
     (if rotation_key q = rotation_key p
      then (if rotation_current p m + 1 = MAX_SAFE_INTEGER then 0 else rotation_current p m + 1)
      else rotation_current q m)"
  by (simp add: rotation_current_def rotation_advance_def or_default_def Let_def split: option.splits)

definition rotation_ok :: "rotation_counters \<Rightarrow> bool" where
  "rotation_ok m \<longleftrightarrow> (\<forall>q. 0 \<le> rotation_current q m \<and> rotation_current q m < MAX_SAFE_INTEGER)"

lemma rotation_ok_advance:
  assumes "rotation_ok m"
  shows "rotation_ok (rotation_advance p m)"
proof -
  have p: "0 \<le> rotation_current p m" "rotation_current p m < MAX_SAFE_INTEGER" using assms by (auto simp: rotation_ok_def)
  have "0 < MAX_SAFE_INTEGER" by (simp add: MAX_SAFE_INTEGER_def)
  show ?thesis
    unfolding rotation_ok_def
  proof
    fix q
    show "0 \<le> rotation_current q (rotation_advance p m) \<and> rotation_current q (rotation_advance p m) < MAX_SAFE_INTEGER"
    proof (cases "rotation_key q = rotation_key p")
      case True
      then show ?thesis using p \<open>0 < MAX_SAFE_INTEGER\<close> unfolding rotation_advance_current by (auto split: if_splits; linarith)
    next
      case False
      then show ?thesis using assms by (simp add: rotation_ok_def rotation_advance_current)
    qed
  qed
qed

section \<open>The overlay\<close>

text \<open>Of a catalog entry, what routing and health read.\<close>

record routable_account =
  ra_id :: account_id
  ra_lifecycleVersion :: int
  ra_healthRecoveryVersion :: int
  ra_authRecoveryVersion :: int
  ra_snapshot :: account_snapshot
  ra_authMaterial :: "string option"

definition accountHealthFacts :: "routable_account \<Rightarrow> health_facts" where
  "accountHealthFacts a =
     \<lparr>hf_lifecycleVersion = ra_lifecycleVersion a, hf_healthRecoveryVersion = ra_healthRecoveryVersion a,
      hf_authRecoveryVersion = ra_authRecoveryVersion a, hf_authMaterial = ra_authMaterial a,
      hf_status = acc_status (ra_snapshot a),
      hf_recoveryGeneration = map_option rs_generation (acc_recovery (ra_snapshot a))\<rparr>"

text \<open>
  A limiter reading keeps its name, reset, number and source; the model's reading has no other field, so
  \<open>toLimiterReading\<close> is the identity on it.
\<close>

definition overlayHealth :: "account_snapshot \<Rightarrow> account_health_state \<Rightarrow> account_snapshot" where
  "overlayHealth account state =
     (let configuredBlocks = (acc_status account \<in> {Disabled, NeedsReauth, Exhausted});
          status = (if configuredBlocks \<or> bs_status (hs_breaker state) = Active then acc_status account
                    else bs_status (hs_breaker state));
          quotaWindows = mergeQuotaWindows (or_default (acc_quotaWindows account) []) (Some (hs_quotaWindows state))
      in account\<lparr>
           acc_status := status,
           acc_quotaWindows := (if quotaWindows = [] then acc_quotaWindows account else Some quotaWindows),
           acc_limiterWindows := (if hs_limiterWindows state = [] then acc_limiterWindows account
                                  else Some (hs_limiterWindows state)),
           acc_health :=
             \<lparr>ah_cooldownUntil = bs_cooldownUntil (hs_breaker state),
              ah_cooldownSource = Some (bs_cooldownSource (hs_breaker state)),
              ah_cooldownReason = bs_cooldownReason (hs_breaker state),
              ah_consecutiveFailures = bs_consecutiveFailures (hs_breaker state),
              ah_probeHeldUntil = hs_probeHeldUntil state,
              ah_inFlight = hs_inFlight state,
              ah_recentTokens = hs_recentTokens state\<rparr>\<rparr>)"

definition buildSnapshot ::
  "routable_account list \<Rightarrow> pool_snapshot list \<Rightarrow> instant \<Rightarrow> rotation_counters option \<Rightarrow> health_store \<Rightarrow>
     routing_snapshot \<times> health_store" where
  "buildSnapshot accounts pools now rotation h =
     (let h = fold (\<lambda>a. store_reconcile (ra_id a) (accountHealthFacts a)) accounts h
      in (\<lparr>rt_accounts = map (\<lambda>a. overlayHealth (ra_snapshot a) (stateOf h (ra_id a))) accounts,
           rt_pools = (case rotation of
                         None \<Rightarrow> pools
                       | Some counters \<Rightarrow>
                           map (\<lambda>p. p\<lparr>pool_rotationCounter := Some (rotation_current (Some (pool_id p)) counters)\<rparr>) pools),
           rt_now = now\<rparr>, h))"

section \<open>Health governs selection\<close>

lemma overlay_fields [simp]:
  "acc_id (overlayHealth a st) = acc_id a" "acc_recovery (overlayHealth a st) = acc_recovery a"
  "ah_cooldownUntil (acc_health (overlayHealth a st)) = bs_cooldownUntil (hs_breaker st)"
  "ah_probeHeldUntil (acc_health (overlayHealth a st)) = hs_probeHeldUntil st"
  by (simp_all add: overlayHealth_def Let_def)

text \<open>What an admissible overlaid account says about the operator's word and the breaker.\<close>

definition may_be_tried :: "account_snapshot \<Rightarrow> account_health_state \<Rightarrow> instant \<Rightarrow> bool" where
  "may_be_tried a st now \<longleftrightarrow>
     acc_status a \<notin> {Disabled, NeedsReauth, Exhausted} \<and>
     phase (hs_breaker st) now \<noteq> BlockedPhase \<and>
     (phase (hs_breaker st) now = Open \<longrightarrow> bs_cooldownUntil (hs_breaker st) = None \<and> hasRecoveryPermit a) \<and>
     (phase (hs_breaker st) now = HalfOpen \<longrightarrow> (\<forall>t. hs_probeHeldUntil st = Some t \<longrightarrow> t \<le> now))"

lemma overlay_admissible:
  assumes "admissible (overlayHealth a st) model now th"
  shows "may_be_tried a st now"
proof -
  have permit: "hasRecoveryPermit (overlayHealth a st) = hasRecoveryPermit a" by (simp add: hasRecoveryPermit_def)
  have status: "acc_status (overlayHealth a st) =
      (if acc_status a \<in> {Disabled, NeedsReauth, Exhausted} \<or> bs_status (hs_breaker st) = Active then acc_status a
       else bs_status (hs_breaker st))"
    by (simp add: overlayHealth_def Let_def)
  have adm: "acc_status (overlayHealth a st) \<in> {Active, CoolingDown}"
    "\<And>t. bs_cooldownUntil (hs_breaker st) = Some t \<Longrightarrow> t \<le> now"
    "acc_status (overlayHealth a st) = CoolingDown \<Longrightarrow> bs_cooldownUntil (hs_breaker st) = None \<Longrightarrow> hasRecoveryPermit a"
    "\<And>t. acc_status (overlayHealth a st) = CoolingDown \<Longrightarrow> hs_probeHeldUntil st = Some t \<Longrightarrow> t \<le> now"
    using assms by (simp_all add: admissible_def permit)
  have op: "acc_status a \<notin> {Disabled, NeedsReauth, Exhausted}" using adm(1) unfolding status by (auto split: if_splits)
  show ?thesis
  proof (cases "bs_status (hs_breaker st) = Active")
    case True
    then show ?thesis using op by (simp add: may_be_tried_def phase_def)
  next
    case False
    then have cooling: "acc_status (overlayHealth a st) = CoolingDown" "bs_status (hs_breaker st) = CoolingDown"
      using adm(1) op unfolding status by (auto split: if_splits)
    then show ?thesis
      using op adm(2-4) by (cases "bs_cooldownUntil (hs_breaker st)") (auto simp: may_be_tried_def phase_def)
  qed
qed

end
