(* ===== verification/Rate_Limiter.thy ===== *)
theory Rate_Limiter
  imports Domain Js_Map
begin

text \<open>
  The per-key rate limit of \<open>dataplane/limits.ts\<close>: a sliding window kept as a list with a moving head
  and lazy compaction, behind a map bounded by eviction. The specification is the list of every
  accepted instant; the window is proved to be its live suffix.
\<close>

section \<open>The limiter\<close>

record rate_limited_key =
  rk_id :: string
  rk_rateLimitRequests :: "int option"
  rk_rateLimitWindowSeconds :: "int option"

datatype rate_limit_decision = Allowed | RefusedUntil int instant \<comment> \<open>\<open>retryAfterSeconds\<close>, \<open>resetsAt\<close>\<close>

record window =
  wd_limit :: int
  wd_windowMs :: int
  wd_instants :: "instant list"
  wd_head :: nat

type_synonym rate_limiter = "(string, window) js_map"

definition DEFAULT_RATE_LIMIT_MAX_KEYS :: nat where "DEFAULT_RATE_LIMIT_MAX_KEYS = 4096"

definition COMPACT_SLACK :: nat where "COMPACT_SLACK = 64"

fun prune_head :: "instant list \<Rightarrow> instant \<Rightarrow> nat" where
  "prune_head [] cutoff = 0"
| "prune_head (t # ts) cutoff = (if t > cutoff then 0 else Suc (prune_head ts cutoff))"

definition prune :: "window \<Rightarrow> instant \<Rightarrow> window" where
  "prune w cutoff =
     (let head = wd_head w + prune_head (drop (wd_head w) (wd_instants w)) cutoff
      in if head \<ge> COMPACT_SLACK
         then w\<lparr>wd_instants := drop head (wd_instants w), wd_head := 0\<rparr>
         else w\<lparr>wd_head := head\<rparr>)"

definition live :: "window \<Rightarrow> nat" where
  "live w = length (wd_instants w) - wd_head w"

definition drained :: "window \<Rightarrow> instant \<Rightarrow> bool" where
  "drained w now \<longleftrightarrow> wd_instants w = [] \<or> last (wd_instants w) + wd_windowMs w \<le> now"

definition evict :: "nat \<Rightarrow> instant \<Rightarrow> rate_limiter \<Rightarrow> rate_limiter" where
  "evict maxKeys now windows =
     (let kept = filter (\<lambda>(k, w). \<not> drained w now) windows
      in if map_size kept < maxKeys then kept else tl kept)"

definition check_window :: "window \<Rightarrow> instant \<Rightarrow> rate_limit_decision \<times> window" where
  "check_window w now =
     (let w' = prune w (now - wd_windowMs w)
      in if int (live w') \<ge> wd_limit w' \<and> wd_head w' < length (wd_instants w') then
           let resetsAt = wd_instants w' ! wd_head w' + wd_windowMs w'
           in (RefusedUntil (max 1 (ceil_div (resetsAt - now) 1000)) resetsAt, w')
         else (Allowed, w'\<lparr>wd_instants := wd_instants w' @ [now]\<rparr>))"

definition check :: "nat \<Rightarrow> rate_limited_key \<Rightarrow> instant \<Rightarrow> rate_limiter \<Rightarrow> rate_limit_decision \<times> rate_limiter" where
  "check maxKeys key now windows =
     (case (rk_rateLimitRequests key, rk_rateLimitWindowSeconds key) of
        (Some limit, Some windowSeconds) \<Rightarrow>
          if limit < 1 \<or> windowSeconds < 1 then (Allowed, windows)
          else
            let windowMs = windowSeconds * 1000;
                held = map_get windows (rk_id key);
                usable = (case held of None \<Rightarrow> False | Some w \<Rightarrow> wd_limit w = limit \<and> wd_windowMs w = windowMs);
                windows1 = (if usable then windows
                            else map_set (rk_id key)
                                   \<lparr>wd_limit = limit, wd_windowMs = windowMs, wd_instants = [], wd_head = 0\<rparr>
                                   (if held = None \<and> map_size windows \<ge> maxKeys
                                    then evict maxKeys now windows else windows));
                (decision, w') = check_window (the (map_get windows1 (rk_id key))) now
            in (decision, map_set (rk_id key) w' windows1)
      | _ \<Rightarrow> (Allowed, windows))"

definition forget :: "string \<Rightarrow> rate_limiter \<Rightarrow> rate_limiter" where
  "forget keyId windows = map_delete keyId windows"

text \<open>A ceiling is positive where a refusal is rendered, so its decimal rendering is that of a natural number.\<close>

definition keyRateLimitedError :: "rate_limited_key \<Rightarrow> int \<Rightarrow> instant \<Rightarrow> router_error" where
  "keyRateLimitedError key retryAfter resetsAt =
     KeyRateLimitedError
       (''This API key is over its rate limit of ''
          @ show_nat (nat (the (rk_rateLimitRequests key))) @ '' requests per ''
          @ show_nat (nat (the (rk_rateLimitWindowSeconds key))) @ ''s. The window resets at '' @ toISOString resetsAt)
       retryAfter"

section \<open>The window is the live part of the history\<close>

text \<open>
  The specification keeps every accepted instant and counts those still inside the window.
\<close>

definition in_window :: "int \<Rightarrow> instant \<Rightarrow> instant list \<Rightarrow> instant list" where
  "in_window windowMs now accepted = filter (\<lambda>t. t > now - windowMs) accepted"

definition spec_check :: "int \<Rightarrow> int \<Rightarrow> instant \<Rightarrow> instant list \<Rightarrow> rate_limit_decision \<times> instant list" where
  "spec_check limit windowMs now accepted =
     (case in_window windowMs now accepted of
        [] \<Rightarrow> (Allowed, accepted @ [now])
      | oldest # rest \<Rightarrow>
          if int (length rest + 1) \<ge> limit
          then (RefusedUntil (max 1 (ceil_div (oldest + windowMs - now) 1000)) (oldest + windowMs), accepted)
          else (Allowed, accepted @ [now]))"

abbreviation live_instants :: "window \<Rightarrow> instant list" where
  "live_instants w \<equiv> drop (wd_head w) (wd_instants w)"

text \<open>
  The simulation: the window's live list is what the history holds from some instant on, every
  dropped instant has left the window, and nothing lies in the future.
\<close>

definition simulates :: "int \<Rightarrow> int \<Rightarrow> instant \<Rightarrow> instant list \<Rightarrow> window \<Rightarrow> bool" where
  "simulates limit windowMs now accepted w \<longleftrightarrow>
     wd_limit w = limit \<and> wd_windowMs w = windowMs \<and> wd_head w \<le> length (wd_instants w) \<and>
     sorted accepted \<and> (\<forall>t\<in>set accepted. t \<le> now) \<and>
     (\<exists>gone. accepted = gone @ live_instants w \<and> (\<forall>t\<in>set gone. t \<le> now - windowMs))"

lemma prune_head_drop:
  "sorted ts \<Longrightarrow> drop (prune_head ts cutoff) ts = filter (\<lambda>t. t > cutoff) ts \<and> prune_head ts cutoff \<le> length ts \<and>
     (\<forall>t\<in>set (take (prune_head ts cutoff) ts). t \<le> cutoff)"
proof (induction ts)
  case (Cons t ts)
  have "filter (\<lambda>t. t > cutoff) ts = ts" if "t > cutoff" using that Cons.prems by (auto simp: filter_id_conv)
  then show ?case using Cons by auto
qed simp

lemma prune_live:
  assumes "sorted (live_instants w)" "wd_head w \<le> length (wd_instants w)"
  shows "live_instants (prune w cutoff) = filter (\<lambda>t. t > cutoff) (live_instants w)"
    and "wd_head (prune w cutoff) \<le> length (wd_instants (prune w cutoff))"
    and "wd_limit (prune w cutoff) = wd_limit w" "wd_windowMs (prune w cutoff) = wd_windowMs w"
  using prune_head_drop [OF assms(1), of cutoff] assms(2)
  by (auto simp: prune_def Let_def add.commute)

lemma live_length: "live w = length (live_instants w)"
  by (simp add: live_def)

lemma check_window_step:
  assumes "simulates limit windowMs past accepted w" "past \<le> now" "0 < windowMs" "1 \<le> limit"
    and "check_window w now = (d, w')"
  shows "\<exists>accepted'. spec_check limit windowMs now accepted = (d, accepted') \<and> simulates limit windowMs now accepted' w'"
proof -
  obtain gone where acc: "accepted = gone @ live_instants w" "\<forall>t\<in>set gone. t \<le> past - windowMs"
    and cfg: "wd_limit w = limit" "wd_windowMs w = windowMs" "wd_head w \<le> length (wd_instants w)"
    and ord: "sorted accepted" "\<forall>t\<in>set accepted. t \<le> past"
    using assms(1) by (auto simp: simulates_def)
  define p where "p = prune w (now - windowMs)"
  have sl: "sorted (live_instants w)" using ord(1) acc(1) by (simp add: sorted_append)
  note pl = prune_live [OF sl cfg(3), of "now - windowMs", folded p_def]
  have gone_out: "\<forall>t\<in>set gone. t \<le> now - windowMs" using acc(2) assms(2) by auto
  have win: "in_window windowMs now accepted = live_instants p"
    using gone_out by (auto simp: in_window_def acc(1) pl(1) filter_empty_conv)
  have split: "\<exists>gone'. accepted = gone' @ live_instants p \<and> (\<forall>t\<in>set gone'. t \<le> now - windowMs)"
  proof (intro exI conjI)
    let ?n = "prune_head (live_instants w) (now - windowMs)"
    have "live_instants p = drop ?n (live_instants w)" unfolding pl(1) using prune_head_drop [OF sl, of "now - windowMs"] by simp
    then show "accepted = (gone @ take ?n (live_instants w)) @ live_instants p"
      unfolding acc(1) append_assoc by (simp only: append_take_drop_id)
    show "\<forall>t\<in>set (gone @ take ?n (live_instants w)). t \<le> now - windowMs"
      using prune_head_drop [OF sl, of "now - windowMs"] gone_out by auto
  qed
  have head: "wd_head p < length (wd_instants p) \<Longrightarrow> live_instants p = wd_instants p ! wd_head p # drop (Suc (wd_head p)) (wd_instants p)"
    by (simp add: Cons_nth_drop_Suc)
  have tail: "simulates limit windowMs now accepted p" "simulates limit windowMs now (accepted @ [now]) (p\<lparr>wd_instants := wd_instants p @ [now]\<rparr>)"
    using split ord assms(2) pl cfg by (auto simp: simulates_def sorted_append intro: order_trans)
  have d: "check_window w now = (if int (live p) \<ge> limit \<and> wd_head p < length (wd_instants p) then
      (RefusedUntil (max 1 (ceil_div (wd_instants p ! wd_head p + windowMs - now) 1000)) (wd_instants p ! wd_head p + windowMs), p)
      else (Allowed, p\<lparr>wd_instants := wd_instants p @ [now]\<rparr>))"
    using cfg pl by (simp add: check_window_def Let_def p_def)
  show ?thesis
  proof (cases "wd_head p < length (wd_instants p)")
    case True
    then show ?thesis
      using head [OF True] tail d assms(5) win
      by (auto simp: spec_check_def live_def Suc_diff_Suc split: if_splits)
  next
    case False
    then have "live_instants p = []" by simp
    then show ?thesis using False tail d assms(5) win by (simp add: spec_check_def)
  qed
qed

section \<open>Runs\<close>

type_synonym limiter_call = "rate_limited_key \<times> instant"

text \<open>The limiter over a sequence of calls of any keys, with the log of what it accepted.\<close>

definition limiter_step ::
  "nat \<Rightarrow> limiter_call \<Rightarrow> rate_limiter \<times> (string \<times> instant) list \<Rightarrow> rate_limiter \<times> (string \<times> instant) list" where
  "limiter_step maxKeys call st =
     (let (d, windows) = check maxKeys (fst call) (snd call) (fst st)
      in (windows, if d = Allowed then snd st @ [(rk_id (fst call), snd call)] else snd st))"

definition limiter_run :: "nat \<Rightarrow> limiter_call list \<Rightarrow> rate_limiter \<times> (string \<times> instant) list" where
  "limiter_run maxKeys calls = fold (limiter_step maxKeys) calls ([], [])"

definition accepted_of :: "string \<Rightarrow> (string \<times> instant) list \<Rightarrow> instant list" where
  "accepted_of k entries = map snd (filter (\<lambda>e. fst e = k) entries)"

lemma accepted_of_append [simp]: "accepted_of k (entries @ [(i, t)]) = accepted_of k entries @ (if i = k then [t] else [])"
  by (simp add: accepted_of_def)

text \<open>The calls carry one configuration of the key, on a clock that does not run backwards.\<close>

definition configured :: "string \<Rightarrow> int \<Rightarrow> int \<Rightarrow> limiter_call list \<Rightarrow> bool" where
  "configured k limit seconds calls \<longleftrightarrow>
     1 \<le> limit \<and> 1 \<le> seconds \<and>
     list_all (\<lambda>c. rk_id (fst c) = k \<longrightarrow>
       rk_rateLimitRequests (fst c) = Some limit \<and> rk_rateLimitWindowSeconds (fst c) = Some seconds) calls"

definition limiter_inv ::
  "string \<Rightarrow> int \<Rightarrow> int \<Rightarrow> string set \<Rightarrow> instant \<Rightarrow> rate_limiter \<times> (string \<times> instant) list \<Rightarrow> bool" where
  "limiter_inv k limit windowMs ids now st \<longleftrightarrow>
     map_ok (fst st) \<and> fst ` set (fst st) \<subseteq> ids \<and>
     (case map_get (fst st) k of
        None \<Rightarrow> accepted_of k (snd st) = []
      | Some w \<Rightarrow> simulates limit windowMs now (accepted_of k (snd st)) w)"

lemma simulates_later: "simulates limit windowMs past acc w \<Longrightarrow> past \<le> now \<Longrightarrow> simulates limit windowMs now acc w"
  unfolding simulates_def by (fastforce intro: order_trans)

lemma room_for_new_key:
  assumes "map_ok windows" "fst ` set windows \<subseteq> ids" "finite ids" "card ids \<le> maxKeys" "k \<in> ids" "map_get windows k = None"
  shows "map_size windows < maxKeys"
proof -
  have "k \<notin> fst ` set windows" using assms(6) map_has_get [of k windows] by (simp add: map_has_def)
  then have "fst ` set windows \<subset> ids" using assms(2,5) by blast
  then have "card (fst ` set windows) < card ids" using assms(3) by (simp add: psubset_card_mono)
  moreover have "card (fst ` set windows) = map_size windows"
    using assms(1) distinct_card [of "map fst windows"] by (simp add: map_ok_def map_size_def)
  ultimately show ?thesis using assms(4) by simp
qed

text \<open>With room in the map, a call works on its own window, fresh or held, and on no other.\<close>

lemma check_unevicted:
  assumes "map_get windows (rk_id key) = None \<longrightarrow> map_size windows < maxKeys"
  shows "check maxKeys key now windows =
    (case (rk_rateLimitRequests key, rk_rateLimitWindowSeconds key) of
       (Some limit, Some seconds) \<Rightarrow>
         if limit < 1 \<or> seconds < 1 then (Allowed, windows)
         else
           let fresh = \<lparr>wd_limit = limit, wd_windowMs = seconds * 1000, wd_instants = [], wd_head = 0\<rparr>;
               w = (case map_get windows (rk_id key) of
                      None \<Rightarrow> fresh
                    | Some w \<Rightarrow> if wd_limit w = limit \<and> wd_windowMs w = seconds * 1000 then w else fresh);
               base = (case map_get windows (rk_id key) of
                      None \<Rightarrow> map_set (rk_id key) fresh windows
                    | Some w \<Rightarrow> if wd_limit w = limit \<and> wd_windowMs w = seconds * 1000 then windows
                                else map_set (rk_id key) fresh windows)
           in (fst (check_window w now), map_set (rk_id key) (snd (check_window w now)) base)
     | _ \<Rightarrow> (Allowed, windows))"
  using assms by (auto simp: check_def Let_def case_prod_beta split: option.splits)

lemma map_set_keys [simp]: "fst ` set (map_set k v m) = insert k (fst ` set m)"
  using map_has_set [of _ k v m] by (auto simp: map_has_def)

lemma simulates_fresh: "simulates limit windowMs now [] \<lparr>wd_limit = limit, wd_windowMs = windowMs, wd_instants = [], wd_head = 0\<rparr>"
  by (simp add: simulates_def)

lemma limiter_step_other:
  assumes inv: "limiter_inv k limit windowMs ids past st" and "finite ids" "card ids \<le> maxKeys"
    and "rk_id (fst call) \<in> ids" "rk_id (fst call) \<noteq> k" "past \<le> snd call"
  shows "limiter_inv k limit windowMs ids (snd call) (limiter_step maxKeys call st)"
proof -
  have room: "map_get (fst st) (rk_id (fst call)) = None \<longrightarrow> map_size (fst st) < maxKeys"
    using inv assms(2,3,4) by (auto simp: limiter_inv_def intro: room_for_new_key)
  show ?thesis
    using assms(4,5) inv simulates_later [OF _ assms(6)]
    by (auto simp: limiter_inv_def limiter_step_def check_unevicted [OF room] Let_def split: option.splits)
qed

lemma limiter_step_own:
  assumes inv: "limiter_inv k limit (seconds * 1000) ids past st" and "finite ids" "card ids \<le> maxKeys"
    and key: "rk_id key = k" "rk_rateLimitRequests key = Some limit" "rk_rateLimitWindowSeconds key = Some seconds"
    and pos: "1 \<le> limit" "1 \<le> seconds" and "k \<in> ids" "past \<le> now"
  shows "fst (check maxKeys key now (fst st)) = fst (spec_check limit (seconds * 1000) now (accepted_of k (snd st)))"
    and "limiter_inv k limit (seconds * 1000) ids now (limiter_step maxKeys (key, now) st)"
proof -
  have room: "map_get (fst st) (rk_id key) = None \<longrightarrow> map_size (fst st) < maxKeys"
    using inv assms(2,3) key(1) assms(9) by (auto simp: limiter_inv_def intro: room_for_new_key)
  let ?fresh = "\<lparr>wd_limit = limit, wd_windowMs = seconds * 1000, wd_instants = [], wd_head = 0\<rparr>"
  define w where "w = (case map_get (fst st) k of None \<Rightarrow> ?fresh | Some w \<Rightarrow> w)"
  have w: "simulates limit (seconds * 1000) past (accepted_of k (snd st)) w"
    using inv simulates_fresh by (auto simp: limiter_inv_def w_def split: option.splits)
  obtain d w' where cw: "check_window w now = (d, w')" by fastforce
  obtain acc' where spec: "spec_check limit (seconds * 1000) now (accepted_of k (snd st)) = (d, acc')"
      "simulates limit (seconds * 1000) now acc' w'"
    using check_window_step [OF w assms(10) _ pos(1) cw] pos(2) by auto
  have acc': "acc' = accepted_of k (snd st) @ (if d = Allowed then [now] else [])"
    using spec(1) by (auto simp: spec_check_def split: list.splits if_splits)
  have cfg: "wd_limit w = limit" "wd_windowMs w = seconds * 1000" using w by (simp_all add: simulates_def)
  have "check maxKeys key now (fst st) =
      (d, map_set k w' (case map_get (fst st) k of None \<Rightarrow> map_set k ?fresh (fst st) | Some _ \<Rightarrow> fst st))"
    using check_unevicted [OF room, of now] cw key pos cfg
    by (cases "map_get (fst st) k") (simp_all add: Let_def w_def)
  then have check: "fst (check maxKeys key now (fst st)) = d \<and>
      map_get (snd (check maxKeys key now (fst st))) k = Some w' \<and> map_ok (snd (check maxKeys key now (fst st))) \<and>
      fst ` set (snd (check maxKeys key now (fst st))) \<subseteq> ids"
    using inv assms(9) by (auto simp: limiter_inv_def split: option.splits)
  then show "fst (check maxKeys key now (fst st)) = fst (spec_check limit (seconds * 1000) now (accepted_of k (snd st)))"
    using spec(1) by simp
  show "limiter_inv k limit (seconds * 1000) ids now (limiter_step maxKeys (key, now) st)"
    using check spec(2) acc' key(1) by (auto simp: limiter_step_def limiter_inv_def Let_def case_prod_beta)
qed

lemma limiter_run_inv:
  assumes "configured k limit seconds calls" "sorted (map snd calls)" "\<forall>c\<in>set calls. rk_id (fst c) \<in> ids"
    and "finite ids" "card ids \<le> maxKeys" "k \<in> ids" "\<forall>c\<in>set calls. snd c \<le> now"
  shows "limiter_inv k limit (seconds * 1000) ids now (limiter_run maxKeys calls)"
  using assms
proof (induction calls arbitrary: now rule: rev_induct)
  case Nil
  then show ?case by (simp add: limiter_run_def limiter_inv_def accepted_of_def)
next
  case (snoc c calls)
  have "limiter_inv k limit (seconds * 1000) ids (snd c) (limiter_run maxKeys calls)"
    using snoc.prems by (intro snoc.IH) (auto simp: configured_def sorted_append)
  then have "limiter_inv k limit (seconds * 1000) ids (snd c) (limiter_step maxKeys c (limiter_run maxKeys calls))"
    using snoc.prems limiter_step_other [of k limit "seconds * 1000" ids "snd c" _ maxKeys c]
      limiter_step_own(2) [of k limit seconds ids "snd c" _ maxKeys "fst c" "snd c"]
    by (cases "rk_id (fst c) = k") (auto simp: configured_def)
  then show ?case
    using snoc.prems simulates_later
    by (auto simp: limiter_run_def limiter_inv_def split: option.splits)
qed

definition within_ceiling :: "int \<Rightarrow> int \<Rightarrow> instant list \<Rightarrow> bool" where
  "within_ceiling limit windowMs acc \<longleftrightarrow> (\<forall>t. int (length (filter (\<lambda>x. t - windowMs < x \<and> x \<le> t) acc)) \<le> limit)"

lemma spec_allows_below_ceiling:
  "fst (spec_check limit windowMs now acc) = Allowed \<Longrightarrow> 1 \<le> limit \<Longrightarrow> int (length (in_window windowMs now acc)) < limit"
  by (auto simp: spec_check_def split: list.splits if_splits)

lemma length_filter_implies:
  "(\<And>x. x \<in> set xs \<Longrightarrow> P x \<Longrightarrow> Q x) \<Longrightarrow> length (filter P xs) \<le> length (filter Q xs)"
  by (induction xs) (auto intro: le_SucI)

lemma ceiling_kept:
  assumes "within_ceiling limit windowMs acc" "fst (spec_check limit windowMs now acc) = Allowed" "1 \<le> limit"
  shows "within_ceiling limit windowMs (acc @ [now])"
  unfolding within_ceiling_def
proof
  fix t
  show "int (length (filter (\<lambda>x. t - windowMs < x \<and> x \<le> t) (acc @ [now]))) \<le> limit"
  proof (cases "t - windowMs < now \<and> now \<le> t")
    case True
    have "length (filter (\<lambda>x. t - windowMs < x \<and> x \<le> t) acc) \<le> length (in_window windowMs now acc)"
      unfolding in_window_def using True by (intro length_filter_implies) auto
    then show ?thesis using True spec_allows_below_ceiling [OF assms(2,3)] by simp
  next
    case False
    then show ?thesis using assms(1) by (auto simp: within_ceiling_def)
  qed
qed

lemma limiter_run_ceiling:
  assumes "configured k limit seconds calls" "sorted (map snd calls)" "\<forall>c\<in>set calls. rk_id (fst c) \<in> ids"
    and "finite ids" "card ids \<le> maxKeys" "k \<in> ids"
  shows "within_ceiling limit (seconds * 1000) (accepted_of k (snd (limiter_run maxKeys calls)))"
  using assms
proof (induction calls rule: rev_induct)
  case Nil
  then show ?case by (simp add: limiter_run_def accepted_of_def within_ceiling_def configured_def)
next
  case (snoc c calls)
  let ?st = "limiter_run maxKeys calls"
  have IH: "within_ceiling limit (seconds * 1000) (accepted_of k (snd ?st))"
    using snoc.prems by (intro snoc.IH) (auto simp: configured_def sorted_append)
  have inv: "limiter_inv k limit (seconds * 1000) ids (snd c) ?st"
    using snoc.prems by (intro limiter_run_inv) (auto simp: configured_def sorted_append)
  have run: "limiter_run maxKeys (calls @ [c]) = limiter_step maxKeys c ?st" by (simp add: limiter_run_def)
  show ?case
  proof (cases "rk_id (fst c) = k")
    case True
    then have "fst (check maxKeys (fst c) (snd c) (fst ?st)) = fst (spec_check limit (seconds * 1000) (snd c) (accepted_of k (snd ?st)))"
      using snoc.prems inv by (intro limiter_step_own(1)) (auto simp: configured_def)
    then show ?thesis
      using True IH ceiling_kept [OF IH, of "snd c"] snoc.prems(1)
      by (auto simp: run limiter_step_def Let_def case_prod_beta configured_def)
  next
    case False
    then show ?thesis using IH by (simp add: run limiter_step_def Let_def case_prod_beta)
  qed
qed

text \<open>
  (C18) A key's ceiling is exact. Over any run of calls of any keys, on a clock that does not run
  backwards and with no more keys than the map holds: no window of the configured length, wherever it
  starts, contains more accepted requests of the key than its ceiling; and every answer is the one the
  full history of accepted requests gives, so a request is refused only while the ceiling is spent,
  with the instant the oldest of them leaves the window. The moving head, the compaction and the other
  keys are invisible.
\<close>

theorem rate_limit_is_exact:
  assumes "configured k limit seconds (calls @ [(key, now)])" and "sorted (map snd calls @ [now])"
    and "card ((\<lambda>c. rk_id (fst c)) ` set (calls @ [(key, now)])) \<le> maxKeys" and "rk_id key = k"
  shows "within_ceiling limit (seconds * 1000) (accepted_of k (snd (limiter_run maxKeys (calls @ [(key, now)])))) \<and>
    fst (check maxKeys key now (fst (limiter_run maxKeys calls))) =
      fst (spec_check limit (seconds * 1000) now (accepted_of k (snd (limiter_run maxKeys calls))))"
proof
  let ?ids = "(\<lambda>c. rk_id (fst c)) ` set (calls @ [(key, now)])"
  show "within_ceiling limit (seconds * 1000) (accepted_of k (snd (limiter_run maxKeys (calls @ [(key, now)]))))"
    using assms by (intro limiter_run_ceiling [where ids = ?ids]) auto
  have "limiter_inv k limit (seconds * 1000) ?ids now (limiter_run maxKeys calls)"
    using assms by (intro limiter_run_inv) (auto simp: configured_def sorted_append)
  then show "fst (check maxKeys key now (fst (limiter_run maxKeys calls))) =
      fst (spec_check limit (seconds * 1000) now (accepted_of k (snd (limiter_run maxKeys calls))))"
    using assms by (intro limiter_step_own(1)) (auto simp: configured_def)
qed

definition sample_key :: "string \<Rightarrow> rate_limited_key" where
  "sample_key i = \<lparr>rk_id = i, rk_rateLimitRequests = Some 2, rk_rateLimitWindowSeconds = Some 1\<rparr>"

theorem rate_limit_is_exact_witness:
  "let calls = [(sample_key ''k'', 0), (sample_key ''j'', 10), (sample_key ''k'', 400)]
   in fst (check 2 (sample_key ''k'') 700 (fst (limiter_run 2 calls))) = RefusedUntil 1 1000"
proof -
  let ?calls = "[(sample_key ''k'', 0), (sample_key ''j'', 10), (sample_key ''k'', 400)]"
  have "card ((\<lambda>c. rk_id (fst c)) ` set (?calls @ [(sample_key ''k'', 700)])) \<le> 2"
    by (simp add: sample_key_def insert_commute card_insert_if)
  then have "fst (check 2 (sample_key ''k'') 700 (fst (limiter_run 2 ?calls))) =
      fst (spec_check 2 (1 * 1000) 700 (accepted_of ''k'' (snd (limiter_run 2 ?calls))))"
    by (intro rate_limit_is_exact [THEN conjunct2]) (simp_all add: configured_def sample_key_def)
  moreover have "accepted_of ''k'' (snd (limiter_run 2 ?calls)) = [0, 400]" by code_simp
  ultimately show ?thesis by (simp add: spec_check_def in_window_def ceil_div_def)
qed

end
