(* ===== verification/Sse.thy ===== *)
theory Sse
  imports Js_Text "HOL-Library.Word"
begin

text \<open>
  The event stream seam of the translation path: the incremental reader of
  \<open>translate/sse/parse.ts\<close>, the encoder of \<open>translate/sse/emit.ts\<close> and the comment forwarding of
  \<open>dataplane/relay-translate.ts\<close>. Text is a list of UTF-16 code units, which is what the reader
  indexes. \<open>feed\<close> is the reference: the grammar read one code unit at a time, with no buffer of
  chunks. The reader over any non-empty chunks equals it (\<open>pushes_feeds\<close>), and from there the round
  trip is a statement about lines.
\<close>

section \<open>Data\<close>

type_synonym code_unit = "16 word"
type_synonym js_text = "code_unit list"

definition units :: "string \<Rightarrow> js_text" where
  "units s = map (\<lambda>c. of_nat (of_char c)) s"

definition CR :: code_unit where "CR = 13"
definition LF :: code_unit where "LF = 10"
definition BOM :: code_unit where "BOM = 0xFEFF"
definition COLON :: code_unit where "COLON = 58"
definition SPACE :: code_unit where "SPACE = 32"

record sse_frame =
  sf_event :: "js_text option"
  sf_data :: js_text

text \<open>The variables \<open>createSseParser\<close> closes over; the texts handed to \<open>onComment\<close> are a log.\<close>

record sse_parser =
  sp_buffer :: js_text
  sp_atStreamStart :: bool
  sp_pendingLf :: bool
  sp_event :: "js_text option"
  sp_data :: "js_text list"
  sp_comments :: "js_text list"

definition createSseParser :: sse_parser where
  "createSseParser =
     \<lparr>sp_buffer = [], sp_atStreamStart = True, sp_pendingLf = False, sp_event = None, sp_data = [], sp_comments = []\<rparr>"

section \<open>The reader\<close>

definition dispatch_frame :: "sse_parser \<Rightarrow> sse_parser \<times> sse_frame list" where
  "dispatch_frame p =
     (if sp_data p = [] then (p\<lparr>sp_event := None\<rparr>, [])
      else (p\<lparr>sp_event := None, sp_data := []\<rparr>, [\<lparr>sf_event = sp_event p, sf_data = join [LF] (sp_data p)\<rparr>]))"

definition read_line :: "js_text \<Rightarrow> sse_parser \<Rightarrow> sse_parser \<times> sse_frame list" where
  "read_line raw p =
     (if raw = [] then dispatch_frame p
      else if hd raw = COLON then (p\<lparr>sp_comments := sp_comments p @ [tl raw]\<rparr>, [])
      else
        let colon = find_index (\<lambda>c. c = COLON) raw;
            field = (case colon of None \<Rightarrow> raw | Some i \<Rightarrow> take i raw);
            rest = (case colon of None \<Rightarrow> [] | Some i \<Rightarrow> drop (i + 1) raw);
            val = (case rest of c # cs \<Rightarrow> if c = SPACE then cs else rest | [] \<Rightarrow> rest)
        in if field = units ''event'' then (p\<lparr>sp_event := Some val\<rparr>, [])
           else if field = units ''data'' then (p\<lparr>sp_data := sp_data p @ [val]\<rparr>, [])
           else (p, []))"

function consume_loop :: "js_text \<Rightarrow> nat \<Rightarrow> nat \<Rightarrow> sse_parser \<Rightarrow> sse_frame list \<Rightarrow> sse_parser \<times> sse_frame list" where
  "consume_loop buffer from cursor p out =
     (if cursor < length buffer then
        (let code = buffer ! cursor
         in if code \<noteq> LF \<and> code \<noteq> CR then consume_loop buffer from (cursor + 1) p out
            else
              let (p', frames) = read_line (take (cursor - from) (drop from buffer)) p;
                  after = cursor + 1
              in if code = CR \<and> after = length buffer
                   then consume_loop buffer after after (p'\<lparr>sp_pendingLf := True\<rparr>) (out @ frames)
                 else if code = CR \<and> buffer ! after = LF
                   then consume_loop buffer (after + 1) (after + 1) p' (out @ frames)
                 else consume_loop buffer after after p' (out @ frames))
      else (p\<lparr>sp_buffer := (if from > 0 then drop from buffer else buffer)\<rparr>, out))"
  by pat_completeness auto
termination by (relation "measure (\<lambda>(buffer, from, cursor, p, out). length buffer - cursor)") auto

declare consume_loop.simps [simp del]

definition consume :: "js_text \<Rightarrow> sse_parser \<Rightarrow> sse_parser \<times> sse_frame list" where
  "consume text p = consume_loop (sp_buffer p @ text) 0 0 p []"

definition trim_chunk :: "js_text \<Rightarrow> sse_parser \<Rightarrow> js_text \<times> sse_parser" where
  "trim_chunk chunk p =
     (let (text, p) =
        (if sp_atStreamStart p \<and> chunk \<noteq> []
         then (if hd chunk = BOM then tl chunk else chunk, p\<lparr>sp_atStreamStart := False\<rparr>)
         else (chunk, p))
      in if sp_pendingLf p
         then (if text \<noteq> [] \<and> hd text = LF then tl text else text, p\<lparr>sp_pendingLf := False\<rparr>)
         else (text, p))"

definition push_chunk :: "js_text \<Rightarrow> sse_parser \<Rightarrow> sse_parser \<times> sse_frame list" where
  "push_chunk chunk p = (let (text, p) = trim_chunk chunk p in if text = [] then (p, []) else consume text p)"

text \<open>\<open>flush\<close>; the tail is what the decoder still held of an unfinished character.\<close>

definition flush_parser :: "js_text \<Rightarrow> sse_parser \<Rightarrow> sse_parser \<times> sse_frame list" where
  "flush_parser tail p =
     (let rest = sp_buffer p @ tail;
          p = p\<lparr>sp_buffer := [], sp_pendingLf := False\<rparr>;
          (p, frames) = (if rest \<noteq> [] then read_line rest p else (p, []));
          (p, more) = dispatch_frame p
      in (p, frames @ more))"

section \<open>The encoder\<close>

record sse_event =
  se_event :: "js_text option"
  se_data :: js_text

fun split_lf :: "js_text \<Rightarrow> js_text list" where
  "split_lf [] = [[]]"
| "split_lf (c # cs) =
     (if c = LF then [] # split_lf cs
      else case split_lf cs of l # ls \<Rightarrow> (c # l) # ls | [] \<Rightarrow> [[c]])"

definition encodeSseEvent :: "sse_event \<Rightarrow> js_text" where
  "encodeSseEvent e =
     (let name = (case se_event e of None \<Rightarrow> [] | Some n \<Rightarrow> units ''event: '' @ n @ [LF]);
          payload = concat (map (\<lambda>l. units ''data: '' @ l @ [LF]) (split_lf (se_data e)))
      in name @ payload @ [LF])"

definition DONE :: sse_event where
  "DONE = \<lparr>se_event = None, se_data = units ''[DONE]''\<rparr>"

text \<open>A forwarded keepalive (\<open>relay-translate.ts\<close>, \<open>takeComments\<close>).\<close>

definition encode_comment :: "js_text \<Rightarrow> js_text" where
  "encode_comment text = [COLON] @ text @ [LF, LF]"

section \<open>The grammar, one code unit at a time\<close>

definition feed :: "code_unit \<Rightarrow> sse_parser \<Rightarrow> sse_parser \<times> sse_frame list" where
  "feed c p =
     (let bom = sp_atStreamStart p \<and> c = BOM;
          crlf = sp_pendingLf p \<and> c = LF;
          p = p\<lparr>sp_atStreamStart := False, sp_pendingLf := False\<rparr>
      in if bom \<or> crlf then (p, [])
         else if c = LF \<or> c = CR
           then (let (p', frames) = read_line (sp_buffer p) p in (p'\<lparr>sp_buffer := [], sp_pendingLf := (c = CR)\<rparr>, frames))
         else (p\<lparr>sp_buffer := sp_buffer p @ [c]\<rparr>, []))"

primrec feeds :: "js_text \<Rightarrow> sse_parser \<Rightarrow> sse_parser \<times> sse_frame list" where
  "feeds [] p = (p, [])"
| "feeds (c # cs) p =
     (let (p', frames) = feed c p; (p'', more) = feeds cs p' in (p'', frames @ more))"

primrec pushes :: "js_text list \<Rightarrow> sse_parser \<Rightarrow> sse_parser \<times> sse_frame list" where
  "pushes [] p = (p, [])"
| "pushes (c # cs) p =
     (let (p', frames) = push_chunk c p; (p'', more) = pushes cs p' in (p'', frames @ more))"

definition is_terminator :: "code_unit \<Rightarrow> bool" where
  "is_terminator c \<longleftrightarrow> c = LF \<or> c = CR"

definition parser_ok :: "sse_parser \<Rightarrow> bool" where
  "parser_ok p \<longleftrightarrow> (\<forall>c \<in> set (sp_buffer p). \<not> is_terminator c) \<and> (sp_atStreamStart p \<longrightarrow> sp_buffer p = [] \<and> \<not> sp_pendingLf p) \<and>
     (sp_pendingLf p \<longrightarrow> sp_buffer p = [])"

lemma units_distinct [simp]: "LF \<noteq> CR" "CR \<noteq> LF" "BOM \<noteq> LF" "LF \<noteq> BOM" "COLON \<noteq> LF" "COLON \<noteq> CR" "SPACE \<noteq> COLON"
  by (simp_all add: LF_def CR_def BOM_def COLON_def SPACE_def)

lemma feeds_append:
  "feeds (xs @ ys) p = (let (p', frames) = feeds xs p; (p'', more) = feeds ys p' in (p'', frames @ more))"
  by (induction xs arbitrary: p) (auto simp: Let_def split: prod.splits)

lemma dispatch_frame_keeps:
  "sp_buffer (fst (dispatch_frame p)) = sp_buffer p"
  "sp_atStreamStart (fst (dispatch_frame p)) = sp_atStreamStart p"
  "sp_pendingLf (fst (dispatch_frame p)) = sp_pendingLf p"
  by (simp_all add: dispatch_frame_def)

lemma read_line_keeps [simp]:
  "sp_buffer (fst (read_line raw p)) = sp_buffer p"
  "sp_atStreamStart (fst (read_line raw p)) = sp_atStreamStart p"
  "sp_pendingLf (fst (read_line raw p)) = sp_pendingLf p"
  by (simp_all add: read_line_def dispatch_frame_keeps Let_def split: if_splits)

lemma dispatch_frame_frame:
  "dispatch_frame (p\<lparr>sp_buffer := b\<rparr>) = (let (q, fs) = dispatch_frame p in (q\<lparr>sp_buffer := b\<rparr>, fs))"
  by (simp add: dispatch_frame_def)

lemma read_line_frame:
  "read_line raw (p\<lparr>sp_buffer := b\<rparr>) = (let (q, fs) = read_line raw p in (q\<lparr>sp_buffer := b\<rparr>, fs))"
  by (simp add: read_line_def dispatch_frame_frame Let_def split: prod.splits)

lemma idle_flags [simp]:
  "\<not> sp_atStreamStart p \<Longrightarrow> p\<lparr>sp_atStreamStart := False\<rparr> = p"
  "\<not> sp_pendingLf p \<Longrightarrow> p\<lparr>sp_pendingLf := False\<rparr> = p"
  by (cases p; simp)+

lemma feed_plain:
  "\<not> is_terminator c \<Longrightarrow> \<not> sp_atStreamStart p \<Longrightarrow>
   feed c p = (p\<lparr>sp_buffer := sp_buffer p @ [c], sp_pendingLf := False\<rparr>, [])"
  by (simp add: feed_def is_terminator_def Let_def)

lemma feed_terminator:
  assumes "is_terminator c" "\<not> sp_atStreamStart p" "\<not> (sp_pendingLf p \<and> c = LF)"
  shows "feed c p =
    (let (q, fs) = read_line (sp_buffer p) (p\<lparr>sp_pendingLf := False\<rparr>) in (q\<lparr>sp_buffer := [], sp_pendingLf := (c = CR)\<rparr>, fs))"
  using assms by (auto simp: feed_def is_terminator_def Let_def)

lemma feed_crlf:
  "\<not> sp_atStreamStart p \<Longrightarrow> sp_pendingLf p \<Longrightarrow> feed LF p = (p\<lparr>sp_pendingLf := False\<rparr>, [])"
  by (simp add: feed_def Let_def)

lemma feed_pending: "c \<noteq> LF \<Longrightarrow> feed c (q\<lparr>sp_pendingLf := b\<rparr>) = feed c (q\<lparr>sp_pendingLf := False\<rparr>)"
  by (cases q) (simp add: feed_def Let_def)

lemma feeds_pending:
  "rest \<noteq> [] \<Longrightarrow> hd rest \<noteq> LF \<Longrightarrow> feeds rest (q\<lparr>sp_pendingLf := b\<rparr>) = feeds rest (q\<lparr>sp_pendingLf := False\<rparr>)"
  by (cases rest) (simp_all add: feed_pending [where q = q and b = b])

lemma consume_loop_feeds:
  assumes "\<not> sp_atStreamStart p" "\<not> sp_pendingLf p" "start \<le> cursor" "cursor \<le> length buffer"
  shows "consume_loop buffer start cursor p out =
    (let (q, fs) = feeds (drop cursor buffer) (p\<lparr>sp_buffer := take (cursor - start) (drop start buffer)\<rparr>)
     in (q, out @ fs))"
  using assms
proof (induction buffer start cursor p out rule: consume_loop.induct)
  case (1 buffer start cursor p out)
  show ?case
  proof (cases "cursor < length buffer")
    case False
    then show ?thesis using "1.prems" by (subst consume_loop.simps) simp
  next
    case True
    let ?c = "buffer ! cursor" and ?b = "take (cursor - start) (drop start buffer)"
    have split: "drop cursor buffer = ?c # drop (cursor + 1) buffer" using True by (simp add: Cons_nth_drop_Suc)
    show ?thesis
    proof (cases "is_terminator ?c")
      case False
      have "take (cursor + 1 - start) (drop start buffer) = ?b @ [?c]"
        using True "1.prems" by (simp add: Suc_diff_le take_Suc_conv_app_nth)
      then show ?thesis
        using False True "1.prems" "1.IH"(1) [OF True refl]
        by (subst consume_loop.simps) (simp add: split feed_plain is_terminator_def Let_def)
    next
      case ended: True
      obtain q fs where line: "read_line ?b p = (q, fs)" by fastforce
      have kept: "\<not> sp_atStreamStart q" "\<not> sp_pendingLf q"
        using read_line_keeps [of ?b p] line "1.prems" by simp_all
      have line': "read_line ?b (p\<lparr>sp_buffer := ?b\<rparr>) = (q\<lparr>sp_buffer := ?b\<rparr>, fs)"
        by (simp add: read_line_frame line)
      have fed: "feeds (drop cursor buffer) (p\<lparr>sp_buffer := ?b\<rparr>) =
          (let (q', more) = feeds (drop (cursor + 1) buffer) (q\<lparr>sp_buffer := [], sp_pendingLf := (?c = CR)\<rparr>) in (q', fs @ more))"
        using "1.prems" ended line' by (simp add: split feed_terminator)
      consider (last) "?c = CR" "cursor + 1 = length buffer"
        | (crlf) "?c = CR" "cursor + 1 < length buffer" "buffer ! (cursor + 1) = LF"
        | (plain) "\<not> (?c = CR \<and> cursor + 1 = length buffer)" "\<not> (?c = CR \<and> buffer ! (cursor + 1) = LF)"
        using True by force
      then show ?thesis
      proof cases
        case last
        then show ?thesis
          using True ended kept
          by (subst consume_loop.simps, subst consume_loop.simps) (simp add: fed line Let_def is_terminator_def)
      next
        case crlf
        have "drop (cursor + 1) buffer = LF # drop (cursor + 2) buffer"
          using crlf Cons_nth_drop_Suc [of "cursor + 1" buffer] by simp
        then show ?thesis
          using True ended kept crlf "1.IH"(3) [OF True refl _ line [symmetric] refl]
          by (subst consume_loop.simps) (simp add: fed line Let_def is_terminator_def feed_crlf split: prod.splits)
      next
        case plain
        then have "feeds (drop (cursor + 1) buffer) (q\<lparr>sp_buffer := [], sp_pendingLf := (?c = CR)\<rparr>) =
            feeds (drop (cursor + 1) buffer) (q\<lparr>sp_buffer := []\<rparr>)"
          using True kept feeds_pending [of "drop (cursor + 1) buffer" True "q\<lparr>sp_buffer := []\<rparr>"]
          by (cases "?c = CR") (auto simp: hd_drop_conv_nth)
        then show ?thesis
          using True ended kept plain "1.IH"(4) [OF True refl _ line [symmetric] refl]
          by (subst consume_loop.simps) (auto simp: fed line Let_def is_terminator_def split: prod.splits)
      qed
    qed
  qed
qed

lemma feeds_plain:
  "\<forall>c \<in> set xs. \<not> is_terminator c \<Longrightarrow> \<not> sp_atStreamStart p \<Longrightarrow> \<not> sp_pendingLf p \<Longrightarrow>
   feeds xs p = (p\<lparr>sp_buffer := sp_buffer p @ xs\<rparr>, [])"
  by (induction xs arbitrary: p) (simp_all add: feed_plain)

lemma consume_feeds:
  assumes "parser_ok p" "\<not> sp_atStreamStart p" "\<not> sp_pendingLf p"
  shows "consume text p = feeds text p"
proof -
  have "feeds (sp_buffer p) (p\<lparr>sp_buffer := []\<rparr>) = (p, [])"
    using assms by (simp add: feeds_plain parser_ok_def)
  then show ?thesis
    using assms by (simp add: consume_def consume_loop_feeds feeds_append split: prod.splits)
qed

lemma feed_started: "c \<noteq> BOM \<Longrightarrow> feed c (p\<lparr>sp_atStreamStart := b\<rparr>) = feed c (p\<lparr>sp_atStreamStart := False\<rparr>)"
  by (cases p) (simp add: feed_def Let_def)

lemma feed_any_start: "c \<noteq> BOM \<Longrightarrow> feed c (p\<lparr>sp_atStreamStart := False\<rparr>) = feed c p"
  using feed_started [where p = p and b = "sp_atStreamStart p"] by simp

lemma feed_any_pending: "c \<noteq> LF \<Longrightarrow> feed c (p\<lparr>sp_pendingLf := False\<rparr>) = feed c p"
  using feed_pending [where q = p and b = "sp_pendingLf p"] by simp

lemma parser_ok_started: "parser_ok p \<Longrightarrow> parser_ok (p\<lparr>sp_atStreamStart := False, sp_pendingLf := False\<rparr>)"
  by (simp add: parser_ok_def)

lemma parser_ok_feed:
  assumes "parser_ok p"
  shows "parser_ok (fst (feed c p))"
  using assms by (auto simp: parser_ok_def feed_def is_terminator_def case_prod_beta Let_def)

text \<open>The reader on a non-empty chunk is the grammar on its code units, wherever the chunk was cut.\<close>

lemma push_chunk_feeds:
  assumes "parser_ok p" "chunk \<noteq> []"
  shows "push_chunk chunk p = feeds chunk p"
proof -
  obtain c cs where chunk: "chunk = c # cs" using assms(2) by (cases chunk) auto
  consider (start) "sp_atStreamStart p" "\<not> sp_pendingLf p" "sp_buffer p = []" | (pending) "\<not> sp_atStreamStart p" "sp_pendingLf p"
    | (plain) "\<not> sp_atStreamStart p" "\<not> sp_pendingLf p" using assms(1) by (auto simp: parser_ok_def)
  then show ?thesis
  proof cases
    case start
    then have "parser_ok (p\<lparr>sp_atStreamStart := False\<rparr>)" by (simp add: parser_ok_def)
    then show ?thesis using start
      by (cases "c = BOM")
         (auto simp: chunk push_chunk_def trim_chunk_def consume_feeds feed_any_start feed_def [of BOM] split: prod.splits)
  next
    case pending
    then have "parser_ok (p\<lparr>sp_pendingLf := False\<rparr>)" using assms(1) by (simp add: parser_ok_def)
    then show ?thesis using pending
      by (cases "c = LF")
         (auto simp: chunk push_chunk_def trim_chunk_def consume_feeds feed_any_pending feed_crlf split: prod.splits)
  next
    case plain
    then show ?thesis using assms(1) by (simp add: chunk push_chunk_def trim_chunk_def consume_feeds)
  qed
qed

lemma parser_ok_feeds: "parser_ok p \<Longrightarrow> parser_ok (fst (feeds xs p))"
proof (induction xs arbitrary: p)
  case (Cons c xs)
  then show ?case using Cons.IH [OF parser_ok_feed [OF Cons.prems, of c]] by (simp add: case_prod_beta Let_def)
qed simp

lemma pushes_feeds:
  "parser_ok p \<Longrightarrow> [] \<notin> set chunks \<Longrightarrow> pushes chunks p = feeds (concat chunks) p"
proof (induction chunks arbitrary: p)
  case (Cons c cs)
  have "pushes cs (fst (feeds c p)) = feeds (concat cs) (fst (feeds c p))"
    using Cons parser_ok_feeds by auto
  moreover have "push_chunk c p = feeds c p" using Cons.prems by (intro push_chunk_feeds) auto
  ultimately show ?case by (simp add: feeds_append case_prod_beta Let_def)
qed simp

lemma parser_ok_new: "parser_ok createSseParser"
  by (simp add: createSseParser_def parser_ok_def)

section \<open>Round trip\<close>

datatype stream_item = Event sse_event | Keepalive js_text

fun encode_item :: "stream_item \<Rightarrow> js_text" where
  "encode_item (Event e) = encodeSseEvent e"
| "encode_item (Keepalive t) = encode_comment t"

definition frame_of :: "sse_event \<Rightarrow> sse_frame" where
  "frame_of e = \<lparr>sf_event = se_event e, sf_data = se_data e\<rparr>"

definition one_line :: "js_text \<Rightarrow> bool" where
  "one_line t \<longleftrightarrow> list_all (\<lambda>c. \<not> is_terminator c) t"

definition event_ok :: "sse_event \<Rightarrow> bool" where
  "event_ok e \<longleftrightarrow> (case se_event e of None \<Rightarrow> True | Some n \<Rightarrow> one_line n) \<and> CR \<notin> set (se_data e)"

fun item_ok :: "stream_item \<Rightarrow> bool" where
  "item_ok (Event e) \<longleftrightarrow> event_ok e"
| "item_ok (Keepalive t) \<longleftrightarrow> one_line t"

definition events_of :: "stream_item list \<Rightarrow> sse_event list" where
  "events_of items = List.map_filter (\<lambda>i. case i of Event e \<Rightarrow> Some e | _ \<Rightarrow> None) items"

definition keepalives_of :: "stream_item list \<Rightarrow> js_text list" where
  "keepalives_of items = List.map_filter (\<lambda>i. case i of Keepalive t \<Rightarrow> Some t | _ \<Rightarrow> None) items"

definition at_line_start :: "sse_parser \<Rightarrow> bool" where
  "at_line_start p \<longleftrightarrow> \<not> sp_atStreamStart p \<and> \<not> sp_pendingLf p \<and> sp_buffer p = []"

definition between_frames :: "sse_parser \<Rightarrow> bool" where
  "between_frames p \<longleftrightarrow> at_line_start p \<and> sp_event p = None \<and> sp_data p = []"

lemma units_literals:
  "units ''data: '' = [100, 97, 116, 97, 58, 32]" "units ''event: '' = [101, 118, 101, 110, 116, 58, 32]"
  "units ''data'' = [100, 97, 116, 97]" "units ''event'' = [101, 118, 101, 110, 116]"
  by code_simp+

lemma one_line_append [simp]: "one_line (xs @ ys) \<longleftrightarrow> one_line xs \<and> one_line ys"
  by (simp add: one_line_def)

lemma one_line_fields [simp]: "one_line (units ''data: '')" "one_line (units ''event: '')"
  by (simp_all add: units_literals one_line_def is_terminator_def LF_def CR_def)

lemma one_line_comment [simp]: "one_line (COLON # t) \<longleftrightarrow> one_line t"
  by (simp add: one_line_def is_terminator_def)

lemma read_line_data [simp]: "read_line (units ''data: '' @ l) p = (p\<lparr>sp_data := sp_data p @ [l]\<rparr>, [])"
  by (simp add: read_line_def units_literals COLON_def SPACE_def Let_def)

lemma read_line_event [simp]: "read_line (units ''event: '' @ n) p = (p\<lparr>sp_event := Some n\<rparr>, [])"
  by (simp add: read_line_def units_literals COLON_def SPACE_def Let_def)

lemma read_line_comment [simp]: "read_line (COLON # t) p = (p\<lparr>sp_comments := sp_comments p @ [t]\<rparr>, [])"
  by (simp add: read_line_def)

lemma feeds_line:
  assumes "at_line_start p" "one_line l"
  shows "feeds (l @ LF # rest) p = (let (q, fs) = read_line l p; (q', more) = feeds rest q in (q', fs @ more))"
proof -
  obtain q fs where line: "read_line l p = (q, fs)" by fastforce
  have "q\<lparr>sp_buffer := []\<rparr> = q" "\<not> sp_pendingLf q"
    using read_line_keeps [of l p] line assms(1) by (simp_all add: at_line_start_def)
  then show ?thesis
    using assms line
    by (simp add: feeds_append feeds_plain at_line_start_def one_line_def list_all_iff feed_terminator
        is_terminator_def read_line_frame case_prod_beta Let_def)
qed

lemma feeds_data_lines:
  "at_line_start p \<Longrightarrow> list_all one_line ls \<Longrightarrow>
   feeds (concat (map (\<lambda>l. units ''data: '' @ l @ [LF]) ls) @ rest) p = feeds rest (p\<lparr>sp_data := sp_data p @ ls\<rparr>)"
proof (induction ls arbitrary: p)
  case (Cons l ls)
  then show ?case
    using feeds_line [of p "units ''data: '' @ l"] by (simp add: at_line_start_def case_prod_beta Let_def)
qed simp

lemma split_lf_nonempty [simp]: "split_lf t \<noteq> []"
  by (induction t) (auto split: list.splits)

lemma join_split_lf: "join [LF] (split_lf t) = t"
proof (induction t)
  case (Cons c t)
  then show ?case using split_lf_nonempty [of t]
    by (cases "split_lf t"; cases "tl (split_lf t)") (auto split: list.splits)
qed simp

lemma split_lf_lines: "CR \<notin> set t \<Longrightarrow> list_all one_line (split_lf t)"
  by (induction t) (auto simp: one_line_def is_terminator_def split: list.splits)

lemma feeds_blank: "at_line_start p \<Longrightarrow> feeds [LF] p = dispatch_frame p"
  using feeds_line [of p "[]" "[]"] by (simp add: one_line_def read_line_def case_prod_beta Let_def)

definition encode_head :: "sse_event \<Rightarrow> js_text" where
  "encode_head e = (case se_event e of None \<Rightarrow> [] | Some n \<Rightarrow> units ''event: '' @ n @ [LF])"

lemma feeds_head:
  assumes "between_frames p" "event_ok e"
  shows "feeds (encode_head e @ rest) p = feeds rest (p\<lparr>sp_event := se_event e\<rparr>)"
proof (cases "se_event e")
  case None
  then show ?thesis using assms by (cases p) (simp add: encode_head_def between_frames_def)
next
  case (Some n)
  then show ?thesis
    using assms feeds_line [of p "units ''event: '' @ n"]
    by (simp add: encode_head_def between_frames_def event_ok_def case_prod_beta Let_def)
qed

lemma encode_event_parts:
  "encodeSseEvent e = encode_head e @ concat (map (\<lambda>l. units ''data: '' @ l @ [LF]) (split_lf (se_data e))) @ [LF]"
  by (simp add: encodeSseEvent_def encode_head_def)

lemma feeds_payload:
  assumes "between_frames p" "event_ok e"
  shows "feeds (encode_head e @ concat (map (\<lambda>l. units ''data: '' @ l @ [LF]) (split_lf (se_data e))) @ rest) p =
    feeds rest (p\<lparr>sp_event := se_event e, sp_data := split_lf (se_data e)\<rparr>)"
  using assms
  by (simp add: feeds_head feeds_data_lines split_lf_lines event_ok_def between_frames_def at_line_start_def)

lemma dispatch_payload:
  assumes "between_frames p"
  shows "dispatch_frame (p\<lparr>sp_event := se_event e, sp_data := split_lf (se_data e)\<rparr>) = (p, [frame_of e])"
  using assms by (cases p) (simp add: dispatch_frame_def join_split_lf frame_of_def between_frames_def)

lemma feeds_event:
  assumes "between_frames p" "event_ok e"
  shows "feeds (encodeSseEvent e) p = (p, [frame_of e])"
proof -
  have "at_line_start (p\<lparr>sp_event := se_event e, sp_data := split_lf (se_data e)\<rparr>)"
    using assms(1) by (simp add: between_frames_def at_line_start_def)
  then show ?thesis
    using assms by (simp add: encode_event_parts feeds_payload feeds_blank dispatch_payload del: feeds.simps)
qed

lemma feeds_keepalive:
  assumes "between_frames p" "one_line t"
  shows "feeds (encode_comment t) p = (p\<lparr>sp_comments := sp_comments p @ [t]\<rparr>, [])"
  using assms feeds_line [of p "COLON # t" "[LF]"]
  by (cases p) (simp add: encode_comment_def between_frames_def at_line_start_def feeds_blank dispatch_frame_def del: feeds.simps)

lemma feeds_items:
  "between_frames p \<Longrightarrow> list_all item_ok items \<Longrightarrow>
   feeds (concat (map encode_item items)) p =
     (p\<lparr>sp_comments := sp_comments p @ keepalives_of items\<rparr>, map frame_of (events_of items))"
proof (induction items arbitrary: p)
  case Nil
  then show ?case by (simp add: events_of_def keepalives_of_def List.map_filter_simps)
next
  case (Cons i items)
  then show ?case
    by (cases i) (auto simp: feeds_append feeds_event feeds_keepalive events_of_def keepalives_of_def
        List.map_filter_simps between_frames_def at_line_start_def)
qed

definition opened :: sse_parser where
  "opened = createSseParser\<lparr>sp_atStreamStart := False\<rparr>"

lemma between_frames_opened: "between_frames opened"
  by (simp add: opened_def createSseParser_def between_frames_def at_line_start_def)

lemma feeds_opened: "t \<noteq> [] \<Longrightarrow> hd t \<noteq> BOM \<Longrightarrow> feeds t createSseParser = feeds t opened"
  by (cases t) (simp_all add: opened_def feed_any_start)

lemma encode_item_head: "encode_item i \<noteq> [] \<and> hd (encode_item i) \<noteq> BOM"
proof (cases i)
  case (Event e)
  then show ?thesis using split_lf_nonempty [of "se_data e"]
    by (cases "se_event e"; cases "split_lf (se_data e)") (auto simp: encodeSseEvent_def units_literals BOM_def)
qed (simp add: encode_comment_def COLON_def BOM_def)

lemma pushes_opened:
  assumes "[] \<notin> set chunks" "concat chunks = text" "text \<noteq> []" "hd text \<noteq> BOM"
  shows "pushes chunks createSseParser = feeds text opened"
  using assms by (simp add: pushes_feeds parser_ok_new feeds_opened)

text \<open>
  (C19) Whatever the writer encodes the reader reads back. A stream of events (names of one line, data
  without carriage returns, which serialized JSON never has) and forwarded keepalives, cut into any
  non-empty chunks, gives exactly those events in order, each complete, and exactly those comments;
  nothing is left for the end of the stream.
\<close>

theorem sse_stream_roundtrip:
  assumes "list_all item_ok items" and "[] \<notin> set chunks"
    and "concat chunks = concat (map encode_item items)"
  shows "snd (pushes chunks createSseParser) = map frame_of (events_of items) \<and>
    sp_comments (fst (pushes chunks createSseParser)) = keepalives_of items \<and>
    snd (flush_parser [] (fst (pushes chunks createSseParser))) = []"
proof (cases items)
  case Nil
  then have "chunks = []" using assms(2,3) by (cases chunks) auto
  then show ?thesis
    using Nil by (simp add: createSseParser_def events_of_def keepalives_of_def List.map_filter_simps flush_parser_def dispatch_frame_def)
next
  case (Cons i rest)
  have "pushes chunks createSseParser = feeds (concat (map encode_item items)) opened"
    using assms(2,3) encode_item_head [of i] by (intro pushes_opened) (simp_all add: Cons)
  then show ?thesis
    using feeds_items [OF between_frames_opened assms(1)]
    by (simp add: opened_def createSseParser_def flush_parser_def dispatch_frame_def Let_def)
qed

definition sample_items :: "stream_item list" where
  "sample_items =
     [Keepalive (units '' PING''), Event \<lparr>se_event = Some (units ''delta''), se_data = units ''{}''\<rparr>, Event DONE]"

theorem sse_stream_roundtrip_witness:
  "snd (pushes (map (\<lambda>c. [c]) (concat (map encode_item sample_items))) createSseParser) =
     [frame_of \<lparr>se_event = Some (units ''delta''), se_data = units ''{}''\<rparr>, frame_of DONE]"
proof -
  have "list_all item_ok sample_items" by code_simp
  moreover have "events_of sample_items = [\<lparr>se_event = Some (units ''delta''), se_data = units ''{}''\<rparr>, DONE]"
    by (simp add: sample_items_def events_of_def List.map_filter_simps)
  moreover have "concat (map (\<lambda>c. [c]) xs) = xs" for xs :: js_text by (induction xs) auto
  ultimately show ?thesis
    using sse_stream_roundtrip [of sample_items "map (\<lambda>c. [c]) (concat (map encode_item sample_items))"] by auto
qed

text \<open>The end of the stream.\<close>

lemma flush_rested:
  assumes "between_frames p" "event_ok e"
  shows "snd (flush_parser [] (p\<lparr>sp_event := se_event e, sp_data := split_lf (se_data e)\<rparr>)) = [frame_of e]"
  using assms dispatch_payload [OF assms(1), of e]
  by (simp add: flush_parser_def between_frames_def at_line_start_def dispatch_frame_frame Let_def)

lemma flush_midline:
  assumes "between_frames p" "split_lf (se_data e) = ls @ [l]"
  shows "snd (flush_parser [] (p\<lparr>sp_event := se_event e, sp_data := ls, sp_buffer := units ''data: '' @ l\<rparr>)) = [frame_of e]"
proof -
  have "join [LF] (ls @ [l]) = se_data e" using join_split_lf [of "se_data e"] assms(2) by simp
  then show ?thesis
    using assms by (simp add: flush_parser_def between_frames_def at_line_start_def dispatch_frame_def frame_of_def Let_def case_prod_beta)
      (simp add: units_literals)
qed

lemma feeds_midline:
  assumes "between_frames p" "event_ok e" "split_lf (se_data e) = ls @ [l]"
  shows "feeds (encode_head e @ concat (map (\<lambda>l. units ''data: '' @ l @ [LF]) ls) @ units ''data: '' @ l) p =
    (p\<lparr>sp_event := se_event e, sp_data := ls, sp_buffer := units ''data: '' @ l\<rparr>, [])"
proof -
  have ok: "list_all one_line ls" "one_line (units ''data: '' @ l)"
    using split_lf_lines [of "se_data e"] assms(2,3) by (simp_all add: event_ok_def)
  let ?q = "p\<lparr>sp_event := se_event e, sp_data := ls\<rparr>"
  have "feeds (units ''data: '' @ l) ?q = (?q\<lparr>sp_buffer := sp_buffer ?q @ units ''data: '' @ l\<rparr>, [])"
    using assms(1) ok(2) by (intro feeds_plain) (simp_all add: between_frames_def at_line_start_def one_line_def list_all_iff)
  then show ?thesis
    using assms ok by (simp add: feeds_head feeds_data_lines between_frames_def at_line_start_def)
qed

text \<open>
  A stream the upstream closes early loses no event. After any complete items, the connection ends
  inside the terminator of a last event, before its blank line or before the line end of its last data
  line: the events read so far and the one \<open>flush\<close> returns are together exactly the events sent.
\<close>

theorem sse_close_keeps_last_event:
  assumes "list_all item_ok items" and "event_ok e" and "[] \<notin> set chunks" and "k = 1 \<or> k = 2"
    and "concat chunks = concat (map encode_item items) @ take (length (encodeSseEvent e) - k) (encodeSseEvent e)"
  shows "snd (pushes chunks createSseParser) @ snd (flush_parser [] (fst (pushes chunks createSseParser))) =
    map frame_of (events_of items) @ [frame_of e]"
proof -
  obtain ls l where lines: "split_lf (se_data e) = ls @ [l]" using split_lf_nonempty [of "se_data e"] by (metis rev_exhaust)
  let ?cut = "take (length (encodeSseEvent e) - k) (encodeSseEvent e)"
  let ?p = "opened\<lparr>sp_comments := sp_comments opened @ keepalives_of items\<rparr>"
  have p: "between_frames ?p" using between_frames_opened by (simp add: between_frames_def at_line_start_def)
  have "length (encodeSseEvent e) > 2" by (simp add: encode_event_parts lines units_literals)
  then have head: "?cut \<noteq> []" "hd ?cut \<noteq> BOM"
    using assms(4) encode_item_head [of "Event e"] by (auto simp: hd_take)
  have "pushes chunks createSseParser = feeds (concat (map encode_item items) @ ?cut) opened"
    using assms(3,5) head encode_item_head by (intro pushes_opened) (cases items; auto simp: hd_append)+
  then have run: "pushes chunks createSseParser = (let (q, fs) = feeds ?cut ?p in (q, map frame_of (events_of items) @ fs))"
    using feeds_items [OF between_frames_opened assms(1)] by (simp add: feeds_append)
  consider (blank) "?cut = encode_head e @ concat (map (\<lambda>l. units ''data: '' @ l @ [LF]) (split_lf (se_data e)))"
    | (line) "?cut = encode_head e @ concat (map (\<lambda>l. units ''data: '' @ l @ [LF]) ls) @ units ''data: '' @ l"
    using assms(4) by (auto simp: encode_event_parts lines)
  then show ?thesis
  proof cases
    case blank
    then show ?thesis using run feeds_payload [OF p assms(2), of "[]"] flush_rested [OF p assms(2)] by simp
  next
    case line
    then show ?thesis using run feeds_midline [OF p assms(2) lines] flush_midline [OF p lines] by simp
  qed
qed

theorem sse_close_keeps_last_event_witness:
  "let chunks = [encodeSseEvent DONE, units ''data: last'']
   in snd (pushes chunks createSseParser) @ snd (flush_parser [] (fst (pushes chunks createSseParser))) =
        [frame_of DONE, frame_of \<lparr>se_event = None, se_data = units ''last''\<rparr>]"
proof -
  let ?e = "\<lparr>se_event = None, se_data = units ''last''\<rparr>"
  have "list_all item_ok [Event DONE]" "event_ok ?e" "encodeSseEvent DONE \<noteq> []"
    "take (length (encodeSseEvent ?e) - 2) (encodeSseEvent ?e) = units ''data: last''" by code_simp+
  then show ?thesis
    using sse_close_keeps_last_event [of "[Event DONE]" ?e "[encodeSseEvent DONE, units ''data: last'']" 2]
    by (simp add: events_of_def List.map_filter_simps units_def)
qed

text \<open>A data line that ends on a carriage return leaves the reader waiting for the line feed.\<close>

lemma feeds_cr_line:
  assumes "at_line_start p" "one_line l"
  shows "feeds (units ''data: '' @ l @ [CR]) p = (p\<lparr>sp_data := sp_data p @ [l], sp_pendingLf := True\<rparr>, [])"
proof -
  have whole: "units ''data: '' @ l @ [CR] = (units ''data: '' @ l) @ [CR]" and "one_line (units ''data: '' @ l)"
    using assms(2) by simp_all
  then have "feeds (units ''data: '' @ l) p = (p\<lparr>sp_buffer := units ''data: '' @ l\<rparr>, [])"
    using assms(1) feeds_plain [of "units ''data: '' @ l" p] by (simp add: at_line_start_def one_line_def list_all_iff)
  then show ?thesis
    unfolding whole feeds_append [of _ "[CR]"] using assms(1)
    by (cases p) (simp add: feed_terminator is_terminator_def at_line_start_def read_line_frame Let_def)
qed

lemma feeds_crlf_line:
  assumes "at_line_start p" "one_line l"
  shows "feeds (units ''data: '' @ l @ CR # LF # rest) p = feeds rest (p\<lparr>sp_data := sp_data p @ [l]\<rparr>)"
proof -
  have "feeds ((units ''data: '' @ l @ [CR]) @ LF # rest) p = feeds rest (p\<lparr>sp_data := sp_data p @ [l]\<rparr>)"
    unfolding feeds_append [of _ "LF # rest"] feeds_cr_line [OF assms] using assms(1) by (simp add: feed_crlf at_line_start_def)
  then show ?thesis by simp
qed

lemma feeds_crlf_blank:
  "at_line_start p \<Longrightarrow> feeds [CR, LF] p = dispatch_frame p"
  by (simp add: feed_terminator is_terminator_def at_line_start_def read_line_def dispatch_frame_def feed_crlf)

lemma push_empty_chunk: "sp_pendingLf q \<Longrightarrow> push_chunk [] q = (q\<lparr>sp_pendingLf := False\<rparr>, [])"
  by (simp add: push_chunk_def trim_chunk_def)

text \<open>
  (C40) The one chunk the reader does not carry across is the empty one. Take any reader state at the
  start of a line, with whatever event name and data lines it holds, and any two further data lines of
  the event, the first cut between the carriage return and the line feed of its end. With no chunk in
  between, the reader answers one event with all the data. With one empty chunk in between, which
  clears \<open>pendingLf\<close>, the line feed counts as a blank line: the same bytes give the event with its data
  up to the cut, and a second event, without the name, with the rest.
\<close>

theorem sse_empty_chunk_splits_event:
  assumes "at_line_start p" and "one_line l" and "one_line m"
  shows "let first = units ''data: '' @ l @ [CR]; rest = LF # units ''data: '' @ m @ [CR, LF, CR, LF]
    in snd (pushes [first, rest] p) = [\<lparr>sf_event = sp_event p, sf_data = join [LF] (sp_data p @ [l, m])\<rparr>] \<and>
       snd (pushes [first, [], rest] p) =
         [\<lparr>sf_event = sp_event p, sf_data = join [LF] (sp_data p @ [l])\<rparr>, \<lparr>sf_event = None, sf_data = m\<rparr>]"
proof -
  let ?first = "units ''data: '' @ l @ [CR]" and ?tail = "units ''data: '' @ m @ [CR, LF, CR, LF]"
  let ?q = "p\<lparr>sp_data := sp_data p @ [l]\<rparr>"
  have ok: "parser_ok p" "parser_ok ?q" and q: "at_line_start ?q"
    using assms(1) by (simp_all add: parser_ok_def at_line_start_def)
  have "pushes [?first, LF # ?tail] p = feeds (units ''data: '' @ l @ CR # LF # ?tail) p"
    using pushes_feeds [OF ok(1), of "[?first, LF # ?tail]"] by simp
  also have "\<dots> = dispatch_frame (?q\<lparr>sp_data := sp_data ?q @ [m]\<rparr>)"
    unfolding feeds_crlf_line [OF assms(1,2)] feeds_crlf_line [OF q assms(3)]
    by (rule feeds_crlf_blank) (use assms(1) in \<open>simp add: at_line_start_def\<close>)
  finally have whole: "snd (pushes [?first, LF # ?tail] p) = [\<lparr>sf_event = sp_event p, sf_data = join [LF] (sp_data p @ [l, m])\<rparr>]"
    by (simp add: dispatch_frame_def)
  have "push_chunk ?first p = (?q\<lparr>sp_pendingLf := True\<rparr>, [])"
    using push_chunk_feeds [OF ok(1), of ?first] feeds_cr_line [OF assms(1,2)] by simp
  moreover have "push_chunk [] (?q\<lparr>sp_pendingLf := True\<rparr>) = (?q, [])"
    using assms(1) by (simp add: push_empty_chunk at_line_start_def)
  moreover have "push_chunk (LF # ?tail) ?q =
      ((p\<lparr>sp_event := None, sp_data := []\<rparr>),
       [\<lparr>sf_event = sp_event p, sf_data = join [LF] (sp_data p @ [l])\<rparr>, \<lparr>sf_event = None, sf_data = m\<rparr>])"
  proof -
    let ?e = "p\<lparr>sp_event := None, sp_data := []\<rparr>"
    have e: "at_line_start ?e" using assms(1) by (simp add: at_line_start_def)
    have "feeds ?tail ?e = dispatch_frame (?e\<lparr>sp_data := sp_data ?e @ [m]\<rparr>)"
      unfolding feeds_crlf_line [OF e assms(3)]
      by (rule feeds_crlf_blank) (use assms(1) in \<open>simp add: at_line_start_def\<close>)
    then have "feeds ?tail ?e = (?e, [\<lparr>sf_event = None, sf_data = m\<rparr>])" by (simp add: dispatch_frame_def)
    moreover have "feeds ([LF] @ ?tail) ?q =
        (let (q', fs) = dispatch_frame ?q; (q'', more) = feeds ?tail q' in (q'', fs @ more))"
      unfolding feeds_append feeds_blank [OF q] ..
    ultimately show ?thesis
      using push_chunk_feeds [OF ok(2), of "LF # ?tail"] by (simp add: dispatch_frame_def)
  qed
  ultimately show ?thesis using whole by (simp add: Let_def)
qed

theorem sse_empty_chunk_splits_event_witness:
  "let p = fst (pushes [units ''event: delta'' @ [LF]] createSseParser);
       first = units ''data: a'' @ [CR]; rest = LF # units ''data: b'' @ [CR, LF, CR, LF]
   in snd (pushes [first, rest] p) = [\<lparr>sf_event = Some (units ''delta''), sf_data = units ''a'' @ [LF] @ units ''b''\<rparr>] \<and>
      snd (pushes [first, [], rest] p) =
        [\<lparr>sf_event = Some (units ''delta''), sf_data = units ''a''\<rparr>, \<lparr>sf_event = None, sf_data = units ''b''\<rparr>]"
proof -
  let ?p = "fst (pushes [units ''event: delta'' @ [LF]] createSseParser)"
  have ok: "at_line_start ?p" "one_line (units ''a'')" "one_line (units ''b'')" by code_simp+
  have read: "sp_event ?p = Some (units ''delta'')" "sp_data ?p = []"
    "units ''data: '' @ units ''a'' @ [CR] = units ''data: a'' @ [CR]"
    "units ''data: '' @ units ''b'' @ [CR, LF, CR, LF] = units ''data: b'' @ [CR, LF, CR, LF]"
    "join [LF] [units ''a'', units ''b''] = units ''a'' @ [LF] @ units ''b''" "join [LF] [units ''a''] = units ''a''"
    by code_simp+
  show ?thesis using sse_empty_chunk_splits_event [OF ok] by (simp only: read Let_def append_Nil)
qed

end
