(* ===== verification/Usage_Queue.thy ===== *)
theory Usage_Queue
  imports Prelude
begin

text \<open>
  The bounded queue of \<open>usage/queue.ts\<close>: an array with a moving head whose dead prefix is reclaimed
  once it is as long as the live part. \<open>contents\<close> reads the live part; the locale \<open>shedding_queue\<close> is
  what the recorder relies on, and its interpretation shows that the array implements a list that keeps
  its newest elements.
\<close>

section \<open>The queue\<close>

record 'a bounded_queue =
  bq_items :: "'a list"
  bq_head :: nat
  bq_dropped :: nat

text \<open>\<open>createBoundedQueue\<close> throws for a ceiling below one.\<close>

definition createBoundedQueue :: "int \<Rightarrow> 'a bounded_queue option" where
  "createBoundedQueue maxItems =
     (if maxItems < 1 then None else Some \<lparr>bq_items = [], bq_head = 0, bq_dropped = 0\<rparr>)"

definition queue_depth :: "'a bounded_queue \<Rightarrow> nat" where
  "queue_depth q = length (bq_items q) - bq_head q"

definition reclaim :: "'a bounded_queue \<Rightarrow> 'a bounded_queue" where
  "reclaim q =
     (if bq_head q = 0 \<or> bq_head q < queue_depth q then q
      else q\<lparr>bq_items := drop (bq_head q) (bq_items q), bq_head := 0\<rparr>)"

text \<open>The shedding loop; the constructor's guard \<open>1 \<le> maxItems\<close> is what makes it end.\<close>

function shed_loop :: "nat \<Rightarrow> bool \<Rightarrow> 'a bounded_queue \<Rightarrow> bool \<times> 'a bounded_queue" where
  "shed_loop maxItems shed q =
     (if 1 \<le> maxItems \<and> queue_depth q \<ge> maxItems
      then shed_loop maxItems True (q\<lparr>bq_head := bq_head q + 1, bq_dropped := bq_dropped q + 1\<rparr>)
      else (shed, q))"
  by pat_completeness auto
termination by (relation "measure (\<lambda>(n, b, q). queue_depth q)") (auto simp: queue_depth_def)

declare shed_loop.simps [simp del]

definition queue_push :: "nat \<Rightarrow> 'a \<Rightarrow> 'a bounded_queue \<Rightarrow> bool \<times> 'a bounded_queue" where
  "queue_push maxItems item q =
     (let (shed, q) = shed_loop maxItems False q
      in (\<not> shed, reclaim (q\<lparr>bq_items := bq_items q @ [item]\<rparr>)))"

definition queue_drain :: "int \<Rightarrow> 'a bounded_queue \<Rightarrow> 'a list \<times> 'a bounded_queue" where
  "queue_drain max_n q =
     (let n = min (nat (max 0 max_n)) (queue_depth q)
      in if n = 0 then ([], q)
         else (take n (drop (bq_head q) (bq_items q)), reclaim (q\<lparr>bq_head := bq_head q + n\<rparr>)))"

section \<open>What the queue promises\<close>

definition newest :: "nat \<Rightarrow> 'a list \<Rightarrow> 'a list" where
  "newest n xs = drop (length xs - n) xs"

locale shedding_queue =
  fixes contents :: "'q \<Rightarrow> 'a list" and enq :: "'a \<Rightarrow> 'q \<Rightarrow> bool \<times> 'q" and deq :: "int \<Rightarrow> 'q \<Rightarrow> 'a list \<times> 'q"
    and shed_count :: "'q \<Rightarrow> nat" and ok :: "'q \<Rightarrow> bool" and ceiling :: nat
  assumes bounded: "ok q \<Longrightarrow> length (contents q) \<le> ceiling"
    and enq_ok: "ok q \<Longrightarrow> ok (snd (enq x q))"
    and deq_ok: "ok q \<Longrightarrow> ok (snd (deq n q))"
    and enq_contents: "ok q \<Longrightarrow> contents (snd (enq x q)) = newest ceiling (contents q @ [x])"
    and enq_count: "ok q \<Longrightarrow> shed_count (snd (enq x q)) = shed_count q + (length (contents q) + 1 - ceiling)"
    and enq_tells: "ok q \<Longrightarrow> fst (enq x q) \<longleftrightarrow> length (contents q) < ceiling"
    and deq_batch: "ok q \<Longrightarrow> fst (deq n q) = take (nat n) (contents q)"
    and deq_contents: "ok q \<Longrightarrow> contents (snd (deq n q)) = drop (nat n) (contents q)"
    and deq_count: "ok q \<Longrightarrow> shed_count (snd (deq n q)) = shed_count q"
begin

lemma newest_split: "xs = take (length xs - n) xs @ newest n xs"
  by (simp add: newest_def)

text \<open>Nothing appears and nothing vanishes uncounted.\<close>

lemma enq_conserves:
  assumes "ok q"
  shows "\<exists>lost. contents q @ [x] = lost @ contents (snd (enq x q)) \<and> shed_count (snd (enq x q)) = shed_count q + length lost"
  using newest_split [of "contents q @ [x]" ceiling] enq_contents [OF assms, of x] enq_count [OF assms, of x]
  by (intro exI [of _ "take (length (contents q @ [x]) - ceiling) (contents q @ [x])"]) simp

lemma deq_conserves:
  assumes "ok q"
  shows "contents q = fst (deq n q) @ contents (snd (deq n q)) \<and> shed_count (snd (deq n q)) = shed_count q"
  using assms by (simp add: deq_batch deq_contents deq_count)

lemma enq_newest_kept: "ok q \<Longrightarrow> 1 \<le> ceiling \<Longrightarrow> x \<in> set (contents (snd (enq x q)))"
  by (simp add: enq_contents newest_def)

end

section \<open>The array implements it\<close>

definition queue_contents :: "'a bounded_queue \<Rightarrow> 'a list" where
  "queue_contents q = drop (bq_head q) (bq_items q)"

definition queue_ok :: "nat \<Rightarrow> 'a bounded_queue \<Rightarrow> bool" where
  "queue_ok maxItems q \<longleftrightarrow> 1 \<le> maxItems \<and> queue_depth q \<le> maxItems \<and> (bq_head q = 0 \<or> bq_head q < queue_depth q)"

lemma queue_depth_contents: "queue_depth q = length (queue_contents q)"
  by (simp add: queue_depth_def queue_contents_def)

lemma reclaim_contents [simp]: "queue_contents (reclaim q) = queue_contents q" "bq_dropped (reclaim q) = bq_dropped q"
  by (simp_all add: reclaim_def queue_contents_def)

lemma reclaim_head: "bq_head (reclaim q) = 0 \<or> bq_head (reclaim q) < queue_depth (reclaim q)"
  by (auto simp: reclaim_def)

lemma queue_ok_reclaim: "1 \<le> maxItems \<Longrightarrow> queue_depth q \<le> maxItems \<Longrightarrow> queue_ok maxItems (reclaim q)"
  using reclaim_head [of q] by (simp add: queue_ok_def queue_depth_contents)

lemma shed_loop_full:
  assumes "queue_ok maxItems q"
  shows "shed_loop maxItems False q =
    (if queue_depth q < maxItems then (False, q)
     else (True, q\<lparr>bq_head := bq_head q + 1, bq_dropped := bq_dropped q + 1\<rparr>))"
  using assms by (subst shed_loop.simps, subst shed_loop.simps) (auto simp: queue_ok_def queue_depth_def)

lemma queue_ok_bounds: "queue_ok maxItems q \<Longrightarrow> 1 \<le> maxItems \<and> length (queue_contents q) \<le> maxItems \<and> bq_head q \<le> length (bq_items q)"
  by (auto simp: queue_ok_def queue_depth_def queue_contents_def)

lemma contents_push_room:
  "bq_head q \<le> length (bq_items q) \<Longrightarrow> queue_contents (q\<lparr>bq_items := bq_items q @ [x]\<rparr>) = queue_contents q @ [x]"
  by (simp add: queue_contents_def)

lemma contents_push_full:
  "bq_head q < length (bq_items q) \<Longrightarrow>
   queue_contents (q\<lparr>bq_head := Suc (bq_head q), bq_dropped := d, bq_items := bq_items q @ [x]\<rparr>) = tl (queue_contents q) @ [x]"
  by (simp add: queue_contents_def drop_Suc tl_drop)

lemma queue_push_room:
  "queue_ok maxItems q \<Longrightarrow> length (queue_contents q) < maxItems \<Longrightarrow>
   queue_push maxItems x q = (True, reclaim (q\<lparr>bq_items := bq_items q @ [x]\<rparr>))"
  by (simp add: queue_push_def shed_loop_full queue_depth_contents)

lemma queue_push_full:
  "queue_ok maxItems q \<Longrightarrow> \<not> length (queue_contents q) < maxItems \<Longrightarrow>
   queue_push maxItems x q =
     (False, reclaim (q\<lparr>bq_head := bq_head q + 1, bq_dropped := bq_dropped q + 1, bq_items := bq_items q @ [x]\<rparr>))"
  by (simp add: queue_push_def shed_loop_full queue_depth_contents)

lemma queue_push_eq:
  assumes "queue_ok maxItems q"
  shows "queue_contents (snd (queue_push maxItems x q)) = newest maxItems (queue_contents q @ [x]) \<and>
    bq_dropped (snd (queue_push maxItems x q)) = bq_dropped q + (length (queue_contents q) + 1 - maxItems) \<and>
    fst (queue_push maxItems x q) = (length (queue_contents q) < maxItems) \<and>
    queue_ok maxItems (snd (queue_push maxItems x q))"
proof (cases "length (queue_contents q) < maxItems")
  case True
  then show ?thesis
    using queue_ok_bounds [OF assms]
    by (auto simp: queue_push_room [OF assms] contents_push_room newest_def queue_depth_contents intro!: queue_ok_reclaim)
next
  case False
  then have n: "length (queue_contents q) = maxItems" "1 \<le> maxItems" using queue_ok_bounds [OF assms] by auto
  then have "bq_head q < length (bq_items q)" "queue_contents q \<noteq> []" by (auto simp: queue_contents_def)
  then show ?thesis
    using n False
    by (auto simp: queue_push_full [OF assms] contents_push_full newest_def queue_depth_contents drop_Suc intro!: queue_ok_reclaim)
qed

lemma queue_drain_eq:
  assumes "queue_ok maxItems q"
  shows "fst (queue_drain n q) = take (nat n) (queue_contents q) \<and>
    queue_contents (snd (queue_drain n q)) = drop (nat n) (queue_contents q) \<and>
    bq_dropped (snd (queue_drain n q)) = bq_dropped q \<and> queue_ok maxItems (snd (queue_drain n q))"
proof -
  let ?m = "min (nat (max 0 n)) (queue_depth q)"
  have n: "nat (max 0 n) = nat n" by (simp add: max_def)
  have moved: "queue_contents (q\<lparr>bq_head := bq_head q + ?m\<rparr>) = drop (nat n) (queue_contents q)"
    by (cases "nat n \<le> queue_depth q") (simp_all add: n queue_contents_def queue_depth_def add.commute)
  have taken: "take ?m (queue_contents q) = take (nat n) (queue_contents q)"
    by (simp add: n queue_depth_contents min_def)
  show ?thesis
  proof (cases "?m = 0")
    case True
    then show ?thesis using assms by (auto simp: n queue_drain_def queue_depth_contents min_def split: if_splits)
  next
    case False
    then have "queue_drain n q = (take ?m (queue_contents q), reclaim (q\<lparr>bq_head := bq_head q + ?m\<rparr>))"
      by (simp only: queue_drain_def queue_contents_def Let_def if_False)
    then show ?thesis
      using moved taken queue_ok_bounds [OF assms] by (auto simp: queue_depth_contents intro!: queue_ok_reclaim)
  qed
qed

interpretation usage_queue: shedding_queue queue_contents "queue_push maxItems" queue_drain bq_dropped "queue_ok maxItems" maxItems
  for maxItems
  by unfold_locales (simp_all add: queue_push_eq queue_drain_eq queue_ok_bounds)

text \<open>The array stays below twice the ceiling, drained or not.\<close>

lemma queue_array_bounded: "queue_ok maxItems q \<Longrightarrow> length (bq_items q) < 2 * maxItems"
  by (auto simp: queue_ok_def queue_depth_def)

lemma queue_ok_new: "createBoundedQueue n = Some q \<Longrightarrow> queue_ok (nat n) q \<and> queue_contents q = [] \<and> bq_dropped q = 0"
  by (auto simp: createBoundedQueue_def queue_ok_def queue_depth_def queue_contents_def split: if_splits)

end
