(* ===== verification/Usage_Recorder.thy ===== *)
theory Usage_Recorder
  imports Usage_Queue "HOL-Library.Multiset"
begin

text \<open>
  The usage recorder (\<open>usage/recorder.ts\<close>) with its shutdown life cycle
  (\<open>shutdown/writer-lifecycle.ts\<close>). A pending \<open>await writer.write(\<dots>)\<close> is a state
  (\<open>ur_inFlight\<close>), its resolution an event; between two events the code runs to its next \<open>await\<close>.
  What the code tells the outside (batches handed to the writer with their fate, observed and shed
  records, abandonment counts) is kept in logs. Hooks are total: the sources require \<open>onRecord\<close> not to
  throw.
\<close>

section \<open>State\<close>

datatype ('a, 't) queued_usage = Attempt 'a | Terminal 't

fun isAttempt :: "('a, 't) queued_usage \<Rightarrow> bool" where
  "isAttempt (Attempt a) = True"
| "isAttempt (Terminal t) = False"

definition attempts_of :: "('a, 't) queued_usage list \<Rightarrow> 'a list" where
  "attempts_of batch = List.map_filter (\<lambda>e. case e of Attempt a \<Rightarrow> Some a | Terminal t \<Rightarrow> None) batch"

datatype write_fate = Persisted | GivenBack | Discarded

datatype stop_stage = NotStopping | FirstFlush | SecondFlush | StopFinished

record writer_lifecycle =
  wl_deadlineExpired :: bool
  wl_accepting :: bool
  wl_draining :: bool
  wl_stopping :: stop_stage
  wl_expired :: bool
  wl_reported :: bool

record ('a, 't) usage_recorder =
  ur_queue :: "('a, 't) queued_usage bounded_queue"
  ur_retry :: "('a, 't) queued_usage list option"
  ur_inFlight :: "(('a, 't) queued_usage list \<times> bool) option"
  ur_rejectedAfterStop :: nat
  ur_unsettled :: nat
  ur_written :: nat
  ur_writeFailures :: nat
  ur_writeDiscarded :: nat
  ur_lifecycle :: writer_lifecycle
  ur_observed :: "'a list"
  ur_onShed :: "('a, 't) queued_usage list"
  ur_writes :: "(('a, 't) queued_usage list \<times> write_fate) list"
  ur_onAbandoned :: "nat list"

record recorder_options =
  uo_maxQueued :: nat
  uo_batchSize :: int

definition createWriterLifecycle :: writer_lifecycle where
  "createWriterLifecycle =
     \<lparr>wl_deadlineExpired = False, wl_accepting = True, wl_draining = False, wl_stopping = NotStopping,
      wl_expired = False, wl_reported = False\<rparr>"

definition createUsageRecorder :: "('a, 't) usage_recorder" where
  "createUsageRecorder =
     \<lparr>ur_queue = \<lparr>bq_items = [], bq_head = 0, bq_dropped = 0\<rparr>, ur_retry = None, ur_inFlight = None,
      ur_rejectedAfterStop = 0, ur_unsettled = 0, ur_written = 0, ur_writeFailures = 0, ur_writeDiscarded = 0,
      ur_lifecycle = createWriterLifecycle, ur_observed = [], ur_onShed = [], ur_writes = [], ur_onAbandoned = []\<rparr>"

section \<open>Draining\<close>

definition retry_length :: "('a, 't) usage_recorder \<Rightarrow> nat" where
  "retry_length s = (case ur_retry s of None \<Rightarrow> 0 | Some b \<Rightarrow> length b)"

definition recorder_pending :: "('a, 't) usage_recorder \<Rightarrow> nat" where
  "recorder_pending s = queue_depth (ur_queue s) + retry_length s"

definition recorder_outstanding :: "('a, 't) usage_recorder \<Rightarrow> nat" where
  "recorder_outstanding s = queue_depth (ur_queue s) + retry_length s + ur_unsettled s"

text \<open>The head of \<open>writeBatch\<close>, up to the pending write.\<close>

definition writeBatch :: "('a, 't) queued_usage list \<Rightarrow> bool \<Rightarrow> ('a, 't) usage_recorder \<Rightarrow> ('a, 't) usage_recorder" where
  "writeBatch batch retried s =
     s\<lparr>ur_observed := (if retried then ur_observed s else ur_observed s @ attempts_of batch),
       ur_unsettled := length batch,
       ur_inFlight := Some (batch, retried)\<rparr>"

text \<open>One turn of \<open>drainAll\<close>: it returns, which clears \<open>inFlight\<close>, or starts the next write.\<close>

definition drainAll :: "recorder_options \<Rightarrow> ('a, 't) usage_recorder \<Rightarrow> ('a, 't) usage_recorder" where
  "drainAll opts s =
     (if wl_deadlineExpired (ur_lifecycle s) then s\<lparr>ur_inFlight := None\<rparr>
      else
        case ur_retry s of
          Some batch \<Rightarrow>
            (let s = s\<lparr>ur_retry := None\<rparr>
             in if batch = [] then s\<lparr>ur_inFlight := None\<rparr> else writeBatch batch True s)
        | None \<Rightarrow>
            (let (batch, q) = queue_drain (uo_batchSize opts) (ur_queue s);
                 s = s\<lparr>ur_queue := q\<rparr>
             in if batch = [] then s\<lparr>ur_inFlight := None\<rparr> else writeBatch batch False s))"

definition recorder_flush :: "recorder_options \<Rightarrow> ('a, 't) usage_recorder \<Rightarrow> ('a, 't) usage_recorder" where
  "recorder_flush opts s = (if ur_inFlight s \<noteq> None then s else drainAll opts s)"

section \<open>Life cycle\<close>

definition lifecycle_warn :: "nat \<Rightarrow> ('a, 't) usage_recorder \<Rightarrow> ('a, 't) usage_recorder" where
  "lifecycle_warn n s =
     (if wl_reported (ur_lifecycle s) then s
      else s\<lparr>ur_lifecycle := (ur_lifecycle s)\<lparr>wl_reported := True\<rparr>, ur_onAbandoned := ur_onAbandoned s @ [n]\<rparr>)"

definition stop_finish :: "('a, 't) usage_recorder \<Rightarrow> ('a, 't) usage_recorder" where
  "stop_finish s =
     (let s = (if recorder_pending s > 0 then lifecycle_warn (recorder_pending s) s else s)
      in s\<lparr>ur_lifecycle := (ur_lifecycle s)\<lparr>wl_draining := False, wl_stopping := StopFinished\<rparr>\<rparr>)"

text \<open>What the pending \<open>stop\<close> does each time a flush it awaits has ended.\<close>

definition stop_second :: "recorder_options \<Rightarrow> ('a, 't) usage_recorder \<Rightarrow> ('a, 't) usage_recorder" where
  "stop_second opts s =
     (if \<not> wl_expired (ur_lifecycle s) \<and> recorder_pending s > 0
      then (let s = recorder_flush opts (s\<lparr>ur_lifecycle := (ur_lifecycle s)\<lparr>wl_stopping := SecondFlush\<rparr>\<rparr>)
            in if ur_inFlight s = None then stop_finish s else s)
      else stop_finish s)"

definition stop_resume :: "recorder_options \<Rightarrow> ('a, 't) usage_recorder \<Rightarrow> ('a, 't) usage_recorder" where
  "stop_resume opts s =
     (if ur_inFlight s \<noteq> None then s
      else case wl_stopping (ur_lifecycle s) of
        FirstFlush \<Rightarrow> stop_second opts s
      | SecondFlush \<Rightarrow> stop_finish s
      | _ \<Rightarrow> s)"

definition lifecycle_start :: "('a, 't) usage_recorder \<Rightarrow> ('a, 't) usage_recorder" where
  "lifecycle_start s =
     (if wl_draining (ur_lifecycle s) then s
      else s\<lparr>ur_lifecycle := (ur_lifecycle s)
               \<lparr>wl_stopping := NotStopping, wl_deadlineExpired := False, wl_accepting := True\<rparr>\<rparr>)"

definition lifecycle_stop :: "recorder_options \<Rightarrow> ('a, 't) usage_recorder \<Rightarrow> ('a, 't) usage_recorder" where
  "lifecycle_stop opts s =
     (if wl_stopping (ur_lifecycle s) \<noteq> NotStopping then s
      else
        let s = s\<lparr>ur_lifecycle := (ur_lifecycle s)
                    \<lparr>wl_accepting := False, wl_draining := True, wl_expired := False, wl_reported := False,
                     wl_stopping := FirstFlush\<rparr>\<rparr>
        in stop_resume opts (recorder_flush opts s))"

text \<open>The deadline timer of a \<open>stop\<close> that is still draining; it is cleared once \<open>stop\<close> has resolved.\<close>

definition lifecycle_deadline :: "('a, 't) usage_recorder \<Rightarrow> ('a, 't) usage_recorder" where
  "lifecycle_deadline s =
     (if wl_draining (ur_lifecycle s) \<and> \<not> wl_expired (ur_lifecycle s)
      then lifecycle_warn (recorder_outstanding s)
             (s\<lparr>ur_lifecycle := (ur_lifecycle s)\<lparr>wl_expired := True, wl_deadlineExpired := True\<rparr>\<rparr>)
      else s)"

section \<open>Operations\<close>

definition enqueue :: "recorder_options \<Rightarrow> ('a, 't) queued_usage \<Rightarrow> ('a, 't) usage_recorder \<Rightarrow> ('a, 't) usage_recorder" where
  "enqueue opts event s =
     (if \<not> wl_accepting (ur_lifecycle s) then s\<lparr>ur_rejectedAfterStop := ur_rejectedAfterStop s + 1\<rparr>
      else
        let (roomy, q) = queue_push (uo_maxQueued opts) event (ur_queue s);
            s = s\<lparr>ur_queue := q\<rparr>
        in if \<not> roomy then s\<lparr>ur_onShed := ur_onShed s @ [event]\<rparr> else s)"

text \<open>The tail of \<open>writeBatch\<close>, the loop of \<open>drainAll\<close> behind it, and the \<open>stop\<close> that waits for the flush.\<close>

definition write_settles :: "recorder_options \<Rightarrow> bool \<Rightarrow> ('a, 't) usage_recorder \<Rightarrow> ('a, 't) usage_recorder" where
  "write_settles opts accepted s =
     (case ur_inFlight s of
        None \<Rightarrow> s
      | Some (batch, retried) \<Rightarrow>
          if accepted
          then stop_resume opts (drainAll opts
                 (s\<lparr>ur_written := ur_written s + length batch, ur_writes := ur_writes s @ [(batch, Persisted)],
                   ur_unsettled := 0\<rparr>))
          else
            let s = s\<lparr>ur_writeFailures := ur_writeFailures s + length batch\<rparr>;
                s = (if retried
                     then s\<lparr>ur_writeDiscarded := ur_writeDiscarded s + length batch, ur_writes := ur_writes s @ [(batch, Discarded)]\<rparr>
                     else s\<lparr>ur_retry := Some batch, ur_writes := ur_writes s @ [(batch, GivenBack)]\<rparr>)
            in stop_resume opts (s\<lparr>ur_unsettled := 0, ur_inFlight := None\<rparr>))"

record usage_stats =
  us_rejectedAfterStop :: nat
  us_depth :: nat
  us_dropped :: nat
  us_written :: nat
  us_writeFailures :: nat
  us_writeDiscarded :: nat

definition recorder_stats :: "('a, 't) usage_recorder \<Rightarrow> usage_stats" where
  "recorder_stats s =
     \<lparr>us_rejectedAfterStop = ur_rejectedAfterStop s, us_depth = queue_depth (ur_queue s) + retry_length s,
      us_dropped = bq_dropped (ur_queue s), us_written = ur_written s, us_writeFailures = ur_writeFailures s,
      us_writeDiscarded = ur_writeDiscarded s\<rparr>"

datatype ('a, 't) recorder_event =
    RecordUsage "('a, 't) queued_usage"
  | FlushNow
  | WriteSettles bool
  | StartRecorder
  | StopRecorder
  | DeadlineFires

fun recorder_step :: "recorder_options \<Rightarrow> ('a, 't) recorder_event \<Rightarrow> ('a, 't) usage_recorder \<Rightarrow> ('a, 't) usage_recorder" where
  "recorder_step opts (RecordUsage e) s = enqueue opts e s"
| "recorder_step opts FlushNow s = recorder_flush opts s"
| "recorder_step opts (WriteSettles ok) s = write_settles opts ok s"
| "recorder_step opts StartRecorder s = lifecycle_start s"
| "recorder_step opts StopRecorder s = lifecycle_stop opts s"
| "recorder_step opts DeadlineFires s = lifecycle_deadline s"

section \<open>The books\<close>

type_synonym ('a, 't) write_log = "(('a, 't) queued_usage list \<times> write_fate) list"

definition with_fate :: "write_fate \<Rightarrow> ('a, 't) write_log \<Rightarrow> ('a, 't) queued_usage list" where
  "with_fate f ws = concat (map fst (filter (\<lambda>w. snd w = f) ws))"

definition held_batch :: "('a, 't) usage_recorder \<Rightarrow> ('a, 't) queued_usage list" where
  "held_batch s =
     (case ur_inFlight s of Some (b, _) \<Rightarrow> b | None \<Rightarrow> []) @ (case ur_retry s of Some b \<Rightarrow> b | None \<Rightarrow> [])"

text \<open>A refused batch comes next and is the last word; only a batch given back can be discarded.\<close>

fun follows :: "('a, 't) queued_usage list \<times> write_fate \<Rightarrow> ('a, 't) queued_usage list \<times> write_fate \<Rightarrow> bool" where
  "follows (b, f) (b', f') \<longleftrightarrow> (if f = GivenBack then b' = b \<and> f' \<noteq> GivenBack else f' \<noteq> Discarded)"

definition one_retry :: "('a, 't) write_log \<Rightarrow> bool" where
  "one_retry ws \<longleftrightarrow> successively follows ws \<and> (ws \<noteq> [] \<longrightarrow> snd (hd ws) \<noteq> Discarded)"

definition awaiting :: "('a, 't) write_log \<Rightarrow> ('a, 't) queued_usage list option" where
  "awaiting ws = (if ws \<noteq> [] \<and> snd (last ws) = GivenBack then Some (fst (last ws)) else None)"

fun owed :: "('b \<times> bool) option \<Rightarrow> 'b option \<Rightarrow> 'b option" where
  "owed (Some (b, True)) _ = Some b"
| "owed _ r = r"

definition retry_owed :: "('a, 't) usage_recorder \<Rightarrow> ('a, 't) queued_usage list option" where
  "retry_owed s = owed (ur_inFlight s) (ur_retry s)"

definition conserved :: "('a, 't) queued_usage list \<Rightarrow> ('a, 't) usage_recorder \<Rightarrow> bool" where
  "conserved acc s \<longleftrightarrow>
     (\<exists>lost. mset acc = mset (with_fate Persisted (ur_writes s)) + mset (with_fate Discarded (ur_writes s)) +
          mset (held_batch s) + mset (queue_contents (ur_queue s)) + mset lost \<and>
        length lost = bq_dropped (ur_queue s))"

definition observed_once :: "('a, 't) usage_recorder \<Rightarrow> bool" where
  "observed_once s \<longleftrightarrow>
     mset (ur_observed s) =
       mset (attempts_of (with_fate Persisted (ur_writes s) @ with_fate Discarded (ur_writes s) @ held_batch s))"

definition counted_right :: "('a, 't) usage_recorder \<Rightarrow> bool" where
  "counted_right s \<longleftrightarrow>
     ur_written s = length (with_fate Persisted (ur_writes s)) \<and>
     ur_writeDiscarded s = length (with_fate Discarded (ur_writes s)) \<and>
     ur_writeFailures s = length (with_fate GivenBack (ur_writes s)) + length (with_fate Discarded (ur_writes s)) \<and>
     ur_unsettled s = (case ur_inFlight s of Some (b, _) \<Rightarrow> length b | None \<Rightarrow> 0)"

definition books_ok :: "recorder_options \<Rightarrow> ('a, 't) queued_usage list \<Rightarrow> ('a, 't) usage_recorder \<Rightarrow> bool" where
  "books_ok opts acc s \<longleftrightarrow>
     queue_ok (uo_maxQueued opts) (ur_queue s) \<and> conserved acc s \<and> observed_once s \<and> counted_right s \<and>
     one_retry (ur_writes s) \<and> awaiting (ur_writes s) = retry_owed s \<and> (ur_inFlight s \<noteq> None \<longrightarrow> ur_retry s = None) \<and>
     ur_retry s \<noteq> Some [] \<and> map_option fst (ur_inFlight s) \<noteq> Some []"

lemmas books_defs = conserved_def observed_once_def counted_right_def held_batch_def retry_owed_def

lemma with_fate_snoc [simp]: "with_fate f (ws @ [(b, g)]) = with_fate f ws @ (if f = g then b else [])"
  by (simp add: with_fate_def)

lemma attempts_append [simp]: "attempts_of (xs @ ys) = attempts_of xs @ attempts_of ys" "attempts_of [] = []"
  by (simp_all add: attempts_of_def List.map_filter_def)

lemma one_retry_snoc:
  "one_retry (ws @ [w]) \<longleftrightarrow> one_retry ws \<and> (case awaiting ws of Some b \<Rightarrow> fst w = b \<and> snd w \<noteq> GivenBack | None \<Rightarrow> snd w \<noteq> Discarded)"
  by (cases w; cases "last ws") (auto simp: one_retry_def awaiting_def successively_append_iff hd_append)

lemma awaiting_snoc [simp]: "awaiting (ws @ [(b, f)]) = (if f = GivenBack then Some b else None)"
  by (simp add: awaiting_def)

lemma books_ok_lifecycle [simp]:
  "books_ok opts acc (s\<lparr>ur_lifecycle := l\<rparr>) = books_ok opts acc s"
  "books_ok opts acc (s\<lparr>ur_onAbandoned := n\<rparr>) = books_ok opts acc s"
  "books_ok opts acc (s\<lparr>ur_onShed := n'\<rparr>) = books_ok opts acc s"
  "books_ok opts acc (s\<lparr>ur_rejectedAfterStop := k\<rparr>) = books_ok opts acc s"
  by (simp_all add: books_ok_def books_defs)

lemma drainAll_idle: "drainAll opts (s\<lparr>ur_inFlight := x\<rparr>) = drainAll opts s"
  by (simp add: drainAll_def writeBatch_def Let_def split: option.splits prod.splits)

lemma books_drainAll:
  assumes "books_ok opts acc (s\<lparr>ur_inFlight := None\<rparr>)" "ur_unsettled s = 0"
  shows "books_ok opts acc (drainAll opts s)"
proof -
  consider (expired) "wl_deadlineExpired (ur_lifecycle s)"
    | (retry) b where "\<not> wl_deadlineExpired (ur_lifecycle s)" "ur_retry s = Some b"
    | (fresh) "\<not> wl_deadlineExpired (ur_lifecycle s)" "ur_retry s = None" by auto
  then show ?thesis
  proof cases
    case expired
    then show ?thesis using assms by (simp add: drainAll_def)
  next
    case retry
    then show ?thesis
      using assms by (auto simp: drainAll_def writeBatch_def books_ok_def books_defs Let_def)
  next
    case fresh
    obtain b q where d: "queue_drain (uo_batchSize opts) (ur_queue s) = (b, q)" by fastforce
    have ok: "queue_ok (uo_maxQueued opts) (ur_queue s)" using assms by (simp add: books_ok_def)
    have "queue_contents (ur_queue s) = b @ queue_contents q" "bq_dropped q = bq_dropped (ur_queue s)" "queue_ok (uo_maxQueued opts) q"
      using usage_queue.deq_conserves [OF ok, of "uo_batchSize opts"] usage_queue.deq_ok [OF ok, of "uo_batchSize opts"] d by auto
    then show ?thesis
      using fresh assms d
      by (auto simp: drainAll_def writeBatch_def books_ok_def books_defs Let_def)
  qed
qed

lemma idle_recorder [simp]: "ur_inFlight s = None \<Longrightarrow> s\<lparr>ur_inFlight := None\<rparr> = s"
  by (cases s) simp

lemma books_idle: "books_ok opts acc s \<Longrightarrow> ur_inFlight s = None \<Longrightarrow> ur_unsettled s = 0"
  by (simp add: books_ok_def counted_right_def)

lemma books_flush: "books_ok opts acc s \<Longrightarrow> books_ok opts acc (recorder_flush opts s)"
  using books_drainAll [of opts acc s] books_idle [of opts acc s]
  by (cases "ur_inFlight s") (simp_all add: recorder_flush_def)

lemma books_stop_finish: "books_ok opts acc (stop_finish s) = books_ok opts acc s"
  by (simp add: stop_finish_def lifecycle_warn_def Let_def)

lemma books_stop_resume: "books_ok opts acc s \<Longrightarrow> books_ok opts acc (stop_resume opts s)"
  by (auto simp: stop_resume_def stop_second_def books_stop_finish Let_def intro!: books_flush split: stop_stage.splits)

lemma books_settle:
  assumes "books_ok opts acc s" "ur_inFlight s = Some (batch, retried)"
  shows "books_ok opts acc (s\<lparr>ur_written := ur_written s + length batch, ur_writes := ur_writes s @ [(batch, Persisted)],
      ur_unsettled := 0, ur_inFlight := None\<rparr>)"
    and "retried \<Longrightarrow> books_ok opts acc (s\<lparr>ur_writeFailures := ur_writeFailures s + length batch,
      ur_writeDiscarded := ur_writeDiscarded s + length batch, ur_writes := ur_writes s @ [(batch, Discarded)],
      ur_unsettled := 0, ur_inFlight := None\<rparr>)"
    and "\<not> retried \<Longrightarrow> books_ok opts acc (s\<lparr>ur_writeFailures := ur_writeFailures s + length batch,
      ur_retry := Some batch, ur_writes := ur_writes s @ [(batch, GivenBack)], ur_unsettled := 0, ur_inFlight := None\<rparr>)"
  using assms by (cases retried; auto simp: books_ok_def books_defs one_retry_snoc)+

lemma books_write_settles:
  assumes "books_ok opts acc s"
  shows "books_ok opts acc (write_settles opts accepted s)"
proof (cases "ur_inFlight s")
  case None
  then show ?thesis using assms by (simp add: write_settles_def)
next
  case (Some w)
  obtain batch retried where w: "w = (batch, retried)" by fastforce
  note settled = books_settle [OF assms Some [unfolded w]]
  have "books_ok opts acc (drainAll opts (s\<lparr>ur_written := ur_written s + length batch,
      ur_writes := ur_writes s @ [(batch, Persisted)], ur_unsettled := 0\<rparr>))"
    using settled(1) by (intro books_drainAll) simp_all
  then show ?thesis
    using Some w settled by (auto simp: write_settles_def Let_def intro!: books_stop_resume)
qed

lemma books_enqueue:
  assumes "books_ok opts acc s"
  shows "books_ok opts (if wl_accepting (ur_lifecycle s) then acc @ [e] else acc) (enqueue opts e s)"
proof -
  obtain roomy q where push: "queue_push (uo_maxQueued opts) e (ur_queue s) = (roomy, q)" by fastforce
  have ok: "queue_ok (uo_maxQueued opts) (ur_queue s)" using assms by (simp add: books_ok_def)
  obtain lost where lost: "queue_contents (ur_queue s) @ [e] = lost @ queue_contents q"
      "bq_dropped q = bq_dropped (ur_queue s) + length lost" "queue_ok (uo_maxQueued opts) q"
    using usage_queue.enq_conserves [OF ok, of e] usage_queue.enq_ok [OF ok, of e] push by auto
  have moved: "mset (queue_contents (ur_queue s)) + {#e#} = mset lost + mset (queue_contents q)"
    using arg_cong [OF lost(1), of mset] by simp
  have "conserved acc s" using assms by (simp add: books_ok_def)
  then obtain gone where "mset acc + {#e#} = mset (with_fate Persisted (ur_writes s)) + mset (with_fate Discarded (ur_writes s)) +
      mset (held_batch s) + (mset (queue_contents (ur_queue s)) + {#e#}) + mset gone" "length gone = bq_dropped (ur_queue s)"
    by (auto simp: conserved_def)
  then have "conserved (acc @ [e]) (s\<lparr>ur_queue := q\<rparr>)"
    unfolding conserved_def moved using lost(2) by (intro exI [of _ "gone @ lost"]) (simp add: held_batch_def)
  then have "books_ok opts (acc @ [e]) (s\<lparr>ur_queue := q\<rparr>)"
    using assms lost(3) by (simp add: books_ok_def observed_once_def counted_right_def held_batch_def retry_owed_def)
  then show ?thesis using assms by (simp add: enqueue_def push Let_def)
qed

lemma books_step:
  assumes "books_ok opts acc s"
  shows "books_ok opts (case ev of RecordUsage e \<Rightarrow> if wl_accepting (ur_lifecycle s) then acc @ [e] else acc | _ \<Rightarrow> acc)
    (recorder_step opts ev s)"
  using assms books_enqueue [OF assms]
  by (cases ev) (auto simp: lifecycle_start_def lifecycle_stop_def lifecycle_deadline_def lifecycle_warn_def Let_def
      intro!: books_flush books_write_settles books_stop_resume)

lemma books_new: "1 \<le> uo_maxQueued opts \<Longrightarrow> books_ok opts [] createUsageRecorder"
  by (simp add: books_ok_def books_defs createUsageRecorder_def queue_ok_def queue_depth_def queue_contents_def
      with_fate_def one_retry_def awaiting_def)

section \<open>Shutdown\<close>

definition reported_in_full :: "('a, 't) usage_recorder \<Rightarrow> bool" where
  "reported_in_full s \<longleftrightarrow>
     (recorder_outstanding s > 0 \<longrightarrow> ur_onAbandoned s \<noteq> [] \<and> recorder_outstanding s \<le> last (ur_onAbandoned s))"

text \<open>\<open>stop_mid\<close> holds at every point of a step, \<open>stop_ok\<close> between steps.\<close>

definition stop_mid :: "('a, 't) usage_recorder \<Rightarrow> bool" where
  "stop_mid s \<longleftrightarrow>
     (let l = ur_lifecycle s
      in (wl_draining l \<longleftrightarrow> wl_stopping l = FirstFlush \<or> wl_stopping l = SecondFlush) \<and>
         (wl_accepting l \<longrightarrow> wl_stopping l = NotStopping) \<and>
         (wl_draining l \<and> \<not> wl_expired l \<longrightarrow> \<not> wl_reported l) \<and>
         (wl_draining l \<and> wl_expired l \<or> wl_stopping l = StopFinished \<longrightarrow> reported_in_full s))"

definition stop_ok :: "('a, 't) usage_recorder \<Rightarrow> bool" where
  "stop_ok s \<longleftrightarrow> stop_mid s \<and> (wl_draining (ur_lifecycle s) \<longrightarrow> ur_inFlight s \<noteq> None)"

lemma drainAll_keeps [simp]:
  "ur_lifecycle (drainAll opts s) = ur_lifecycle s" "ur_onAbandoned (drainAll opts s) = ur_onAbandoned s"
  by (simp_all add: drainAll_def writeBatch_def Let_def split: option.splits prod.splits)

lemma outstanding_drainAll:
  assumes "queue_ok (uo_maxQueued opts) (ur_queue s)" "ur_unsettled s = 0"
  shows "recorder_outstanding (drainAll opts s) = recorder_outstanding s"
proof -
  have "length (queue_contents (ur_queue s)) = length (fst (queue_drain (uo_batchSize opts) (ur_queue s))) +
      length (queue_contents (snd (queue_drain (uo_batchSize opts) (ur_queue s))))"
    using usage_queue.deq_conserves [OF assms(1), of "uo_batchSize opts"] by (metis length_append)
  then show ?thesis
    using assms(2)
    by (auto simp: drainAll_def writeBatch_def recorder_outstanding_def retry_length_def queue_depth_contents Let_def case_prod_beta
        split: option.splits)
qed

lemma stop_mid_cong:
  assumes "stop_mid s" "ur_lifecycle t = ur_lifecycle s" "ur_onAbandoned t = ur_onAbandoned s"
    and "recorder_outstanding t \<le> recorder_outstanding s"
  shows "stop_mid t"
  using assms by (auto simp: stop_mid_def reported_in_full_def Let_def)

lemma stop_mid_drainAll:
  assumes "stop_mid s" "queue_ok (uo_maxQueued opts) (ur_queue s)" "ur_unsettled s = 0"
  shows "stop_mid (drainAll opts s)"
  using stop_mid_cong [OF assms(1), of "drainAll opts s"] outstanding_drainAll [OF assms(2,3)] by simp

lemma stop_mid_flush:
  "stop_mid s \<Longrightarrow> books_ok opts acc s \<Longrightarrow> stop_mid (recorder_flush opts s)"
  using stop_mid_drainAll [of s opts] books_idle [of opts acc s]
  by (cases "ur_inFlight s") (auto simp: recorder_flush_def books_ok_def)

lemma stop_ok_finish:
  assumes "stop_mid s" "ur_unsettled s = 0" "wl_draining (ur_lifecycle s)"
  shows "stop_ok (stop_finish s)"
  using assms
  by (auto simp: stop_ok_def stop_mid_def stop_finish_def lifecycle_warn_def reported_in_full_def recorder_pending_def
      recorder_outstanding_def retry_length_def Let_def)

lemma stop_ok_second:
  assumes "stop_mid s" "books_ok opts acc s" "ur_inFlight s = None" "wl_stopping (ur_lifecycle s) = FirstFlush"
  shows "stop_ok (stop_second opts s)"
proof -
  have idle: "ur_unsettled s = 0" using books_idle assms(2,3) .
  have draining: "wl_draining (ur_lifecycle s)" using assms(1,4) by (simp add: stop_mid_def Let_def)
  show ?thesis
  proof (cases "\<not> wl_expired (ur_lifecycle s) \<and> recorder_pending s > 0")
    case False
    then have "stop_second opts s = stop_finish s" unfolding stop_second_def by (rule if_not_P)
    then show ?thesis using stop_ok_finish [OF assms(1) idle draining] by simp
  next
    case True
    let ?s = "s\<lparr>ur_lifecycle := (ur_lifecycle s)\<lparr>wl_stopping := SecondFlush\<rparr>\<rparr>"
    let ?t = "recorder_flush opts ?s"
    have mid: "stop_mid ?s" using assms(1,4) draining True by (simp add: stop_mid_def Let_def)
    have books: "books_ok opts acc ?t" using assms(2) by (intro books_flush) simp
    have t: "stop_mid ?t" "wl_draining (ur_lifecycle ?t)"
      using stop_mid_flush [OF mid] assms(2) draining by (simp_all add: recorder_flush_def)
    have "stop_second opts s = (if ur_inFlight ?t = None then stop_finish ?t else ?t)"
      unfolding stop_second_def Let_def using True by (rule if_P)
    then show ?thesis
      using stop_ok_finish [OF t(1) _ t(2)] books_idle [OF books] t by (simp add: stop_ok_def)
  qed
qed

lemma stop_ok_resume:
  assumes "stop_mid s" "books_ok opts acc s"
  shows "stop_ok (stop_resume opts s)"
proof (cases "ur_inFlight s")
  case None
  have draining: "wl_stopping (ur_lifecycle s) = SecondFlush \<Longrightarrow> wl_draining (ur_lifecycle s)"
    and still: "wl_stopping (ur_lifecycle s) \<in> {NotStopping, StopFinished} \<Longrightarrow> \<not> wl_draining (ur_lifecycle s)"
    using assms(1) by (auto simp: stop_mid_def Let_def)
  show ?thesis
  proof (cases "wl_stopping (ur_lifecycle s)")
    case FirstFlush
    then show ?thesis using stop_ok_second [OF assms None] by (simp add: stop_resume_def None)
  next
    case SecondFlush
    then show ?thesis
      using stop_ok_finish [OF assms(1) books_idle [OF assms(2) None] draining] by (simp add: stop_resume_def None)
  qed (use assms(1) still in \<open>simp_all add: stop_resume_def None stop_ok_def\<close>)
qed (simp add: stop_resume_def stop_ok_def assms(1))

lemma stop_ok_settles:
  assumes "stop_ok s" "books_ok opts acc s"
  shows "stop_ok (write_settles opts accepted s)"
proof (cases "ur_inFlight s")
  case None
  then show ?thesis using assms(1) by (simp add: write_settles_def)
next
  case (Some w)
  obtain batch retried where w: "w = (batch, retried)" by fastforce
  have mid: "stop_mid s" using assms(1) by (simp add: stop_ok_def)
  have q: "queue_ok (uo_maxQueued opts) (ur_queue s)" and n: "ur_unsettled s = length batch" and r: "ur_retry s = None"
    using assms(2) Some w by (auto simp: books_ok_def counted_right_def)
  note settled = books_settle [OF assms(2) Some [unfolded w]]
  let ?done = "s\<lparr>ur_written := ur_written s + length batch, ur_writes := ur_writes s @ [(batch, Persisted)], ur_unsettled := 0\<rparr>"
  have "stop_ok (stop_resume opts (drainAll opts ?done))"
  proof (rule stop_ok_resume)
    show "books_ok opts acc (drainAll opts ?done)" using settled(1) by (intro books_drainAll) simp_all
    have "stop_mid ?done" by (rule stop_mid_cong [OF mid]) (simp_all add: recorder_outstanding_def retry_length_def)
    then show "stop_mid (drainAll opts ?done)" using q by (intro stop_mid_drainAll) simp_all
  qed
  moreover have "stop_ok (stop_resume opts (s\<lparr>ur_writeFailures := ur_writeFailures s + length batch,
      ur_writeDiscarded := ur_writeDiscarded s + length batch, ur_writes := ur_writes s @ [(batch, Discarded)],
      ur_unsettled := 0, ur_inFlight := None\<rparr>))" if retried
    using settled(2) [OF that]
    by (rule stop_ok_resume [rotated]) (rule stop_mid_cong [OF mid]; simp add: recorder_outstanding_def retry_length_def)
  moreover have "stop_ok (stop_resume opts (s\<lparr>ur_writeFailures := ur_writeFailures s + length batch,
      ur_retry := Some batch, ur_writes := ur_writes s @ [(batch, GivenBack)], ur_unsettled := 0, ur_inFlight := None\<rparr>))"
    if "\<not> retried"
    using settled(3) [OF that]
    by (rule stop_ok_resume [rotated])
       (rule stop_mid_cong [OF mid]; simp add: recorder_outstanding_def retry_length_def n r)
  ultimately show ?thesis using Some w by (cases retried) (simp_all add: write_settles_def Let_def)
qed

lemma stop_ok_step:
  assumes "stop_ok s" "books_ok opts acc s"
  shows "stop_ok (recorder_step opts ev s)"
proof (cases ev)
  case (RecordUsage e)
  then show ?thesis
    using assms by (auto simp: enqueue_def stop_ok_def stop_mid_def reported_in_full_def recorder_outstanding_def retry_length_def Let_def
        split: prod.splits)
next
  case FlushNow
  then show ?thesis
    using assms stop_mid_flush [of s opts acc] by (auto simp: stop_ok_def recorder_flush_def)
next
  case StopRecorder
  let ?s = "s\<lparr>ur_lifecycle := (ur_lifecycle s)
      \<lparr>wl_accepting := False, wl_draining := True, wl_expired := False, wl_reported := False, wl_stopping := FirstFlush\<rparr>\<rparr>"
  have "stop_mid ?s" by (simp add: stop_mid_def)
  then have "stop_mid (recorder_flush opts ?s)" "books_ok opts acc (recorder_flush opts ?s)"
    using assms(2) by (auto intro!: stop_mid_flush books_flush)
  then have "stop_ok (stop_resume opts (recorder_flush opts ?s))" by (rule stop_ok_resume)
  then show ?thesis using StopRecorder assms(1) by (simp add: lifecycle_stop_def Let_def)
next
  case DeadlineFires
  then show ?thesis
    using assms(1)
    by (auto simp: lifecycle_deadline_def lifecycle_warn_def stop_ok_def stop_mid_def reported_in_full_def recorder_outstanding_def
        retry_length_def Let_def)
next
  case (WriteSettles ok)
  then show ?thesis using stop_ok_settles [OF assms] by simp
next
  case StartRecorder
  then show ?thesis using assms(1) by (auto simp: lifecycle_start_def stop_ok_def stop_mid_def Let_def)
qed

section \<open>Runs\<close>

definition recorder_move :: "recorder_options \<Rightarrow> ('a, 't) recorder_event \<Rightarrow>
    ('a, 't) queued_usage list \<times> ('a, 't) usage_recorder \<Rightarrow> ('a, 't) queued_usage list \<times> ('a, 't) usage_recorder" where
  "recorder_move opts ev x =
     (case ev of RecordUsage e \<Rightarrow> if wl_accepting (ur_lifecycle (snd x)) then fst x @ [e] else fst x | _ \<Rightarrow> fst x,
      recorder_step opts ev (snd x))"

definition recorder_run :: "recorder_options \<Rightarrow> ('a, 't) recorder_event list \<Rightarrow> ('a, 't) queued_usage list \<times> ('a, 't) usage_recorder" where
  "recorder_run opts evs = fold (recorder_move opts) evs ([], createUsageRecorder)"

definition run_ok :: "recorder_options \<Rightarrow> ('a, 't) queued_usage list \<times> ('a, 't) usage_recorder \<Rightarrow> bool" where
  "run_ok opts x \<longleftrightarrow> books_ok opts (fst x) (snd x) \<and> stop_ok (snd x)"

lemma run_ok_move: "run_ok opts x \<Longrightarrow> run_ok opts (recorder_move opts ev x)"
  using books_step [of opts "fst x" "snd x" ev] stop_ok_step [of "snd x" opts "fst x" ev]
  by (simp add: run_ok_def recorder_move_def)

lemma run_ok_new: "1 \<le> uo_maxQueued opts \<Longrightarrow> run_ok opts ([], createUsageRecorder)"
  using books_new [of opts]
  by (simp add: run_ok_def stop_ok_def stop_mid_def createUsageRecorder_def createWriterLifecycle_def)

interpretation recorder: kept_machine "recorder_move opts" "\<lambda>_. True" "run_ok opts" for opts
  by unfold_locales (rule run_ok_move)

lemma run_ok_run: "1 \<le> uo_maxQueued opts \<Longrightarrow> run_ok opts (recorder_run opts evs)"
  unfolding recorder_run_def by (rule recorder.run_kept) (simp_all add: run_ok_new list_all_iff)

text \<open>
  (C20) No usage record is lost without being counted, whatever the writer does. After any sequence of
  records, flushes, accepted and refused writes, stops and restarts, the records taken in are exactly
  those written, those discarded, those still held (queued, awaiting their retry, or in the pending
  write) and those shed, and the counters of \<open>stats\<close> are their numbers. Each attempt that left the queue
  was observed exactly once, retries included; a refused batch is tried exactly once more, next, before
  any other; and the queue stays within its ceiling, its array below twice that.
\<close>

theorem usage_records_accounted_for:
  assumes "1 \<le> uo_maxQueued opts" and "recorder_run opts evs = (taken, s)"
  shows "(\<exists>shed. mset taken = mset (with_fate Persisted (ur_writes s)) + mset (with_fate Discarded (ur_writes s)) +
        mset (held_batch s) + mset (queue_contents (ur_queue s)) + mset shed \<and> us_dropped (recorder_stats s) = length shed) \<and>
    us_written (recorder_stats s) = length (with_fate Persisted (ur_writes s)) \<and>
    us_writeDiscarded (recorder_stats s) = length (with_fate Discarded (ur_writes s)) \<and>
    mset (ur_observed s) = mset (attempts_of (with_fate Persisted (ur_writes s) @ with_fate Discarded (ur_writes s) @ held_batch s)) \<and>
    one_retry (ur_writes s) \<and>
    length (queue_contents (ur_queue s)) \<le> uo_maxQueued opts \<and> length (bq_items (ur_queue s)) < 2 * uo_maxQueued opts"
proof -
  have "books_ok opts taken s" using run_ok_run [OF assms(1), of evs] assms(2) by (simp add: run_ok_def)
  moreover from this have "length (queue_contents (ur_queue s)) \<le> uo_maxQueued opts" "length (bq_items (ur_queue s)) < 2 * uo_maxQueued opts"
    using usage_queue.bounded queue_array_bounded by (auto simp: books_ok_def)
  ultimately show ?thesis
    by (auto simp: books_ok_def conserved_def observed_once_def counted_right_def recorder_stats_def)
qed

text \<open>
  (C26) A stop never loses records silently. Once \<open>stop\<close> has finished draining, or its deadline has
  passed, everything that is still unwritten at any later point (queued, given back, or in a write that
  has not come back) was reported through \<open>onAbandoned\<close> with at least that count, and nothing more is
  accepted until a restart.
\<close>

theorem stop_reports_every_loss:
  assumes "1 \<le> uo_maxQueued opts" and "recorder_run opts evs = (taken, s)"
    and "wl_stopping (ur_lifecycle s) = StopFinished \<or> wl_draining (ur_lifecycle s) \<and> wl_expired (ur_lifecycle s)"
  shows "\<not> wl_accepting (ur_lifecycle s) \<and>
    (recorder_outstanding s > 0 \<longrightarrow> ur_onAbandoned s \<noteq> [] \<and> recorder_outstanding s \<le> last (ur_onAbandoned s))"
  using run_ok_run [OF assms(1), of evs] assms(2,3)
  by (auto simp: run_ok_def stop_ok_def stop_mid_def reported_in_full_def Let_def)

definition small_recorder :: recorder_options where
  "small_recorder = \<lparr>uo_maxQueued = 2, uo_batchSize = 1\<rparr>"

definition refused_run :: "(int, int) recorder_event list" where
  "refused_run =
     [RecordUsage (Attempt 1), RecordUsage (Attempt 2), RecordUsage (Terminal 3), FlushNow, WriteSettles False,
      StopRecorder, WriteSettles False]"

theorem usage_records_accounted_for_witness:
  "let s = snd (recorder_run small_recorder refused_run)
   in with_fate Discarded (ur_writes s) = [Attempt 2] \<and> held_batch s = [Terminal 3] \<and> one_retry (ur_writes s)"
proof -
  have "with_fate Discarded (ur_writes (snd (recorder_run small_recorder refused_run))) = [Attempt 2]"
    "held_batch (snd (recorder_run small_recorder refused_run)) = [Terminal 3]" by code_simp+
  moreover have "one_retry (ur_writes (snd (recorder_run small_recorder refused_run)))"
    using usage_records_accounted_for [of small_recorder refused_run, OF _ prod.collapse [symmetric]]
    by (simp add: small_recorder_def)
  ultimately show ?thesis by simp
qed

theorem stop_reports_every_loss_witness:
  "let s = snd (recorder_run small_recorder (refused_run @ [WriteSettles False]))
   in recorder_outstanding s = 1 \<and> 1 \<le> last (ur_onAbandoned s)"
proof -
  let ?s = "snd (recorder_run small_recorder (refused_run @ [WriteSettles False]))"
  have "wl_stopping (ur_lifecycle ?s) = StopFinished" "recorder_outstanding ?s = 1" by code_simp+
  then show ?thesis
    using stop_reports_every_loss [of small_recorder "refused_run @ [WriteSettles False]", OF _ prod.collapse [symmetric]]
    by (simp add: small_recorder_def)
qed

text \<open>The record \<open>onShed\<close> is handed on overflow is the one just queued, not one that was shed.\<close>

lemma onShed_names_new_record:
  assumes "books_ok opts acc s" "wl_accepting (ur_lifecycle s)" "length (queue_contents (ur_queue s)) = uo_maxQueued opts"
  shows "ur_onShed (enqueue opts e s) = ur_onShed s @ [e] \<and> e \<in> set (queue_contents (ur_queue (enqueue opts e s)))"
proof -
  have ok: "queue_ok (uo_maxQueued opts) (ur_queue s)" using assms(1) by (simp add: books_ok_def)
  show ?thesis
    using usage_queue.enq_tells [OF ok, of e] usage_queue.enq_newest_kept [OF ok, of e] queue_ok_bounds [OF ok] assms(2,3)
    by (simp add: enqueue_def case_prod_beta Let_def)
qed

end
