(* ===== verification/Ttl_Cache.thy ===== *)
theory Ttl_Cache
  imports Js_Map
begin

text \<open>
  The bounded cache of verified keys (\<open>dataplane/auth/cache.ts\<close>): a \<open>Map\<close> whose insertion order is the
  order of use, entries with an expiry, eviction of the least recently used. The clock is an argument.
\<close>

record 'v ttl_entry =
  te_value :: 'v
  te_expiresAtMs :: instant

type_synonym 'v ttl_cache = "(string, 'v ttl_entry) js_map"

record ttl_cache_options =
  tc_maxEntries :: nat
  tc_ttlMs :: int

text \<open>\<open>createTtlCache\<close> throws for a capacity below one.\<close>

definition createTtlCache :: "ttl_cache_options \<Rightarrow> 'v ttl_cache option" where
  "createTtlCache opts = (if tc_maxEntries opts < 1 then None else Some [])"

definition evictOldest :: "'v ttl_cache \<Rightarrow> 'v ttl_cache" where
  "evictOldest m = (case m of [] \<Rightarrow> [] | e # _ \<Rightarrow> map_delete (fst e) m)"

definition cache_get :: "instant \<Rightarrow> string \<Rightarrow> 'v ttl_cache \<Rightarrow> 'v option \<times> 'v ttl_cache" where
  "cache_get now key m =
     (case map_get m key of
        None \<Rightarrow> (None, m)
      | Some entry \<Rightarrow>
          if te_expiresAtMs entry \<le> now then (None, map_delete key m)
          else (Some (te_value entry), map_set key entry (map_delete key m)))"

text \<open>The eviction loop of \<open>set\<close>; the guard of the constructor makes it end.\<close>

function evict_loop :: "nat \<Rightarrow> 'v ttl_cache \<Rightarrow> 'v ttl_cache" where
  "evict_loop maxEntries m = (if 1 \<le> maxEntries \<and> map_size m \<ge> maxEntries then evict_loop maxEntries (evictOldest m) else m)"
  by pat_completeness auto
termination
proof (relation "measure (\<lambda>(n, m). length m)")
  fix n :: nat and m :: "'v ttl_cache"
  assume "1 \<le> n \<and> map_size m \<ge> n"
  then show "((n, evictOldest m), n, m) \<in> measure (\<lambda>(n, m). length m)"
    by (cases m) (auto simp: evictOldest_def map_delete_def map_size_def intro!: le_imp_less_Suc length_filter_le)
qed simp

declare evict_loop.simps [simp del]

definition cache_set :: "ttl_cache_options \<Rightarrow> instant \<Rightarrow> string \<Rightarrow> 'v \<Rightarrow> int option \<Rightarrow> 'v ttl_cache \<Rightarrow> 'v ttl_cache" where
  "cache_set opts now key v ttlMs m =
     map_set key \<lparr>te_value = v, te_expiresAtMs = now + (case ttlMs of None \<Rightarrow> tc_ttlMs opts | Some t \<Rightarrow> t)\<rparr>
       (evict_loop (tc_maxEntries opts) (map_delete key m))"

section \<open>Laws\<close>

definition cache_ok :: "ttl_cache_options \<Rightarrow> 'v ttl_cache \<Rightarrow> bool" where
  "cache_ok opts m \<longleftrightarrow> map_ok m \<and> 1 \<le> tc_maxEntries opts \<and> map_size m \<le> tc_maxEntries opts"

lemma evictOldest_get: "map_get (evictOldest m) k = Some e \<Longrightarrow> map_get m k = Some e"
  by (cases m) (auto simp: evictOldest_def split: if_splits)

lemma evict_loop_get: "map_get (evict_loop n m) k = Some e \<Longrightarrow> map_get m k = Some e"
proof (induction n m rule: evict_loop.induct)
  case (1 n m)
  then show ?case by (subst (asm) (2) evict_loop.simps) (auto split: if_splits dest: evictOldest_get)
qed

lemma evict_loop_ok: "map_ok m \<Longrightarrow> map_ok (evict_loop n m)"
proof (induction n m rule: evict_loop.induct)
  case (1 n m)
  have "map_ok (evictOldest m)" using 1(2) by (cases m) (auto simp: evictOldest_def)
  then show ?case using 1 by (subst evict_loop.simps) auto
qed

lemma evict_loop_room: "1 \<le> n \<Longrightarrow> map_size (evict_loop n m) < n"
proof (induction n m rule: evict_loop.induct)
  case (1 n m)
  then show ?case by (subst evict_loop.simps) auto
qed

lemma cache_get_value:
  "fst (cache_get now k m) = Some v \<longleftrightarrow> (\<exists>e. map_get m k = Some e \<and> now < te_expiresAtMs e \<and> te_value e = v)"
  by (auto simp: cache_get_def split: option.splits)

lemma cache_get_entry: "map_get (snd (cache_get now k m)) k' = Some e \<Longrightarrow> map_get m k' = Some e"
  by (auto simp: cache_get_def split: option.splits if_splits)

lemma cache_set_entry:
  "map_get (cache_set opts now k v t m) k' = Some e \<Longrightarrow> (k' = k \<and> te_value e = v) \<or> (k' \<noteq> k \<and> map_get m k' = Some e)"
  by (auto simp: cache_set_def split: if_splits dest: evict_loop_get)

lemma cache_ok_get: "cache_ok opts m \<Longrightarrow> cache_ok opts (snd (cache_get now k m))"
  using jsm.size_refresh [of m k] jsm.size_del_le [of k m] by (auto simp: cache_ok_def cache_get_def split: option.splits)

lemma cache_ok_set: "cache_ok opts m \<Longrightarrow> cache_ok opts (cache_set opts now k v t m)"
  using evict_loop_room [of "tc_maxEntries opts" "map_delete k m"]
  by (auto simp: cache_ok_def cache_set_def evict_loop_ok intro!: jsm.size_put_bound)

lemma cache_ok_delete: "cache_ok opts m \<Longrightarrow> cache_ok opts (map_delete k m)"
  using jsm.size_del_le [of k m] by (auto simp: cache_ok_def)

section \<open>What its client relies on\<close>

text \<open>
  An entry is there because it was put there, and a lookup that misses leaves nothing behind. The
  client's reasoning is about what all entries have in common.
\<close>

locale expiring_cache =
  fixes entry :: "'c \<Rightarrow> 'k \<Rightarrow> 'v option" and look :: "int \<Rightarrow> 'k \<Rightarrow> 'c \<Rightarrow> 'v option \<times> 'c"
    and put :: "int \<Rightarrow> 'k \<Rightarrow> 'v \<Rightarrow> int option \<Rightarrow> 'c \<Rightarrow> 'c" and del :: "'k \<Rightarrow> 'c \<Rightarrow> 'c"
  assumes look_hit: "fst (look now k c) = Some v \<Longrightarrow> entry c k = Some v"
    and look_miss: "fst (look now k c) = None \<Longrightarrow> entry (snd (look now k c)) k = None"
    and look_keeps: "entry (snd (look now k c)) k' = Some v \<Longrightarrow> entry c k' = Some v"
    and put_entry: "entry (put now k v t c) k' = Some w \<Longrightarrow> k' = k \<and> w = v \<or> k' \<noteq> k \<and> entry c k' = Some w"
    and del_entry: "entry (del k c) k' = Some w \<Longrightarrow> k' \<noteq> k \<and> entry c k' = Some w"
begin

definition every :: "('k \<Rightarrow> 'v \<Rightarrow> bool) \<Rightarrow> 'c \<Rightarrow> bool" where
  "every P c \<longleftrightarrow> (\<forall>k v. entry c k = Some v \<longrightarrow> P k v)"

lemma every_look: "every P c \<Longrightarrow> every P (snd (look now k c))"
  by (auto simp: every_def dest: look_keeps)

lemma every_hit: "every P c \<Longrightarrow> fst (look now k c) = Some v \<Longrightarrow> P k v"
  by (auto simp: every_def dest: look_hit)

lemma every_put: "every P c \<Longrightarrow> P k v \<Longrightarrow> every P (put now k v t c)"
  by (auto simp: every_def dest: put_entry)

lemma every_del: "every P c \<Longrightarrow> every P (del k c)"
  by (auto simp: every_def dest: del_entry)

lemma every_mono: "every P c \<Longrightarrow> (\<And>k v. P k v \<Longrightarrow> Q k v) \<Longrightarrow> every Q c"
  by (auto simp: every_def)

lemma del_all_entry: "entry (fold del ks c) k = Some v \<Longrightarrow> k \<notin> set ks \<and> entry c k = Some v"
  by (induction ks arbitrary: c) (auto dest: del_entry)

text \<open>Looking up several keys in turn and keeping those that hit.\<close>

primrec live_keys :: "int \<Rightarrow> 'k list \<Rightarrow> 'c \<Rightarrow> 'k list \<times> 'c" where
  "live_keys now [] c = ([], c)"
| "live_keys now (k # ks) c =
     (let (v, c') = look now k c; (ks', c'') = live_keys now ks c' in (if v = None then ks' else k # ks', c''))"

lemma live_keys_keeps: "entry (snd (live_keys now ks c)) k = Some v \<Longrightarrow> entry c k = Some v"
  by (induction ks arbitrary: c) (auto simp: case_prod_beta Let_def dest: look_keeps)

lemma live_keys_complete:
  "k \<in> set ks \<Longrightarrow> entry (snd (live_keys now ks c)) k = Some v \<Longrightarrow> k \<in> set (fst (live_keys now ks c))"
proof (induction ks arbitrary: c)
  case (Cons x ks)
  let ?c = "snd (look now x c)"
  have "entry ?c k = Some v" using Cons.prems(2) live_keys_keeps [of now ks ?c k v] by (simp add: case_prod_beta Let_def)
  then show ?case
    using Cons look_miss [of now x c] by (cases "fst (look now x c)") (auto simp: case_prod_beta Let_def)
qed simp

end

definition cached :: "'v ttl_cache \<Rightarrow> string \<Rightarrow> 'v option" where
  "cached m k = map_option te_value (map_get m k)"

interpretation key_cache: expiring_cache cached cache_get "cache_set opts" map_delete for opts
proof
  fix now k k' and c :: "'a ttl_cache" and v w t
  show "fst (cache_get now k c) = Some v \<Longrightarrow> cached c k = Some v" by (auto simp: cache_get_value cached_def)
  show "fst (cache_get now k c) = None \<Longrightarrow> cached (snd (cache_get now k c)) k = None"
    by (auto simp: cache_get_def cached_def split: option.splits if_splits)
  show "cached (snd (cache_get now k c)) k' = Some v \<Longrightarrow> cached c k' = Some v"
    by (auto simp: cached_def dest: cache_get_entry)
  show "cached (cache_set opts now k v t c) k' = Some w \<Longrightarrow> k' = k \<and> w = v \<or> k' \<noteq> k \<and> cached c k' = Some w"
    by (auto simp: cached_def dest: cache_set_entry)
  show "cached (map_delete k c) k' = Some w \<Longrightarrow> k' \<noteq> k \<and> cached c k' = Some w"
    by (auto simp: cached_def split: if_splits)
qed

end
