(* ===== verification/Router_Key.thy ===== *)
theory Router_Key
  imports Js_Text "HOL-Library.Word"
begin

unbundle bit_operations_syntax

text \<open>
  Router keys: their format and generation (\<open>packages/core/src/ids.ts\<close>) and how a request presents one
  (\<open>dataplane/auth/presented.ts\<close>). The random bytes are an argument. Header values are Latin-1.
\<close>

section \<open>Format (\<open>ids.ts\<close>)\<close>

definition ROUTER_KEY_PREFIX :: string where "ROUTER_KEY_PREFIX = ''mar_live_''"
definition ROUTER_KEY_RANDOM_LENGTH :: nat where "ROUTER_KEY_RANDOM_LENGTH = 32"
definition ROUTER_KEY_DISPLAY_RANDOM_LENGTH :: nat where "ROUTER_KEY_DISPLAY_RANDOM_LENGTH = 8"

definition ROUTER_KEY_DISPLAY_PREFIX_LENGTH :: nat where
  "ROUTER_KEY_DISPLAY_PREFIX_LENGTH = length ROUTER_KEY_PREFIX + ROUTER_KEY_DISPLAY_RANDOM_LENGTH"

definition ROUTER_KEY_LENGTH :: nat where
  "ROUTER_KEY_LENGTH = length ROUTER_KEY_PREFIX + ROUTER_KEY_RANDOM_LENGTH"

definition ALPHABET :: string where
  "ALPHABET = ''ABCDEFGHIJKLMNOPQRSTUVWXYZabcdefghijklmnopqrstuvwxyz0123456789-_''"

definition ALPHABET_MASK :: "8 word" where "ALPHABET_MASK = 0x3F"

text \<open>The class \<open>[A-Za-z0-9_-]\<close>.\<close>

definition KEY_CLASS :: "char list" where
  "KEY_CLASS = map char_of ([65..<91] @ [97..<123] @ [48..<58] @ [95, 45::nat])"

definition ROUTER_KEY_PATTERN :: reg_exp where
  "ROUTER_KEY_PATTERN =
     \<lparr>rx_start = True, rx_body = RSeq (RLit ROUTER_KEY_PREFIX) (RTimes ROUTER_KEY_RANDOM_LENGTH (RClass False KEY_CLASS)),
      rx_end = True\<rparr>"

definition generateRouterKey :: "8 word list \<Rightarrow> string" where
  "generateRouterKey bytes = ROUTER_KEY_PREFIX @ map (\<lambda>b. ALPHABET ! unat (b AND ALPHABET_MASK)) bytes"

definition isRouterKey :: "string \<Rightarrow> bool" where
  "isRouterKey s = re_test ROUTER_KEY_PATTERN s"

definition routerKeyDisplayPrefix :: "string \<Rightarrow> string option" where
  "routerKeyDisplayPrefix s = (if \<not> isRouterKey s then None else Some (take ROUTER_KEY_DISPLAY_PREFIX_LENGTH s))"

section \<open>Presentation (\<open>presented.ts\<close>)\<close>

text \<open>\<open>/^Bearer\s+/i\<close>: what is left behind the longest match, if there is one.\<close>

definition after_bearer :: "string \<Rightarrow> string option" where
  "after_bearer s =
     (if map lower_char (take 6 s) = ''bearer'' \<and> drop 6 s \<noteq> [] \<and> is_space (hd (drop 6 s))
      then Some (dropWhile is_space (drop 6 s)) else None)"

definition bearerToken :: "string option \<Rightarrow> string option" where
  "bearerToken authorization =
     (case authorization of
        None \<Rightarrow> None
      | Some a \<Rightarrow>
          (case after_bearer a of
             None \<Rightarrow> None
           | Some rest \<Rightarrow> (let v = js_trim rest in if v = [] then None else Some v)))"

datatype key_refusal = NoKey | KeysDisagree

definition presentedRouterKey :: "string option \<Rightarrow> string option \<Rightarrow> key_refusal + string" where
  "presentedRouterKey authorization apiKey =
     (let bearer = bearerToken authorization;
          header = (case apiKey of None \<Rightarrow> None | Some k \<Rightarrow> if js_trim k = [] then None else Some (js_trim k))
      in if bearer \<noteq> None \<and> header \<noteq> None \<and> bearer \<noteq> header then Inl KeysDisagree
         else case (case bearer of Some b \<Rightarrow> Some b | None \<Rightarrow> header) of
                None \<Rightarrow> Inl NoKey
              | Some k \<Rightarrow> Inr k)"

datatype credential_style = AnthropicStyle | OpenaiStyle

definition credentialStyle :: "string option \<Rightarrow> credential_style" where
  "credentialStyle apiKey = (case apiKey of Some k \<Rightarrow> if js_trim k \<noteq> [] then AnthropicStyle else OpenaiStyle | None \<Rightarrow> OpenaiStyle)"

section \<open>Properties\<close>

lemma isRouterKey_iff:
  "isRouterKey s \<longleftrightarrow> (\<exists>r. s = ROUTER_KEY_PREFIX @ r \<and> length r = ROUTER_KEY_RANDOM_LENGTH \<and> set r \<subseteq> set KEY_CLASS)"
  by (auto simp: isRouterKey_def re_test_def regex_of_def ROUTER_KEY_PATTERN_def re_matches_lang lang_seq_iff in_lang_times_class)

lemma alphabet_length: "length ALPHABET = 64"
  by code_simp

lemma alphabet_distinct: "distinct ALPHABET"
  by code_simp

lemma alphabet_is_class: "set ALPHABET = set KEY_CLASS"
  by code_simp

lemma masked_byte: "unat (b AND ALPHABET_MASK) = unat b mod 64"
proof -
  have "b AND ALPHABET_MASK = take_bit 6 b" by (simp add: ALPHABET_MASK_def take_bit_eq_mask mask_eq_exp_minus_1)
  then show ?thesis by (simp add: take_bit_eq_mod unat_mod_distrib)
qed

lemma index_in_alphabet: "n < 64 \<Longrightarrow> ALPHABET ! n \<in> set KEY_CLASS"
  using alphabet_length alphabet_is_class by (metis nth_mem)

lemma alphabet_index:
  assumes "c \<in> set ALPHABET"
  shows "\<exists>n < 64. ALPHABET ! n = c"
  using assms alphabet_length by (metis in_set_conv_nth)

lemma bytes_of_symbol:
  assumes "n < 64"
  shows "card {b :: 8 word. ALPHABET ! unat (b AND ALPHABET_MASK) = ALPHABET ! n} = 4"
proof -
  let ?ns = "{n, n + 64, n + 128, n + 192}"
  have symbol: "ALPHABET ! unat (b AND ALPHABET_MASK) = ALPHABET ! n \<longleftrightarrow> unat b mod 64 = n" for b :: "8 word"
    using assms alphabet_distinct alphabet_length by (simp add: masked_byte nth_eq_iff_index_eq)
  have byte: "unat b mod 64 = n \<longleftrightarrow> b \<in> of_nat ` {n, n + 64, n + 128, n + 192}" for b :: "8 word"
  proof
    assume "unat b mod 64 = n"
    then have b: "unat b = 64 * (unat b div 64) + n" using div_mult_mod_eq [of "unat b" 64] by simp
    have "unat b < 256" using unsigned_less [of b] by simp
    then have "unat b div 64 < 4" by simp
    then have "unat b div 64 \<in> {0, 1, 2, 3}" by auto
    then have "unat b \<in> {n, n + 64, n + 128, n + 192}" using b by auto
    then show "b \<in> of_nat ` {n, n + 64, n + 128, n + 192}" by (rule image_eqI [rotated]) simp
  next
    assume "b \<in> of_nat ` {n, n + 64, n + 128, n + 192}"
    then obtain m where m: "b = of_nat m" "m \<in> {n, n + 64, n + 128, n + 192}" by blast
    then have "unat b = m" using assms unat_of_nat [of m, where 'a = 8] by auto
    then show "unat b mod 64 = n" using m(2) assms mod_mult_self2 [of n 64 2] mod_mult_self2 [of n 64 3] by auto
  qed
  have "{b :: 8 word. ALPHABET ! unat (b AND ALPHABET_MASK) = ALPHABET ! n} = of_nat ` ?ns"
    unfolding symbol byte by blast
  moreover have "card ((of_nat :: nat \<Rightarrow> 8 word) ` {n, n + 64, n + 128, n + 192}) = card {n, n + 64, n + 128, n + 192}"
    using assms by (intro card_image inj_onI) (auto simp: word_unat_eq_iff unat_of_nat)
  moreover have "card ?ns = 4" by simp
  ultimately show ?thesis by (simp only:)
qed

text \<open>
  (C38) Every minted key is a router key, and every one of the 64 symbols is equally likely at every
  position. Whatever 32 random bytes it is made from, the key has the format \<open>isRouterKey\<close> tests, its
  length is 41 and its display prefix is its first 17 characters; and exactly four of the 256 byte
  values give any one symbol of the class the pattern admits, so masking a byte introduces no bias.
\<close>

theorem minted_keys_well_formed:
  assumes "length bytes = ROUTER_KEY_RANDOM_LENGTH" and "c \<in> set KEY_CLASS"
  shows "isRouterKey (generateRouterKey bytes) \<and> length (generateRouterKey bytes) = ROUTER_KEY_LENGTH \<and>
    routerKeyDisplayPrefix (generateRouterKey bytes) = Some (take 17 (generateRouterKey bytes)) \<and>
    card {b :: 8 word. ALPHABET ! unat (b AND ALPHABET_MASK) = c} = 4"
proof -
  have "isRouterKey (generateRouterKey bytes)"
    using assms(1) by (auto simp: isRouterKey_iff generateRouterKey_def masked_byte intro!: index_in_alphabet)
  moreover obtain n where "n < 64" "ALPHABET ! n = c" using alphabet_index assms(2) alphabet_is_class by blast
  ultimately show ?thesis
    using assms(1) bytes_of_symbol [of n]
    by (simp add: generateRouterKey_def ROUTER_KEY_LENGTH_def routerKeyDisplayPrefix_def ROUTER_KEY_DISPLAY_PREFIX_LENGTH_def
        ROUTER_KEY_DISPLAY_RANDOM_LENGTH_def ROUTER_KEY_PREFIX_def)
qed

theorem minted_keys_well_formed_witness:
  "isRouterKey (generateRouterKey (replicate 32 0xFF)) \<and> generateRouterKey (replicate 32 0xFF) = ''mar_live_'' @ replicate 32 CHR ''_''"
proof -
  have "CHR ''_'' \<in> set KEY_CLASS" by code_simp
  moreover have "generateRouterKey (replicate 32 0xFF) = ''mar_live_'' @ replicate 32 CHR ''_''"
    by (simp add: generateRouterKey_def ROUTER_KEY_PREFIX_def masked_byte ALPHABET_def)
  ultimately show ?thesis
    using minted_keys_well_formed [of "replicate 32 0xFF" "CHR ''_''"] by (simp add: ROUTER_KEY_RANDOM_LENGTH_def)
qed

text \<open>A key is read the same from either header; two different keys are refused.\<close>

lemma presented_key_cases:
  assumes "isRouterKey k"
  shows "presentedRouterKey (Some (''Bearer '' @ k)) None = Inr k" "presentedRouterKey None (Some k) = Inr k"
    "presentedRouterKey (Some (''Bearer '' @ k)) (Some k) = Inr k"
    "isRouterKey k' \<Longrightarrow> k \<noteq> k' \<Longrightarrow> presentedRouterKey (Some (''Bearer '' @ k)) (Some k') = Inl KeysDisagree"
proof -
  have no_space: "\<not> is_space c" if "c \<in> set KEY_CLASS" for c
  proof -
    have "list_all (\<lambda>c. \<not> is_space c) KEY_CLASS" by code_simp
    then show ?thesis using that by (simp add: list_all_iff)
  qed
  have trim: "js_trim x = x" "x \<noteq> []" "\<not> is_space (hd x)" if x: "isRouterKey x" for x
  proof -
    obtain r where r: "x = ROUTER_KEY_PREFIX @ r" "length r = 32" "set r \<subseteq> set KEY_CLASS"
      using x by (auto simp: isRouterKey_iff ROUTER_KEY_RANDOM_LENGTH_def)
    then have "r \<noteq> []" by auto
    then have "last x \<in> set KEY_CLASS" using r last_in_set [of r] by auto
    then show "js_trim x = x" "x \<noteq> []" "\<not> is_space (hd x)"
      using no_space r by (auto simp: js_trim_nonspace ROUTER_KEY_PREFIX_def is_space_def WHITESPACE_def)
  qed
  have lower: "lower_char CHR ''B'' = CHR ''b''" "lower_char CHR ''e'' = CHR ''e''" "lower_char CHR ''a'' = CHR ''a''"
    "lower_char CHR ''r'' = CHR ''r''" by code_simp+
  have bearer: "bearerToken (Some (''Bearer '' @ k)) = Some k"
    using trim [OF assms] by (simp add: bearerToken_def after_bearer_def lower is_space_def [of "CHR '' ''"] WHITESPACE_def dropWhile_hd Let_def)
  show "presentedRouterKey (Some (''Bearer '' @ k)) None = Inr k" "presentedRouterKey None (Some k) = Inr k"
    "presentedRouterKey (Some (''Bearer '' @ k)) (Some k) = Inr k"
    "isRouterKey k' \<Longrightarrow> k \<noteq> k' \<Longrightarrow> presentedRouterKey (Some (''Bearer '' @ k)) (Some k') = Inl KeysDisagree"
    using trim assms bearer by (simp_all add: presentedRouterKey_def bearerToken_def [of None] Let_def del: append_Cons append.simps)
qed

end
