(* ===== verification/Key_Verifier.thy ===== *)
theory Key_Verifier
  imports Ttl_Cache Router_Key Routing_Types
begin

text \<open>
  Router key verification (\<open>dataplane/auth/verifier.ts\<close>): cached answers, coalesced loads, and the
  generation fence that makes a revocation immediate. A load is a coroutine with two suspension points,
  the row query and the scope query; its answers, and everything else that can happen in between, are
  events. The digest and the decryption of a stored key are arguments.
\<close>

section \<open>Stored scopes (\<open>auth/scope.ts\<close>)\<close>

datatype stored_scope = StoredAll | StoredPools | StoredAccounts

record key_scope_targets =
  kt_poolIds :: "pool_id list"
  kt_accountIds :: "account_id list"

definition NO_TARGETS :: key_scope_targets where
  "NO_TARGETS = \<lparr>kt_poolIds = [], kt_accountIds = []\<rparr>"

fun keyScopeSnapshot :: "stored_scope \<Rightarrow> key_scope_targets \<Rightarrow> key_scope" where
  "keyScopeSnapshot StoredPools targets = ScopePools (kt_poolIds targets)"
| "keyScopeSnapshot StoredAccounts targets = ScopeAccounts (kt_accountIds targets)"
| "keyScopeSnapshot StoredAll targets = ScopeAll"

section \<open>Data\<close>

record api_key_row =
  row_id :: string
  row_name :: string
  row_prefix :: string
  row_value :: string
  row_scope :: stored_scope
  row_rateLimitRequests :: "int option"
  row_rateLimitWindowSeconds :: "int option"
  row_expiresAt :: "instant option"

record verified_key =
  vk_id :: string
  vk_name :: string
  vk_prefix :: string
  vk_scope :: key_scope
  vk_rateLimitRequests :: "int option"
  vk_rateLimitWindowSeconds :: "int option"
  vk_expiresAt :: "instant option"

datatype cache_entry = GoodKey verified_key | UnknownKey

datatype verify_outcome = Verified verified_key | KeyRefused | VerificationBusy

text \<open>A load in flight; \<open>ld_row\<close> is set while the scope query is pending.\<close>

record key_load =
  ld_presented :: string
  ld_attempt :: nat
  ld_startedGeneration :: nat
  ld_row :: "api_key_row option"

record verifier_deps =
  vd_digest :: "string \<Rightarrow> string"
  vd_decrypt :: "string \<Rightarrow> string option"
  vd_cache :: ttl_cache_options
  vd_negativeTtlMs :: int

record key_verifier =
  kv_cache :: "cache_entry ttl_cache"
  kv_byKeyId :: "(string, string list) js_map"
  kv_inFlight :: "(string, key_load) js_map"
  kv_generation :: nat
  kv_onVerified :: "verified_key list"

text \<open>\<open>createScopeLoader\<close>, with what the target lookup answers, and the loader that has no targets.\<close>

definition createScopeLoader :: "(string \<Rightarrow> key_scope_targets) \<Rightarrow> api_key_row \<Rightarrow> key_scope" where
  "createScopeLoader loadTargets row =
     (if row_scope row = StoredAll then ScopeAll else keyScopeSnapshot (row_scope row) (loadTargets (row_id row)))"

definition repositoryScopeLoader :: "(string \<Rightarrow> pool_id list) \<Rightarrow> (string \<Rightarrow> account_id list) \<Rightarrow> api_key_row \<Rightarrow> key_scope" where
  "repositoryScopeLoader listPoolTargets listAccountTargets =
     createScopeLoader (\<lambda>keyId. \<lparr>kt_poolIds = listPoolTargets keyId, kt_accountIds = listAccountTargets keyId\<rparr>)"

definition unscopedLoader :: "api_key_row \<Rightarrow> key_scope" where
  "unscopedLoader row = keyScopeSnapshot (row_scope row) NO_TARGETS"

text \<open>No loader widens a limited scope to everything.\<close>

lemma loaders_never_widen:
  "createScopeLoader loadTargets row = ScopeAll \<longleftrightarrow> row_scope row = StoredAll"
  "unscopedLoader row = ScopeAll \<longleftrightarrow> row_scope row = StoredAll"
  by (cases "row_scope row"; simp add: createScopeLoader_def unscopedLoader_def)+

definition MAX_LOAD_ATTEMPTS :: nat where "MAX_LOAD_ATTEMPTS = 3"

definition createRouterKeyVerifier :: key_verifier where
  "createRouterKeyVerifier =
     \<lparr>kv_cache = [], kv_byKeyId = [], kv_inFlight = [], kv_generation = 0, kv_onVerified = []\<rparr>"

definition isExpired :: "verified_key \<Rightarrow> instant \<Rightarrow> bool" where
  "isExpired key at_ms = (case vk_expiresAt key of None \<Rightarrow> False | Some e \<Rightarrow> e \<le> at_ms)"

section \<open>Remembering an answer\<close>

primrec prune_digests :: "instant \<Rightarrow> string list \<Rightarrow> cache_entry ttl_cache \<Rightarrow> string list \<times> cache_entry ttl_cache" where
  "prune_digests now [] c = ([], c)"
| "prune_digests now (d # ds) c =
     (let (hit, c) = cache_get now d c; (ds', c) = prune_digests now ds c
      in (if hit = None then ds' else d # ds', c))"

primrec prune_index ::
  "instant \<Rightarrow> (string \<times> string list) list \<Rightarrow> cache_entry ttl_cache \<Rightarrow> (string, string list) js_map \<times> cache_entry ttl_cache" where
  "prune_index now [] c = ([], c)"
| "prune_index now (e # es) c =
     (let (ds, c) = prune_digests now (snd e) c; (es', c) = prune_index now es c
      in (if ds = [] then es' else (fst e, ds) # es', c))"

definition remember :: "verifier_deps \<Rightarrow> instant \<Rightarrow> string \<Rightarrow> cache_entry \<Rightarrow> key_verifier \<Rightarrow> key_verifier" where
  "remember deps now digest entry s =
     (let (index, cache) =
        (if map_size (kv_byKeyId s) \<ge> tc_maxEntries (vd_cache deps) then prune_index now (kv_byKeyId s) (kv_cache s)
         else (kv_byKeyId s, kv_cache s))
      in case entry of
           UnknownKey \<Rightarrow>
             s\<lparr>kv_byKeyId := index, kv_cache := cache_set (vd_cache deps) now digest entry (Some (vd_negativeTtlMs deps)) cache\<rparr>
         | GoodKey key \<Rightarrow>
             (let digests = (case map_get index (vk_id key) of None \<Rightarrow> [] | Some ds \<Rightarrow> ds)
              in s\<lparr>kv_byKeyId := map_set (vk_id key) (if digest \<in> set digests then digests else digests @ [digest]) index,
                   kv_cache := cache_set (vd_cache deps) now digest entry (Some (tc_ttlMs (vd_cache deps))) cache\<rparr>))"

text \<open>\<open>match\<close>; a row that cannot be decrypted is skipped.\<close>

definition match_row :: "verifier_deps \<Rightarrow> api_key_row list \<Rightarrow> string \<Rightarrow> api_key_row option" where
  "match_row deps rows presented = find (\<lambda>row. vd_decrypt deps (row_value row) = Some presented) rows"

section \<open>The load\<close>

definition end_load :: "string \<Rightarrow> key_verifier \<Rightarrow> key_verifier" where
  "end_load digest s = s\<lparr>kv_inFlight := map_delete digest (kv_inFlight s)\<rparr>"

text \<open>\<open>continue\<close>: the next turn of the loop, or its end.\<close>

definition retry_load :: "string \<Rightarrow> key_load \<Rightarrow> key_verifier \<Rightarrow> verify_outcome option \<times> key_verifier" where
  "retry_load digest ld s =
     (let attempt = ld_attempt ld + 1
      in if attempt < MAX_LOAD_ATTEMPTS
         then (None, s\<lparr>kv_inFlight := map_set digest
                 (ld\<lparr>ld_attempt := attempt, ld_startedGeneration := kv_generation s, ld_row := None\<rparr>) (kv_inFlight s)\<rparr>)
         else (Some VerificationBusy, end_load digest s))"

definition rows_arrive ::
  "verifier_deps \<Rightarrow> instant \<Rightarrow> string \<Rightarrow> api_key_row list \<Rightarrow> key_load \<Rightarrow> key_verifier \<Rightarrow> verify_outcome option \<times> key_verifier" where
  "rows_arrive deps now digest rows ld s =
     (if ld_startedGeneration ld \<noteq> kv_generation s then retry_load digest ld s
      else case match_row deps rows (ld_presented ld) of
             None \<Rightarrow> (Some KeyRefused, end_load digest (remember deps now digest UnknownKey s))
           | Some row \<Rightarrow> (None, s\<lparr>kv_inFlight := map_set digest (ld\<lparr>ld_row := Some row\<rparr>) (kv_inFlight s)\<rparr>))"

definition key_of_row :: "api_key_row \<Rightarrow> key_scope \<Rightarrow> verified_key" where
  "key_of_row row scope =
     \<lparr>vk_id = row_id row, vk_name = row_name row, vk_prefix = row_prefix row, vk_scope = scope,
      vk_rateLimitRequests = row_rateLimitRequests row, vk_rateLimitWindowSeconds = row_rateLimitWindowSeconds row,
      vk_expiresAt = row_expiresAt row\<rparr>"

definition scope_arrives ::
  "verifier_deps \<Rightarrow> instant \<Rightarrow> string \<Rightarrow> key_scope \<Rightarrow> api_key_row \<Rightarrow> key_load \<Rightarrow> key_verifier \<Rightarrow> verify_outcome option \<times> key_verifier" where
  "scope_arrives deps now digest scope row ld s =
     (let key = key_of_row row scope
      in if ld_startedGeneration ld \<noteq> kv_generation s then retry_load digest ld s
         else if isExpired key now then (Some KeyRefused, end_load digest s)
         else
           let s = remember deps now digest (GoodKey key) s
           in (Some (Verified key), end_load digest (s\<lparr>kv_onVerified := kv_onVerified s @ [key]\<rparr>)))"

section \<open>Operations\<close>

text \<open>\<open>verify\<close> up to its first suspension: an answer at once, or none yet.\<close>

definition verify :: "verifier_deps \<Rightarrow> string \<Rightarrow> instant \<Rightarrow> key_verifier \<Rightarrow> verify_outcome option \<times> key_verifier" where
  "verify deps presented now s =
     (if routerKeyDisplayPrefix presented = None then (Some KeyRefused, s)
      else
        let digest = vd_digest deps presented;
            (hit, cache) = cache_get now digest (kv_cache s);
            s = s\<lparr>kv_cache := cache\<rparr>
        in case hit of
             Some UnknownKey \<Rightarrow> (Some KeyRefused, s)
           | Some (GoodKey key) \<Rightarrow>
               if isExpired key now then (Some KeyRefused, s\<lparr>kv_cache := map_delete digest cache\<rparr>)
               else (Some (Verified key), s)
           | None \<Rightarrow>
               if map_get (kv_inFlight s) digest \<noteq> None then (None, s)
               else if map_size (kv_inFlight s) \<ge> tc_maxEntries (vd_cache deps) then (Some VerificationBusy, s)
               else (None, s\<lparr>kv_inFlight := map_set digest
                       \<lparr>ld_presented = presented, ld_attempt = 0, ld_startedGeneration = kv_generation s, ld_row = None\<rparr>
                       (kv_inFlight s)\<rparr>))"

definition invalidate :: "string \<Rightarrow> key_verifier \<Rightarrow> key_verifier" where
  "invalidate keyId s =
     (let digests = (case map_get (kv_byKeyId s) keyId of None \<Rightarrow> [] | Some ds \<Rightarrow> ds)
      in s\<lparr>kv_generation := kv_generation s + 1, kv_cache := fold map_delete digests (kv_cache s),
           kv_byKeyId := map_delete keyId (kv_byKeyId s)\<rparr>)"

definition invalidateAll :: "key_verifier \<Rightarrow> key_verifier" where
  "invalidateAll s = s\<lparr>kv_generation := kv_generation s + 1, kv_cache := [], kv_byKeyId := []\<rparr>"

section \<open>Events\<close>

datatype verifier_event =
    VerifyCall string instant
  | RowsArrive string "api_key_row list" instant
  | ScopeArrives string key_scope instant
  | LoadFails string
  | Invalidate string
  | InvalidateAll

text \<open>An answer given, with the key it was presented and the instant.\<close>

type_synonym verifier_answer = "string \<times> instant \<times> verify_outcome"

definition answer_list :: "string \<Rightarrow> instant \<Rightarrow> verify_outcome option \<times> key_verifier \<Rightarrow> verifier_answer list \<times> key_verifier" where
  "answer_list presented now r = (case fst r of None \<Rightarrow> [] | Some out \<Rightarrow> [(presented, now, out)], snd r)"

fun verifier_step :: "verifier_deps \<Rightarrow> verifier_event \<Rightarrow> key_verifier \<Rightarrow> verifier_answer list \<times> key_verifier" where
  "verifier_step deps (VerifyCall presented now) s = answer_list presented now (verify deps presented now s)"
| "verifier_step deps (RowsArrive digest rows now) s =
     (case map_get (kv_inFlight s) digest of
        Some ld \<Rightarrow> (case ld_row ld of None \<Rightarrow> answer_list (ld_presented ld) now (rows_arrive deps now digest rows ld s) | Some _ \<Rightarrow> ([], s))
      | None \<Rightarrow> ([], s))"
| "verifier_step deps (ScopeArrives digest scope now) s =
     (case map_get (kv_inFlight s) digest of
        Some ld \<Rightarrow> (case ld_row ld of Some row \<Rightarrow> answer_list (ld_presented ld) now (scope_arrives deps now digest scope row ld s) | None \<Rightarrow> ([], s))
      | None \<Rightarrow> ([], s))"
| "verifier_step deps (LoadFails digest) s = ([], end_load digest s)"
| "verifier_step deps (Invalidate keyId) s = ([], invalidate keyId s)"
| "verifier_step deps InvalidateAll s = ([], invalidateAll s)"

section \<open>The index covers the cache\<close>

fun indexed_entry :: "(string, string list) js_map \<Rightarrow> string \<Rightarrow> cache_entry \<Rightarrow> bool" where
  "indexed_entry index d (GoodKey key) \<longleftrightarrow> (\<exists>ds. map_get index (vk_id key) = Some ds \<and> d \<in> set ds)"
| "indexed_entry index d UnknownKey \<longleftrightarrow> True"

definition index_ok :: "key_verifier \<Rightarrow> bool" where
  "index_ok s \<longleftrightarrow> key_cache.every (indexed_entry (kv_byKeyId s)) (kv_cache s)"

lemma prune_digests_live: "prune_digests now ds c = key_cache.live_keys now ds c"
  by (induction ds arbitrary: c) (simp_all add: case_prod_beta Let_def)

lemma prune_index_keeps: "cached (snd (prune_index now es c)) d = Some v \<Longrightarrow> cached c d = Some v"
  by (induction es arbitrary: c)
     (auto simp: case_prod_beta Let_def prune_digests_live dest!: key_cache.live_keys_keeps)

lemma prune_index_complete:
  "map_get es i = Some ds \<Longrightarrow> d \<in> set ds \<Longrightarrow> cached (snd (prune_index now es c)) d = Some v \<Longrightarrow>
   \<exists>ds'. map_get (fst (prune_index now es c)) i = Some ds' \<and> d \<in> set ds'"
proof (induction es arbitrary: c)
  case (Cons e es)
  let ?c = "snd (prune_digests now (snd e) c)"
  have final: "cached (snd (prune_index now es ?c)) d = Some v"
    using Cons.prems(3) by (simp add: case_prod_beta Let_def)
  show ?case
  proof (cases "fst e = i")
    case True
    then have "d \<in> set (fst (prune_digests now (snd e) c))"
      using Cons.prems prune_index_keeps [OF final] key_cache.live_keys_complete [of d "snd e" now c]
      by (cases e) (auto simp: map_get_def prune_digests_live)
    then show ?thesis using True by (auto simp: case_prod_beta Let_def map_get_def)
  next
    case False
    then show ?thesis using Cons.IH [OF _ Cons.prems(2) final] Cons.prems(1)
      by (cases e) (auto simp: case_prod_beta Let_def map_get_def)
  qed
qed (simp add: map_get_def)

text \<open>\<open>remember\<close>: its cache and its index, the pruning apart.\<close>

lemma remember_every:
  assumes "key_cache.every P (kv_cache s)" "P d e"
  shows "key_cache.every P (kv_cache (remember deps now d e s))"
proof -
  have "key_cache.every P (snd (prune_index now (kv_byKeyId s) (kv_cache s)))"
    using assms(1) by (auto simp: key_cache.every_def dest: prune_index_keeps)
  then show ?thesis
    using assms by (cases e) (auto simp: remember_def Let_def case_prod_beta intro!: key_cache.every_put)
qed

lemma pruned_indexed:
  assumes "key_cache.every (indexed_entry es) c"
  shows "key_cache.every (indexed_entry (fst (prune_index now es c))) (snd (prune_index now es c))"
  unfolding key_cache.every_def
proof (intro allI impI)
  fix d v
  assume v: "cached (snd (prune_index now es c)) d = Some v"
  then have "indexed_entry es d v" using assms prune_index_keeps [OF v] by (simp add: key_cache.every_def)
  then show "indexed_entry (fst (prune_index now es c)) d v"
    using prune_index_complete [OF _ _ v] by (cases v) auto
qed

lemma indexed_added:
  fixes key :: verified_key
  assumes "key_cache.every (indexed_entry index) c"
  defines "ds \<equiv> (case map_get index (vk_id key) of None \<Rightarrow> [] | Some ds \<Rightarrow> ds)"
  shows "key_cache.every (indexed_entry (map_set (vk_id key) (if d \<in> set ds then ds else ds @ [d]) index))
    (cache_set opts now d (GoodKey key) t c)"
proof (rule key_cache.every_put)
  show "key_cache.every (indexed_entry (map_set (vk_id key) (if d \<in> set ds then ds else ds @ [d]) index)) c"
  proof (rule key_cache.every_mono [OF assms(1)])
    fix k v
    assume "indexed_entry index k v"
    then show "indexed_entry (map_set (vk_id key) (if d \<in> set ds then ds else ds @ [d]) index) k v"
      by (cases v) (auto simp: ds_def)
  qed
qed auto

lemma index_ok_remember:
  assumes "index_ok s"
  shows "index_ok (remember deps now d e s)"
proof -
  define ic where "ic = (if map_size (kv_byKeyId s) \<ge> tc_maxEntries (vd_cache deps)
    then prune_index now (kv_byKeyId s) (kv_cache s) else (kv_byKeyId s, kv_cache s))"
  have ic: "key_cache.every (indexed_entry (fst ic)) (snd ic)"
    using assms pruned_indexed [of "kv_byKeyId s" "kv_cache s" now] by (simp add: ic_def index_ok_def)
  show ?thesis
  proof (cases e)
    case (GoodKey key)
    then show ?thesis
      using indexed_added [OF ic] by (simp add: index_ok_def remember_def ic_def [symmetric] Let_def case_prod_beta)
  next
    case UnknownKey
    then show ?thesis
      using key_cache.every_put [OF ic] by (simp add: index_ok_def remember_def ic_def [symmetric] Let_def case_prod_beta)
  qed
qed

lemma index_ok_invalidate:
  assumes "index_ok s"
  shows "key_cache.every (\<lambda>d e. indexed_entry (kv_byKeyId (invalidate k s)) d e \<and> (\<forall>key. e = GoodKey key \<longrightarrow> vk_id key \<noteq> k))
    (kv_cache (invalidate k s))"
  unfolding key_cache.every_def
proof (intro allI impI)
  fix d v
  assume "cached (kv_cache (invalidate k s)) d = Some v"
  then have d: "d \<notin> set (case map_get (kv_byKeyId s) k of None \<Rightarrow> [] | Some ds \<Rightarrow> ds)" "cached (kv_cache s) d = Some v"
    using key_cache.del_all_entry by (fastforce simp: invalidate_def Let_def)+
  then have "indexed_entry (kv_byKeyId s) d v" using assms by (simp add: index_ok_def key_cache.every_def)
  then show "indexed_entry (kv_byKeyId (invalidate k s)) d v \<and> (\<forall>key. v = GoodKey key \<longrightarrow> vk_id key \<noteq> k)"
    using d(1) by (cases v) (auto simp: invalidate_def Let_def)
qed

text \<open>The states of a verifier that started empty.\<close>

definition generations_sound :: "key_verifier \<Rightarrow> bool" where
  "generations_sound s \<longleftrightarrow> (\<forall>d ld. map_get (kv_inFlight s) d = Some ld \<longrightarrow> ld_startedGeneration ld \<le> kv_generation s)"

definition verifier_ok :: "key_verifier \<Rightarrow> bool" where
  "verifier_ok s \<longleftrightarrow> index_ok s \<and> generations_sound s"

lemma remember_keeps [simp]:
  "kv_inFlight (remember deps now d e s) = kv_inFlight s" "kv_generation (remember deps now d e s) = kv_generation s"
  by (cases e; simp add: remember_def Let_def case_prod_beta)+

lemma index_ok_frame [simp]:
  "index_ok (s\<lparr>kv_inFlight := x\<rparr>) = index_ok s" "index_ok (s\<lparr>kv_onVerified := y\<rparr>) = index_ok s"
  "index_ok (end_load d s) = index_ok s"
  by (simp_all add: index_ok_def end_load_def)

lemma generations_ended [simp]: "generations_sound s \<Longrightarrow> generations_sound (end_load d s)"
  by (auto simp: generations_sound_def end_load_def split: if_splits)

lemma verifier_ok_retry: "verifier_ok s \<Longrightarrow> verifier_ok (snd (retry_load d ld s))"
  by (auto simp: verifier_ok_def retry_load_def generations_sound_def Let_def end_load_def split: if_splits)

lemma verifier_ok_remember: "verifier_ok s \<Longrightarrow> verifier_ok (remember deps now d e s)"
  by (simp add: verifier_ok_def index_ok_remember generations_sound_def)

lemma verifier_ok_rows:
  "verifier_ok s \<Longrightarrow> map_get (kv_inFlight s) d = Some ld \<Longrightarrow> verifier_ok (snd (rows_arrive deps now d rows ld s))"
  using verifier_ok_remember [of s deps now d UnknownKey]
  by (auto simp: rows_arrive_def verifier_ok_retry split: option.splits)
     (auto simp: verifier_ok_def generations_sound_def end_load_def split: if_splits)

lemma verifier_ok_scope: "verifier_ok s \<Longrightarrow> verifier_ok (snd (scope_arrives deps now d scope row ld s))"
  using verifier_ok_remember [of s deps now d "GoodKey (key_of_row row scope)"]
  by (auto simp: scope_arrives_def verifier_ok_retry Let_def)
     (auto simp: verifier_ok_def generations_sound_def end_load_def split: if_splits)

lemma index_ok_cache: "index_ok s \<Longrightarrow> index_ok (s\<lparr>kv_cache := snd (cache_get now d (kv_cache s))\<rparr>)"
  by (simp add: index_ok_def key_cache.every_look)

lemma verifier_ok_verify: "verifier_ok s \<Longrightarrow> verifier_ok (snd (verify deps p now s))"
  by (auto simp: verify_def verifier_ok_def generations_sound_def index_ok_def Let_def case_prod_beta
      intro!: key_cache.every_look key_cache.every_del split: option.splits cache_entry.splits if_splits)

lemma verifier_ok_step: "verifier_ok s \<Longrightarrow> verifier_ok (snd (verifier_step deps ev s))"
proof (cases ev)
  case (Invalidate k)
  assume "verifier_ok s"
  then have "index_ok (invalidate k s)" "generations_sound (invalidate k s)"
    using index_ok_invalidate [of s k] by (auto simp: verifier_ok_def index_ok_def generations_sound_def invalidate_def Let_def
        intro: key_cache.every_mono le_SucI)
  then show ?thesis using Invalidate by (simp add: verifier_ok_def)
qed (auto simp: answer_list_def verifier_ok_verify verifier_ok_rows verifier_ok_scope split: option.splits,
     auto simp: verifier_ok_def invalidateAll_def end_load_def index_ok_def key_cache.every_def cached_def generations_sound_def
     intro: le_SucI split: if_splits)

lemma verifier_ok_new: "verifier_ok createRouterKeyVerifier"
  by (simp add: verifier_ok_def index_ok_def createRouterKeyVerifier_def key_cache.every_def cached_def generations_sound_def)

section \<open>Runs\<close>

definition verifier_move :: "verifier_deps \<Rightarrow> verifier_event \<Rightarrow> verifier_answer list \<times> key_verifier \<Rightarrow> verifier_answer list \<times> key_verifier" where
  "verifier_move deps ev x = (let (new, s) = verifier_step deps ev (snd x) in (fst x @ new, s))"

definition verifier_run :: "verifier_deps \<Rightarrow> verifier_event list \<Rightarrow> verifier_answer list \<times> key_verifier" where
  "verifier_run deps evs = fold (verifier_move deps) evs ([], createRouterKeyVerifier)"

interpretation verifier: invariant_machine "([], createRouterKeyVerifier)" "verifier_move deps" "\<lambda>x. verifier_ok (snd x)" for deps
  by unfold_locales (simp_all add: verifier_ok_new verifier_move_def case_prod_beta Let_def verifier_ok_step)

section \<open>Revocation\<close>

text \<open>
  What can follow a revocation. The row is marked in the database before \<open>invalidate\<close> is called, so a
  query issued after it (its load carries a later generation) no longer returns the row; a query that
  was under way may still answer with it, at any time.
\<close>

definition query_is_fresh :: "string \<Rightarrow> nat \<Rightarrow> key_verifier \<Rightarrow> verifier_event \<Rightarrow> bool" where
  "query_is_fresh k g s ev =
     (case ev of
        RowsArrive d rows now \<Rightarrow>
          (case map_get (kv_inFlight s) d of
             None \<Rightarrow> True
           | Some ld \<Rightarrow> ld_startedGeneration ld < g \<or> list_all (\<lambda>row. row_id row \<noteq> k) rows)
      | _ \<Rightarrow> True)"

inductive after_revocation :: "verifier_deps \<Rightarrow> string \<Rightarrow> nat \<Rightarrow> key_verifier \<Rightarrow> verifier_answer list \<Rightarrow> bool"
  for deps k where
  revoked: "s = snd (verifier_run deps evs) \<Longrightarrow>
    after_revocation deps k (kv_generation s + 1) (invalidate k s) []"
| later: "after_revocation deps k g s outs \<Longrightarrow> query_is_fresh k g s ev \<Longrightarrow> verifier_step deps ev s = (new, s') \<Longrightarrow>
    after_revocation deps k g s' (outs @ new)"

definition not_key :: "string \<Rightarrow> string \<Rightarrow> cache_entry \<Rightarrow> bool" where
  "not_key k d e \<longleftrightarrow> (case e of GoodKey key \<Rightarrow> vk_id key \<noteq> k | UnknownKey \<Rightarrow> True)"

definition purged :: "string \<Rightarrow> nat \<Rightarrow> key_verifier \<Rightarrow> bool" where
  "purged k g s \<longleftrightarrow>
     g \<le> kv_generation s \<and> key_cache.every (not_key k) (kv_cache s) \<and>
     (\<forall>d ld row. map_get (kv_inFlight s) d = Some ld \<longrightarrow> ld_row ld = Some row \<longrightarrow> g \<le> ld_startedGeneration ld \<longrightarrow> row_id row \<noteq> k)"

definition names_key :: "string \<Rightarrow> verify_outcome option \<Rightarrow> bool" where
  "names_key k out \<longleftrightarrow> (case out of Some (Verified key) \<Rightarrow> vk_id key = k | _ \<Rightarrow> False)"

lemma purged_ended: "purged k g s \<Longrightarrow> purged k g (end_load d s)"
  by (auto simp: purged_def end_load_def split: if_splits)

lemma purged_retry: "purged k g s \<Longrightarrow> purged k g (snd (retry_load d ld s)) \<and> \<not> names_key k (fst (retry_load d ld s))"
  using purged_ended [of k g s d]
  by (auto simp: retry_load_def Let_def names_key_def) (auto simp: purged_def split: if_splits)

lemma purged_remember: "purged k g s \<Longrightarrow> not_key k d e \<Longrightarrow> purged k g (remember deps now d e s)"
  by (simp add: purged_def remember_every)

lemma purged_rows:
  assumes "purged k g s" "ld_startedGeneration ld < g \<or> list_all (\<lambda>row. row_id row \<noteq> k) rows"
  shows "purged k g (snd (rows_arrive deps now d rows ld s)) \<and> \<not> names_key k (fst (rows_arrive deps now d rows ld s))"
proof (cases "ld_startedGeneration ld = kv_generation s")
  case False
  then show ?thesis using purged_retry [OF assms(1)] by (simp add: rows_arrive_def)
next
  case True
  then have rows: "list_all (\<lambda>row. row_id row \<noteq> k) rows" using assms by (auto simp: purged_def)
  show ?thesis
  proof (cases "match_row deps rows (ld_presented ld)")
    case None
    then show ?thesis
      using True purged_ended [OF purged_remember [OF assms(1)]] by (simp add: rows_arrive_def not_key_def names_key_def)
  next
    case (Some row)
    then have "row_id row \<noteq> k" using rows by (auto simp: match_row_def list_all_iff dest: find_SomeD)
    then show ?thesis
      using True Some assms(1) by (auto simp: rows_arrive_def purged_def names_key_def split: if_splits)
  qed
qed

lemma purged_scope:
  assumes "purged k g s" "map_get (kv_inFlight s) d = Some ld" "ld_row ld = Some row"
  shows "purged k g (snd (scope_arrives deps now d scope row ld s)) \<and> \<not> names_key k (fst (scope_arrives deps now d scope row ld s))"
proof (cases "ld_startedGeneration ld = kv_generation s")
  case False
  then show ?thesis using purged_retry [OF assms(1)] by (simp add: scope_arrives_def Let_def)
next
  case True
  then have row: "row_id row \<noteq> k" using assms by (auto simp: purged_def)
  have "purged k g (remember deps now d (GoodKey (key_of_row row scope)) s)"
    using row by (intro purged_remember [OF assms(1)]) (simp add: not_key_def key_of_row_def)
  then have "purged k g (end_load d ((remember deps now d (GoodKey (key_of_row row scope)) s)\<lparr>kv_onVerified := x\<rparr>))" for x
    by (intro purged_ended) (simp add: purged_def)
  then show ?thesis
    using True row purged_ended [OF assms(1)] by (simp add: scope_arrives_def Let_def names_key_def key_of_row_def)
qed

lemma purged_verify:
  assumes "purged k g s"
  shows "purged k g (snd (verify deps p now s)) \<and> \<not> names_key k (fst (verify deps p now s))"
proof -
  let ?d = "vd_digest deps p"
  have "not_key k ?d v" if "fst (cache_get now ?d (kv_cache s)) = Some v" for v
    using assms that by (auto simp: purged_def intro: key_cache.every_hit)
  then show ?thesis
    using assms
    by (auto simp: verify_def purged_def names_key_def not_key_def Let_def case_prod_beta
        intro!: key_cache.every_look key_cache.every_del split: option.splits cache_entry.splits if_splits)
qed

lemma purged_answer:
  assumes "purged k g (snd r) \<and> \<not> names_key k (fst r)"
  shows "purged k g (snd (answer_list p now r)) \<and>
    (\<forall>p' now' key. (p', now', Verified key) \<in> set (fst (answer_list p now r)) \<longrightarrow> vk_id key \<noteq> k)"
  using assms by (auto simp: answer_list_def names_key_def split: option.splits)

lemma purged_step:
  assumes "purged k g s" "query_is_fresh k g s ev"
  shows "purged k g (snd (verifier_step deps ev s)) \<and>
    (\<forall>p now key. (p, now, Verified key) \<in> set (fst (verifier_step deps ev s)) \<longrightarrow> vk_id key \<noteq> k)"
proof (cases ev)
  case (VerifyCall p now)
  then show ?thesis using purged_answer [OF purged_verify [OF assms(1)]] by simp
next
  case (RowsArrive d rows now)
  have "purged k g (snd (rows_arrive deps now d rows ld s)) \<and> \<not> names_key k (fst (rows_arrive deps now d rows ld s))"
    if "map_get (kv_inFlight s) d = Some ld" for ld
    using that assms(2) by (intro purged_rows [OF assms(1)]) (simp add: RowsArrive query_is_fresh_def)
  note answered = purged_answer [OF this]
  show ?thesis using assms(1) answered by (simp add: RowsArrive split: option.split)
next
  case (ScopeArrives d scope now)
  then show ?thesis
    using assms(1) purged_answer [OF purged_scope [OF assms(1)]] by (simp split: option.split)
next
  case (Invalidate k')
  have "key_cache.every (not_key k) (fold map_delete ds (kv_cache s))" for ds
    using assms(1) key_cache.del_all_entry by (fastforce simp: purged_def key_cache.every_def)
  then show ?thesis using assms(1) Invalidate by (auto simp: purged_def invalidate_def Let_def)
next
  case InvalidateAll
  then show ?thesis using assms(1) by (auto simp: purged_def invalidateAll_def key_cache.every_def cached_def)
qed (simp add: purged_ended assms(1))

lemma purged_revoked:
  assumes "verifier_ok s"
  shows "purged k (kv_generation s + 1) (invalidate k s)"
proof -
  have "key_cache.every (not_key k) (kv_cache (invalidate k s))"
    using assms index_ok_invalidate [of s k]
    by (auto simp: verifier_ok_def not_key_def intro: key_cache.every_mono split: cache_entry.splits)
  moreover have "kv_inFlight (invalidate k s) = kv_inFlight s" "kv_generation (invalidate k s) = kv_generation s + 1"
    by (simp_all add: invalidate_def Let_def)
  ultimately show ?thesis
    using assms by (force simp: purged_def verifier_ok_def generations_sound_def)
qed

text \<open>
  (C10) A revocation is immediate. Once \<open>invalidate\<close> has run for a key, no verification is answered with
  that key and no cache entry holds it, under every later interleaving of calls, loads and further
  invalidations: calls that join a load begun before the revocation, loads whose row query or scope
  query was under way and still answers with the revoked row, and pruning included. All it needs of the
  database is that a query issued after the revocation does not return the row.
\<close>

theorem revoked_key_never_served:
  assumes "after_revocation deps k g s outs"
  shows "((p, now, Verified key) \<in> set outs \<longrightarrow> vk_id key \<noteq> k) \<and> (cached (kv_cache s) d = Some (GoodKey key) \<longrightarrow> vk_id key \<noteq> k)"
proof -
  have "purged k g s \<and> (\<forall>p now key. (p, now, Verified key) \<in> set outs \<longrightarrow> vk_id key \<noteq> k)"
    using assms
  proof (induction rule: after_revocation.induct)
    case (revoked s evs)
    then have "verifier_ok s" using verifier.run_inv [of deps evs] by (simp add: verifier_run_def)
    then show ?case using purged_revoked by simp
  next
    case (later g s outs ev new s')
    then show ?case using purged_step [of k g s ev deps] by auto
  qed
  then show ?thesis
    by (auto simp: purged_def key_cache.every_def not_key_def split: cache_entry.splits)
qed

definition sample_deps :: verifier_deps where
  "sample_deps =
     \<lparr>vd_digest = (\<lambda>p. p), vd_decrypt = Some, vd_cache = \<lparr>tc_maxEntries = 4, tc_ttlMs = 60000\<rparr>, vd_negativeTtlMs = 5000\<rparr>"

definition minted :: string where
  "minted = ''mar_live_'' @ replicate 32 CHR ''A''"

definition sample_row :: api_key_row where
  "sample_row =
     \<lparr>row_id = ''k'', row_name = ''ci'', row_prefix = take 17 minted, row_value = minted, row_scope = StoredAll, row_rateLimitRequests = None,
      row_rateLimitWindowSeconds = None, row_expiresAt = Some 100000\<rparr>"

lemma query_without_key: "query_is_fresh k g s (RowsArrive d [] now)"
  by (simp add: query_is_fresh_def split: option.split)

text \<open>A load is under way when its key is revoked; the stale row still arrives.\<close>

theorem revoked_key_never_served_witness:
  "let s0 = snd (verifier_run sample_deps [VerifyCall minted 0]);
       stale = verifier_step sample_deps (RowsArrive minted [sample_row] 1) (invalidate ''k'' s0);
       fresh = verifier_step sample_deps (RowsArrive minted [] 2) (snd stale)
   in fst fresh = [(minted, 2, KeyRefused)] \<and> cached (kv_cache (snd fresh)) minted \<noteq> Some (GoodKey (key_of_row sample_row ScopeAll))"
proof -
  let ?s0 = "snd (verifier_run sample_deps [VerifyCall minted 0])"
  let ?stale = "verifier_step sample_deps (RowsArrive minted [sample_row] 1) (invalidate ''k'' ?s0)"
  let ?fresh = "verifier_step sample_deps (RowsArrive minted [] 2) (snd ?stale)"
  have eval: "query_is_fresh ''k'' 1 (invalidate ''k'' ?s0) (RowsArrive minted [sample_row] 1)" "kv_generation ?s0 = 0"
    "fst ?fresh = [(minted, 2, KeyRefused)]" by code_simp+
  have "after_revocation sample_deps ''k'' (kv_generation ?s0 + 1) (invalidate ''k'' ?s0) []"
    by (rule revoked) (rule refl)
  then have "after_revocation sample_deps ''k'' 1 (snd ?stale) ([] @ fst ?stale)"
    using eval(2) by (intro later [OF _ eval(1) prod.collapse [symmetric]]) simp
  then have "after_revocation sample_deps ''k'' 1 (snd ?fresh) (([] @ fst ?stale) @ fst ?fresh)"
    by (rule later [OF _ query_without_key prod.collapse [symmetric]])
  then have "cached (kv_cache (snd ?fresh)) minted = Some (GoodKey (key_of_row sample_row ScopeAll)) \<longrightarrow>
      vk_id (key_of_row sample_row ScopeAll) \<noteq> ''k''"
    by (rule revoked_key_never_served [THEN conjunct2])
  moreover have "vk_id (key_of_row sample_row ScopeAll) = ''k''" by (simp add: key_of_row_def sample_row_def)
  ultimately show ?thesis using eval(3) by (simp add: Let_def)
qed

section \<open>Provenance\<close>

text \<open>Everything cached or about to be answered comes from a row that decrypted to the key presented.\<close>

definition sourced :: "verifier_deps \<Rightarrow> api_key_row set \<Rightarrow> string \<Rightarrow> cache_entry \<Rightarrow> bool" where
  "sourced deps rows d e \<longleftrightarrow>
     (\<forall>key. e = GoodKey key \<longrightarrow>
       (\<exists>row scope p. row \<in> rows \<and> key = key_of_row row scope \<and> vd_digest deps p = d \<and> vd_decrypt deps (row_value row) = Some p))"

definition load_sourced :: "verifier_deps \<Rightarrow> api_key_row set \<Rightarrow> string \<Rightarrow> key_load \<Rightarrow> bool" where
  "load_sourced deps rows d ld \<longleftrightarrow>
     vd_digest deps (ld_presented ld) = d \<and>
     (\<forall>row. ld_row ld = Some row \<longrightarrow> row \<in> rows \<and> vd_decrypt deps (row_value row) = Some (ld_presented ld))"

definition provenance :: "verifier_deps \<Rightarrow> api_key_row set \<Rightarrow> key_verifier \<Rightarrow> bool" where
  "provenance deps rows s \<longleftrightarrow>
     key_cache.every (sourced deps rows) (kv_cache s) \<and>
     (\<forall>d ld. map_get (kv_inFlight s) d = Some ld \<longrightarrow> load_sourced deps rows d ld)"

definition good_outcome :: "verifier_deps \<Rightarrow> api_key_row set \<Rightarrow> string \<Rightarrow> instant \<Rightarrow> verify_outcome option \<Rightarrow> bool" where
  "good_outcome deps rows p now out \<longleftrightarrow>
     (\<forall>key. out = Some (Verified key) \<longrightarrow> \<not> isExpired key now \<and>
       (\<exists>row scope p'. row \<in> rows \<and> key = key_of_row row scope \<and> vd_digest deps p' = vd_digest deps p \<and>
          vd_decrypt deps (row_value row) = Some p'))"

lemma provenance_ended: "provenance deps rows s \<Longrightarrow> provenance deps rows (end_load d s)"
  by (auto simp: provenance_def end_load_def split: if_splits)

lemma provenance_retry:
  assumes "provenance deps rows s" "map_get (kv_inFlight s) d = Some ld"
  shows "provenance deps rows (snd (retry_load d ld s)) \<and> good_outcome deps rows p now (fst (retry_load d ld s))"
  using assms provenance_ended [OF assms(1), of d]
  by (auto simp: retry_load_def Let_def good_outcome_def) (auto simp: provenance_def load_sourced_def split: if_splits)

lemma provenance_remember: "provenance deps rows s \<Longrightarrow> sourced deps rows d e \<Longrightarrow> provenance deps rows (remember deps now d e s)"
  by (simp add: provenance_def remember_every)

lemma provenance_rows:
  assumes "provenance deps rows s" "map_get (kv_inFlight s) d = Some ld" "set new \<subseteq> rows"
  shows "provenance deps rows (snd (rows_arrive deps now d new ld s)) \<and>
    good_outcome deps rows p now' (fst (rows_arrive deps now d new ld s))"
proof (cases "ld_startedGeneration ld = kv_generation s")
  case False
  then show ?thesis using provenance_retry [OF assms(1,2)] by (simp add: rows_arrive_def)
next
  case True
  show ?thesis
  proof (cases "match_row deps new (ld_presented ld)")
    case None
    then show ?thesis
      using True provenance_ended [OF provenance_remember [OF assms(1)]]
      by (simp add: rows_arrive_def sourced_def good_outcome_def)
  next
    case (Some row)
    then have "row \<in> rows" "vd_decrypt deps (row_value row) = Some (ld_presented ld)"
      using assms(3) by (auto simp: match_row_def dest: find_SomeD)
    then show ?thesis
      using True Some assms(1,2)
      by (auto simp: rows_arrive_def provenance_def load_sourced_def good_outcome_def split: if_splits)
  qed
qed

lemma provenance_scope:
  assumes "provenance deps rows s" "map_get (kv_inFlight s) d = Some ld" "ld_row ld = Some row"
  shows "provenance deps rows (snd (scope_arrives deps now d scope row ld s)) \<and>
    good_outcome deps rows (ld_presented ld) now (fst (scope_arrives deps now d scope row ld s))"
proof (cases "ld_startedGeneration ld = kv_generation s")
  case False
  then show ?thesis using provenance_retry [OF assms(1,2)] by (simp add: scope_arrives_def Let_def)
next
  case True
  have ld: "vd_digest deps (ld_presented ld) = d" "row \<in> rows" "vd_decrypt deps (row_value row) = Some (ld_presented ld)"
    using assms by (auto simp: provenance_def load_sourced_def)
  then have "provenance deps rows (remember deps now d (GoodKey (key_of_row row scope)) s)"
    by (intro provenance_remember [OF assms(1)]) (auto simp: sourced_def)
  then have "provenance deps rows (end_load d ((remember deps now d (GoodKey (key_of_row row scope)) s)\<lparr>kv_onVerified := x\<rparr>))" for x
    by (intro provenance_ended) (simp add: provenance_def)
  then show ?thesis
    using True ld provenance_ended [OF assms(1)] by (auto simp: scope_arrives_def Let_def good_outcome_def)
qed

lemma provenance_verify:
  assumes "provenance deps rows s"
  shows "provenance deps rows (snd (verify deps p now s)) \<and> good_outcome deps rows p now (fst (verify deps p now s))"
proof -
  let ?d = "vd_digest deps p"
  have "sourced deps rows ?d v" if "fst (cache_get now ?d (kv_cache s)) = Some v" for v
    using assms that by (auto simp: provenance_def intro: key_cache.every_hit)
  then show ?thesis
    using assms
    by (auto simp: verify_def provenance_def good_outcome_def sourced_def load_sourced_def Let_def case_prod_beta
        intro!: key_cache.every_look key_cache.every_del split: option.splits cache_entry.splits if_splits)
qed

definition good_answer :: "verifier_deps \<Rightarrow> api_key_row set \<Rightarrow> verifier_answer \<Rightarrow> bool" where
  "good_answer deps rows a = (case a of (p, now, out) \<Rightarrow> good_outcome deps rows p now (Some out))"

fun event_rows :: "verifier_event \<Rightarrow> api_key_row list" where
  "event_rows (RowsArrive d rows now) = rows"
| "event_rows _ = []"

lemma provenance_answer:
  assumes "provenance deps rows (snd r) \<and> good_outcome deps rows p now (fst r)"
  shows "provenance deps rows (snd (answer_list p now r)) \<and> list_all (good_answer deps rows) (fst (answer_list p now r))"
  using assms by (auto simp: answer_list_def good_answer_def split: option.splits)

lemma provenance_step:
  assumes "provenance deps rows s" "set (event_rows ev) \<subseteq> rows"
  shows "provenance deps rows (snd (verifier_step deps ev s)) \<and> list_all (good_answer deps rows) (fst (verifier_step deps ev s))"
proof (cases ev)
  case (VerifyCall p now)
  then show ?thesis using provenance_answer [OF provenance_verify [OF assms(1)]] by simp
next
  case (RowsArrive d new now)
  then show ?thesis
    using assms provenance_answer [OF provenance_rows [OF assms(1), of d _ new]] by (simp split: option.split)
next
  case (ScopeArrives d scope now)
  then show ?thesis
    using assms(1) provenance_answer [OF provenance_scope [OF assms(1), of d]] by (simp split: option.split)
next
  case (Invalidate k)
  have "key_cache.every (sourced deps rows) (fold map_delete ds (kv_cache s))" for ds
    using assms(1) key_cache.del_all_entry by (fastforce simp: provenance_def key_cache.every_def)
  then show ?thesis using assms(1) Invalidate by (auto simp: provenance_def invalidate_def Let_def)
next
  case InvalidateAll
  then show ?thesis using assms(1) by (auto simp: provenance_def invalidateAll_def key_cache.every_def cached_def)
qed (simp add: provenance_ended assms(1))

interpretation key_provenance: kept_machine "verifier_move deps" "\<lambda>ev. set (event_rows ev) \<subseteq> rows"
  "\<lambda>x. provenance deps rows (snd x) \<and> list_all (good_answer deps rows) (fst x)" for deps rows
  using provenance_step by unfold_locales (auto simp: verifier_move_def case_prod_beta Let_def)

text \<open>
  (C11) Verification only ever says yes to the right key. Every key a call or a load is answered with, from
  the cache or from the database, comes from a row some query delivered whose decrypted value is exactly
  the key that was presented, carries that row's fields, and has not expired at the instant of the
  answer. The digest the cache is keyed with is assumed collision-free.
\<close>

theorem verified_key_is_live_and_presented:
  assumes "inj (vd_digest deps)" and "(p, now, Verified key) \<in> set (fst (verifier_run deps evs))"
  shows "\<not> isExpired key now \<and>
    (\<exists>row scope. row \<in> set (concat (map event_rows evs)) \<and> key = key_of_row row scope \<and> vd_decrypt deps (row_value row) = Some p)"
proof -
  let ?rows = "set (concat (map event_rows evs))"
  have "provenance deps ?rows (snd ([], createRouterKeyVerifier))"
    by (simp add: provenance_def createRouterKeyVerifier_def key_cache.every_def cached_def)
  then have "list_all (good_answer deps ?rows) (fst (verifier_run deps evs))"
    using key_provenance.run_kept [of ?rows evs deps "([], createRouterKeyVerifier)"]
    by (auto simp: verifier_run_def list_all_iff)
  then have "good_answer deps ?rows (p, now, Verified key)" using assms(2) by (simp add: list_all_iff)
  then show ?thesis using injD [OF assms(1)] by (fastforce simp: good_answer_def good_outcome_def)
qed

theorem verified_key_is_live_and_presented_witness:
  "let evs = [VerifyCall minted 0, RowsArrive minted [sample_row] 1, ScopeArrives minted ScopeAll 2, VerifyCall minted 30000]
   in fst (verifier_run sample_deps evs) =
        [(minted, 2, Verified (key_of_row sample_row ScopeAll)), (minted, 30000, Verified (key_of_row sample_row ScopeAll))] \<and>
      \<not> isExpired (key_of_row sample_row ScopeAll) 30000"
proof -
  let ?evs = "[VerifyCall minted 0, RowsArrive minted [sample_row] 1, ScopeArrives minted ScopeAll 2, VerifyCall minted 30000]"
  have run: "fst (verifier_run sample_deps ?evs) =
      [(minted, 2, Verified (key_of_row sample_row ScopeAll)), (minted, 30000, Verified (key_of_row sample_row ScopeAll))]"
    by code_simp
  have "inj (vd_digest sample_deps)" by (simp add: sample_deps_def inj_def)
  then have "\<not> isExpired (key_of_row sample_row ScopeAll) 30000"
    by (rule verified_key_is_live_and_presented [where evs = ?evs and p = minted, THEN conjunct1]) (simp add: run)
  then show ?thesis using run by (simp add: Let_def)
qed

section \<open>Memory\<close>

definition verifier_bounded :: "verifier_deps \<Rightarrow> key_verifier \<Rightarrow> bool" where
  "verifier_bounded deps s \<longleftrightarrow>
     cache_ok (vd_cache deps) (kv_cache s) \<and> map_ok (kv_inFlight s) \<and>
     map_size (kv_inFlight s) \<le> tc_maxEntries (vd_cache deps) \<and>
     (\<forall>d ld. map_get (kv_inFlight s) d = Some ld \<longrightarrow> ld_attempt ld < MAX_LOAD_ATTEMPTS)"

lemma cache_ok_prune:
  "cache_ok opts c \<Longrightarrow> cache_ok opts (snd (prune_digests now ds c))"
  "cache_ok opts c \<Longrightarrow> cache_ok opts (snd (prune_index now es c))"
proof -
  show digests: "cache_ok opts (snd (prune_digests now ds c))" if "cache_ok opts c" for ds c
    using that by (induction ds arbitrary: c) (simp_all add: case_prod_beta Let_def cache_ok_get)
  show "cache_ok opts c \<Longrightarrow> cache_ok opts (snd (prune_index now es c))"
    by (induction es arbitrary: c) (simp_all add: case_prod_beta Let_def digests)
qed

lemma bounded_remember: "verifier_bounded deps s \<Longrightarrow> verifier_bounded deps (remember deps now d e s)"
  by (cases e) (auto simp: verifier_bounded_def remember_def Let_def case_prod_beta intro!: cache_ok_set cache_ok_prune)

lemma bounded_ended: "verifier_bounded deps s \<Longrightarrow> verifier_bounded deps (end_load d s)"
  using jsm.size_del_le [of d "kv_inFlight s"] by (auto simp: verifier_bounded_def end_load_def split: if_splits)

lemma bounded_replaced:
  assumes "verifier_bounded deps s" "map_get (kv_inFlight s) d = Some ld" "ld_attempt ld' < MAX_LOAD_ATTEMPTS"
  shows "verifier_bounded deps (s\<lparr>kv_inFlight := map_set d ld' (kv_inFlight s)\<rparr>)"
  using assms jsm.size_put_present [of "kv_inFlight s" _ d ld'] by (auto simp: verifier_bounded_def split: if_splits)

lemma bounded_step:
  assumes "verifier_bounded deps s"
  shows "verifier_bounded deps (snd (verifier_step deps ev s))"
proof (cases ev)
  case (VerifyCall p now)
  have "verifier_bounded deps (s\<lparr>kv_cache := c\<rparr>)" if "cache_ok (vd_cache deps) c" for c
    using assms that by (simp add: verifier_bounded_def)
  moreover have "map_size (map_set d v m) \<le> n" if "\<not> n \<le> map_size m" for d v n and m :: "(string, key_load) js_map"
    using that by (intro jsm.size_put_bound) simp
  ultimately show ?thesis
    using assms VerifyCall
    by (auto simp: verify_def answer_list_def verifier_bounded_def MAX_LOAD_ATTEMPTS_def Let_def case_prod_beta
        intro!: cache_ok_get cache_ok_delete split: option.splits cache_entry.splits if_splits)
next
  case (RowsArrive d rows now)
  have "verifier_bounded deps (snd (rows_arrive deps now d rows ld s))" if "map_get (kv_inFlight s) d = Some ld" for ld
    using assms that bounded_replaced [OF assms that] bounded_ended [OF assms] bounded_ended [OF bounded_remember [OF assms]]
    by (auto simp: rows_arrive_def retry_load_def Let_def verifier_bounded_def [of _ s] split: option.splits)
  then show ?thesis using assms RowsArrive by (auto simp: answer_list_def split: option.splits)
next
  case (ScopeArrives d scope now)
  have "verifier_bounded deps (snd (scope_arrives deps now d scope row ld s))" if "map_get (kv_inFlight s) d = Some ld" for ld row
  proof -
    have "verifier_bounded deps (end_load d ((remember deps now d e s)\<lparr>kv_onVerified := x\<rparr>))" for e x
      by (intro bounded_ended) (use bounded_remember [OF assms, of now d e] in \<open>simp add: verifier_bounded_def\<close>)
    then show ?thesis
      using assms that bounded_replaced [OF assms that] bounded_ended [OF assms]
      by (auto simp: scope_arrives_def retry_load_def Let_def)
  qed
  then show ?thesis using assms ScopeArrives by (auto simp: answer_list_def split: option.splits)
next
  case (Invalidate k)
  have "cache_ok (vd_cache deps) (fold map_delete ds c)" if "cache_ok (vd_cache deps) c" for ds and c :: "cache_entry ttl_cache"
    using that by (induction ds arbitrary: c) (simp_all add: cache_ok_delete)
  then show ?thesis using assms Invalidate by (simp add: invalidate_def verifier_bounded_def Let_def)
next
  case InvalidateAll
  then show ?thesis using assms by (simp add: invalidateAll_def verifier_bounded_def cache_ok_def map_size_def)
qed (simp add: bounded_ended assms)

interpretation key_memory: kept_machine "verifier_move deps" "\<lambda>_. True" "\<lambda>x. verifier_bounded deps (snd x)" for deps
  by unfold_locales (simp add: verifier_move_def case_prod_beta Let_def bounded_step)

text \<open>
  However many keys are sprayed at it, the verifier holds at most the configured number of cached
  answers and of loads, and a load that keeps being overtaken by edits queries at most three times.
\<close>

lemma verifier_memory_bounded:
  assumes "1 \<le> tc_maxEntries (vd_cache deps)"
  shows "verifier_bounded deps (snd (verifier_run deps evs))"
proof -
  have "verifier_bounded deps (snd ([], createRouterKeyVerifier))"
    using assms by (simp add: verifier_bounded_def createRouterKeyVerifier_def cache_ok_def map_size_def)
  then show ?thesis
    unfolding verifier_run_def by (intro key_memory.run_kept) (simp_all add: list_all_iff)
qed

end
