(* ===== verification/Login_Throttle.thy ===== *)
theory Login_Throttle
  imports Js_Map
begin

text \<open>
  Admin login throttling (\<open>admin-auth/throttle.ts\<close>) with its configuration (\<open>admin-auth/config.ts\<close>).
  \<open>startLogin\<close> of \<open>service.ts\<close> checks and charges an address without suspending, so an attempt is one step
  (\<open>throttled_attempt\<close>). The hashing of an address to its key is the caller's.
\<close>

record admin_auth_config =
  ac_idleTtlSeconds :: int
  ac_absoluteTtlSeconds :: int
  ac_maxFailedAttempts :: nat
  ac_maxConcurrentLogins :: nat
  ac_maxTrackedIps :: nat
  ac_attemptWindowSeconds :: int
  ac_lockoutSeconds :: int
  ac_touchIntervalSeconds :: int

record admin_auth_env_config =
  ae_adminSessionIdleMinutes :: int
  ae_adminSessionAbsoluteHours :: int
  ae_adminLoginMaxAttempts :: nat
  ae_adminLoginMaxConcurrent :: nat
  ae_adminLoginMaxTrackedIps :: nat
  ae_adminLoginAttemptWindowMinutes :: int
  ae_adminLoginLockoutMinutes :: int
  ae_adminSessionTouchIntervalSeconds :: int

definition DEFAULT_ADMIN_AUTH_ENV :: admin_auth_env_config where
  "DEFAULT_ADMIN_AUTH_ENV =
     \<lparr>ae_adminSessionIdleMinutes = 43200, ae_adminSessionAbsoluteHours = 720, ae_adminLoginMaxAttempts = 5,
      ae_adminLoginMaxConcurrent = 4, ae_adminLoginMaxTrackedIps = 10000, ae_adminLoginAttemptWindowMinutes = 15,
      ae_adminLoginLockoutMinutes = 15, ae_adminSessionTouchIntervalSeconds = 60\<rparr>"

definition adminAuthConfigFromEnv :: "admin_auth_env_config \<Rightarrow> admin_auth_config" where
  "adminAuthConfigFromEnv e =
     \<lparr>ac_idleTtlSeconds = ae_adminSessionIdleMinutes e * 60, ac_absoluteTtlSeconds = ae_adminSessionAbsoluteHours e * 3600,
      ac_maxFailedAttempts = ae_adminLoginMaxAttempts e, ac_maxConcurrentLogins = ae_adminLoginMaxConcurrent e,
      ac_maxTrackedIps = ae_adminLoginMaxTrackedIps e, ac_attemptWindowSeconds = ae_adminLoginAttemptWindowMinutes e * 60,
      ac_lockoutSeconds = ae_adminLoginLockoutMinutes e * 60, ac_touchIntervalSeconds = ae_adminSessionTouchIntervalSeconds e\<rparr>"

definition DEFAULT_ADMIN_AUTH_CONFIG :: admin_auth_config where
  "DEFAULT_ADMIN_AUTH_CONFIG = adminAuthConfigFromEnv DEFAULT_ADMIN_AUTH_ENV"

section \<open>The throttle\<close>

record bucket =
  bk_failures :: nat
  bk_windowStartMs :: instant
  bk_lockedUntilMs :: instant

type_synonym login_throttle = "(string, bucket) js_map"

datatype throttle_decision = LoginAllowed | LoginDenied int

definition bucket_expired :: "bucket \<Rightarrow> instant \<Rightarrow> int \<Rightarrow> bool" where
  "bucket_expired b nowMs windowMs =
     (if bk_lockedUntilMs b > 0 then nowMs \<ge> bk_lockedUntilMs b else nowMs - bk_windowStartMs b \<ge> windowMs)"

definition windowMs :: "admin_auth_config \<Rightarrow> int" where "windowMs c = ac_attemptWindowSeconds c * 1000"
definition lockoutMs :: "admin_auth_config \<Rightarrow> int" where "lockoutMs c = ac_lockoutSeconds c * 1000"

definition evictStale :: "admin_auth_config \<Rightarrow> instant \<Rightarrow> login_throttle \<Rightarrow> login_throttle" where
  "evictStale c nowMs m = filter (\<lambda>e. \<not> bucket_expired (snd e) nowMs (windowMs c)) m"

definition locked_until :: "string list \<Rightarrow> instant \<Rightarrow> login_throttle \<Rightarrow> instant" where
  "locked_until keys nowMs m =
     fold (\<lambda>key acc. case map_get m key of
             None \<Rightarrow> acc
           | Some b \<Rightarrow> if bk_lockedUntilMs b > nowMs then max acc (bk_lockedUntilMs b) else acc) keys 0"

definition throttle_check :: "admin_auth_config \<Rightarrow> string list \<Rightarrow> instant \<Rightarrow> login_throttle \<Rightarrow> throttle_decision \<times> login_throttle" where
  "throttle_check c keys nowMs m =
     (let full = map_size m \<ge> ac_maxTrackedIps c;
          m = (if full then evictStale c nowMs m else m)
      in if full \<and> (\<exists>key \<in> set keys. \<not> map_has key m) \<and> map_size m \<ge> ac_maxTrackedIps c
         then (LoginDenied (max 1 (ac_lockoutSeconds c)), m)
         else
           let locked = locked_until keys nowMs m
           in if locked = 0 then (LoginAllowed, m) else (LoginDenied (ceil_div (locked - nowMs) 1000), m))"

definition charge :: "admin_auth_config \<Rightarrow> instant \<Rightarrow> string \<Rightarrow> login_throttle \<Rightarrow> login_throttle" where
  "charge c nowMs key m =
     (let fresh = \<lparr>bk_failures = 0, bk_windowStartMs = nowMs, bk_lockedUntilMs = 0\<rparr>;
          b = (case map_get m key of
                 None \<Rightarrow> fresh
               | Some old \<Rightarrow> if bucket_expired old nowMs (windowMs c) then fresh else old);
          b = b\<lparr>bk_failures := bk_failures b + 1\<rparr>;
          b = (if bk_failures b \<ge> ac_maxFailedAttempts c then b\<lparr>bk_lockedUntilMs := nowMs + lockoutMs c\<rparr> else b)
      in map_set key b m)"

definition throttle_recordFailure :: "admin_auth_config \<Rightarrow> string list \<Rightarrow> instant \<Rightarrow> login_throttle \<Rightarrow> login_throttle" where
  "throttle_recordFailure c keys nowMs m =
     fold (charge c nowMs) keys (if map_size m \<ge> ac_maxTrackedIps c then evictStale c nowMs m else m)"

definition throttle_reset :: "string list \<Rightarrow> login_throttle \<Rightarrow> login_throttle" where
  "throttle_reset keys m = fold map_delete keys m"

text \<open>What \<open>startLogin\<close> does with the throttle before it suspends.\<close>

definition throttled_attempt :: "admin_auth_config \<Rightarrow> string \<Rightarrow> instant \<Rightarrow> login_throttle \<Rightarrow> throttle_decision \<times> login_throttle" where
  "throttled_attempt c key nowMs m =
     (let (decision, m) = throttle_check c [key] nowMs m
      in if decision = LoginAllowed then (LoginAllowed, throttle_recordFailure c [key] nowMs m) else (decision, m))"

section \<open>Lockout\<close>

text \<open>
  The bucket of a key over an interval shorter than the window and the lockout: \<open>n\<close> attempts were let
  through, and the last one allowed locked it beyond the interval.
\<close>

definition metered_bucket :: "admin_auth_config \<Rightarrow> instant \<Rightarrow> nat \<Rightarrow> bucket option \<Rightarrow> bool" where
  "metered_bucket c t0 n b \<longleftrightarrow>
     (case b of
        None \<Rightarrow> n = 0
      | Some x \<Rightarrow>
          bk_failures x = n \<and> 1 \<le> n \<and> n \<le> ac_maxFailedAttempts c \<and> t0 \<le> bk_windowStartMs x \<and>
          (n < ac_maxFailedAttempts c \<longrightarrow> bk_lockedUntilMs x = 0) \<and>
          (n = ac_maxFailedAttempts c \<longrightarrow> t0 + lockoutMs c \<le> bk_lockedUntilMs x))"

definition calm_interval :: "admin_auth_config \<Rightarrow> instant \<Rightarrow> instant \<Rightarrow> bool" where
  "calm_interval c t0 t \<longleftrightarrow> 0 < t0 \<and> t0 \<le> t \<and> t - t0 < windowMs c \<and> t - t0 < lockoutMs c"

lemma metered_unexpired:
  assumes "metered_bucket c t0 n (Some b)" "calm_interval c t0 t"
  shows "\<not> bucket_expired b t (windowMs c)"
  using assms by (auto simp: metered_bucket_def bucket_expired_def calm_interval_def)

lemma map_get_evictStale:
  assumes "map_ok m"
  shows "map_get (evictStale c t m) k =
    (case map_get m k of None \<Rightarrow> None | Some b \<Rightarrow> if bucket_expired b t (windowMs c) then None else Some b)"
  using assms
proof (induction m)
  case (Cons e m)
  then have "map_ok m" "fst e \<notin> fst ` set m" by (auto simp: map_ok_def)
  then show ?case using Cons.IH by (cases e) (force simp: evictStale_def map_get_def map_of_eq_None_iff split: option.splits)
qed (simp add: evictStale_def)

lemma map_ok_evictStale: "map_ok m \<Longrightarrow> map_ok (evictStale c t m)"
  unfolding map_ok_def evictStale_def by (rule distinct_map_filter)

lemma metered_evict:
  assumes "map_ok m" "metered_bucket c t0 n (map_get m k)" "calm_interval c t0 t"
  shows "map_get (evictStale c t m) k = map_get m k"
  using assms metered_unexpired [of c t0 n _ t] by (auto simp: map_get_evictStale split: option.splits)

text \<open>Housekeeping: a full table drops what has expired before it is consulted.\<close>

definition tidied :: "admin_auth_config \<Rightarrow> instant \<Rightarrow> login_throttle \<Rightarrow> login_throttle" where
  "tidied c t m = (if map_size m \<ge> ac_maxTrackedIps c then evictStale c t m else m)"

definition no_room :: "admin_auth_config \<Rightarrow> string \<Rightarrow> login_throttle \<Rightarrow> bool" where
  "no_room c k m \<longleftrightarrow> \<not> map_has k m \<and> map_size m \<ge> ac_maxTrackedIps c"

lemma tidied_size: "map_size (tidied c t m) \<le> map_size m"
  by (simp add: tidied_def evictStale_def map_size_def)

lemma tidied_ok: "map_ok m \<Longrightarrow> map_ok (tidied c t m)"
  by (simp add: tidied_def map_ok_evictStale)

lemma tidied_twice: "tidied c t (tidied c t m) = tidied c t m"
  by (simp add: tidied_def evictStale_def)

lemma tidied_keys: "fst ` set (tidied c t m) \<subseteq> fst ` set m"
  by (auto simp: tidied_def evictStale_def)

lemma tidied_metered:
  assumes "map_ok m" "metered_bucket c t0 n (map_get m k)" "calm_interval c t0 t"
  shows "map_get (tidied c t m) k = map_get m k"
  using metered_evict [OF assms] by (simp add: tidied_def)

lemma check_alt:
  "throttle_check c [k] t m =
    (if no_room c k (tidied c t m) then (LoginDenied (max 1 (ac_lockoutSeconds c)), tidied c t m)
     else case map_get (tidied c t m) k of
       None \<Rightarrow> (LoginAllowed, tidied c t m)
     | Some b \<Rightarrow> if t < bk_lockedUntilMs b \<and> 0 < bk_lockedUntilMs b
                then (LoginDenied (ceil_div (bk_lockedUntilMs b - t) 1000), tidied c t m) else (LoginAllowed, tidied c t m))"
  using tidied_size [of c t m]
  by (auto simp: throttle_check_def no_room_def tidied_def locked_until_def Let_def max_def split: option.splits)

definition admitted :: "throttle_decision \<Rightarrow> bool" where
  "admitted d \<longleftrightarrow> d = LoginAllowed"

definition barred :: "admin_auth_config \<Rightarrow> string \<Rightarrow> instant \<Rightarrow> login_throttle \<Rightarrow> bool" where
  "barred c k t m \<longleftrightarrow> no_room c k m \<or> (\<exists>b. map_get m k = Some b \<and> t < bk_lockedUntilMs b \<and> 0 < bk_lockedUntilMs b)"

lemma attempt_state:
  "snd (throttled_attempt c k t m) = (if barred c k t (tidied c t m) then tidied c t m else charge c t k (tidied c t m))"
  using tidied_twice [of c t m]
  by (auto simp: throttled_attempt_def check_alt barred_def throttle_recordFailure_def tidied_def split: option.splits)

lemma attempt_admitted: "admitted (fst (throttled_attempt c k t m)) \<longleftrightarrow> \<not> barred c k t (tidied c t m)"
  by (auto simp: throttled_attempt_def check_alt barred_def admitted_def split: option.splits)

lemma charge_get: "k' \<noteq> k \<Longrightarrow> map_get (charge c t k m) k' = map_get m k'"
  by (simp add: charge_def Let_def)

lemma charge_keys: "fst ` set (charge c t k m) = insert k (fst ` set m)"
  by (simp add: charge_def Let_def keys_set)

lemma charge_metered:
  assumes "metered_bucket c t0 n (map_get m k)" "calm_interval c t0 t" "n < ac_maxFailedAttempts c"
  shows "metered_bucket c t0 (Suc n) (map_get (charge c t k m) k)"
proof (cases "map_get m k")
  case None
  then show ?thesis using assms by (auto simp: metered_bucket_def charge_def calm_interval_def Let_def)
next
  case (Some b)
  then have "\<not> bucket_expired b t (windowMs c)" using assms metered_unexpired by simp
  then show ?thesis using Some assms by (auto simp: metered_bucket_def charge_def calm_interval_def Let_def)
qed

lemma barred_metered:
  assumes "metered_bucket c t0 n (map_get m k)" "calm_interval c t0 t" "1 \<le> ac_maxFailedAttempts c"
  shows "barred c k t m \<longleftrightarrow> no_room c k m \<or> n = ac_maxFailedAttempts c"
  using assms by (cases "map_get m k") (auto simp: barred_def metered_bucket_def calm_interval_def)

section \<open>Any run of attempts\<close>

fun throttled_run :: "admin_auth_config \<Rightarrow> (string \<times> instant) list \<Rightarrow> login_throttle \<Rightarrow> throttle_decision list \<times> login_throttle" where
  "throttled_run c [] m = ([], m)"
| "throttled_run c ((k, t) # es) m =
     (let (d, m) = throttled_attempt c k t m; (ds, m) = throttled_run c es m in (d # ds, m))"

definition let_through :: "string \<Rightarrow> (string \<times> instant) list \<Rightarrow> throttle_decision list \<Rightarrow> nat" where
  "let_through k es ds = length (filter (\<lambda>(e, d). fst e = k \<and> admitted d) (zip es ds))"

definition tracked_ok :: "admin_auth_config \<Rightarrow> login_throttle \<Rightarrow> bool" where
  "tracked_ok c m \<longleftrightarrow> map_ok m \<and> map_size m \<le> ac_maxTrackedIps c"

lemma attempt_tracked:
  assumes "tracked_ok c m"
  shows "tracked_ok c (snd (throttled_attempt c k t m))"
proof -
  have "map_ok (tidied c t m)" "map_size (tidied c t m) \<le> ac_maxTrackedIps c"
    using assms tidied_ok tidied_size [of c t m] by (auto simp: tracked_ok_def)
  then show ?thesis
    by (auto simp: attempt_state tracked_ok_def barred_def no_room_def charge_def Let_def size_set)
qed

lemma attempt_other:
  assumes "tracked_ok c m" "metered_bucket c t0 n (map_get m k)" "calm_interval c t0 t" "k' \<noteq> k"
  shows "map_get (snd (throttled_attempt c k' t m)) k = map_get m k"
  using assms tidied_metered [of m c t0 n k t] by (auto simp: attempt_state charge_get tracked_ok_def)

lemma attempt_own:
  assumes "tracked_ok c m" "metered_bucket c t0 n (map_get m k)" "calm_interval c t0 t" "1 \<le> ac_maxFailedAttempts c"
  shows "admitted (fst (throttled_attempt c k t m)) \<longleftrightarrow> \<not> no_room c k (tidied c t m) \<and> n < ac_maxFailedAttempts c"
    and "metered_bucket c t0 (if admitted (fst (throttled_attempt c k t m)) then Suc n else n)
           (map_get (snd (throttled_attempt c k t m)) k)"
proof -
  have get: "map_get (tidied c t m) k = map_get m k"
    using assms tidied_metered by (auto simp: tracked_ok_def)
  have n: "n \<le> ac_maxFailedAttempts c" using assms(2,4) by (auto simp: metered_bucket_def split: option.splits)
  have barred: "barred c k t (tidied c t m) \<longleftrightarrow> no_room c k (tidied c t m) \<or> n = ac_maxFailedAttempts c"
    using assms by (intro barred_metered) (auto simp: get)
  show "admitted (fst (throttled_attempt c k t m)) \<longleftrightarrow> \<not> no_room c k (tidied c t m) \<and> n < ac_maxFailedAttempts c"
    using barred n by (auto simp: attempt_admitted)
  show "metered_bucket c t0 (if admitted (fst (throttled_attempt c k t m)) then Suc n else n)
      (map_get (snd (throttled_attempt c k t m)) k)"
    using assms barred n get charge_metered [of c t0 n "tidied c t m" k t]
    by (auto simp: attempt_admitted attempt_state)
qed

lemma attempt_metered:
  assumes "tracked_ok c m" "metered_bucket c t0 n (map_get m k)" "calm_interval c t0 t" "1 \<le> ac_maxFailedAttempts c"
  shows "metered_bucket c t0 (if k' = k \<and> admitted (fst (throttled_attempt c k' t m)) then Suc n else n)
    (map_get (snd (throttled_attempt c k' t m)) k)"
proof (cases "k' = k")
  case True
  then show ?thesis using attempt_own(2) [OF assms] by simp
next
  case False
  then show ?thesis using attempt_other [OF assms(1-3) False] assms(2) by simp
qed

lemma let_through_Cons:
  "let_through k (e # es) (d # ds) = (if fst e = k \<and> admitted d then 1 else 0) + let_through k es ds"
  by (simp add: let_through_def)

lemma throttled_run_Cons:
  "fst (throttled_run c (e # es) m) =
     fst (throttled_attempt c (fst e) (snd e) m) # fst (throttled_run c es (snd (throttled_attempt c (fst e) (snd e) m)))"
  "snd (throttled_run c (e # es) m) = snd (throttled_run c es (snd (throttled_attempt c (fst e) (snd e) m)))"
  by (cases e; simp add: case_prod_beta Let_def)+

lemma run_tracked: "tracked_ok c m \<Longrightarrow> tracked_ok c (snd (throttled_run c es m))"
  by (induction es arbitrary: m) (auto simp: throttled_run_Cons attempt_tracked simp del: throttled_run.simps(2))

lemma run_bounded:
  assumes "tracked_ok c m" "metered_bucket c t0 n (map_get m k)" "\<forall>e \<in> set es. calm_interval c t0 (snd e)"
    and "1 \<le> ac_maxFailedAttempts c"
  shows "n + let_through k es (fst (throttled_run c es m)) \<le> ac_maxFailedAttempts c"
  using assms
proof (induction es arbitrary: m n)
  case Nil
  then show ?case by (auto simp: let_through_def metered_bucket_def split: option.splits)
next
  case (Cons e es)
  define d where "d = fst (throttled_attempt c (fst e) (snd e) m)"
  define m' where "m' = snd (throttled_attempt c (fst e) (snd e) m)"
  define n' where "n' = (if fst e = k \<and> admitted d then Suc n else n)"
  have "tracked_ok c m'" using Cons.prems by (simp add: m'_def attempt_tracked)
  moreover have "metered_bucket c t0 n' (map_get m' k)"
    unfolding n'_def m'_def d_def using Cons.prems by (intro attempt_metered) auto
  ultimately have "n' + let_through k es (fst (throttled_run c es m')) \<le> ac_maxFailedAttempts c"
    using Cons.IH Cons.prems by simp
  then show ?case
    by (auto simp: throttled_run_Cons let_through_Cons n'_def m'_def d_def simp del: throttled_run.simps(2) split: if_splits)
qed

text \<open>Attempts from no more addresses than are tracked: nobody is turned away for want of room.\<close>

lemma attempt_keys: "fst ` set (snd (throttled_attempt c k t m)) \<subseteq> insert k (fst ` set m)"
  using tidied_keys [of c t m] by (auto simp: attempt_state charge_keys)

lemma few_have_room:
  assumes "fst ` set m \<subseteq> K" "finite K" "card K \<le> ac_maxTrackedIps c" "k \<in> K" "map_ok m"
  shows "\<not> no_room c k (tidied c t m)"
proof
  assume full: "no_room c k (tidied c t m)"
  then have "fst ` set (tidied c t m) \<subseteq> K - {k}"
    using subset_trans [OF tidied_keys assms(1), of c t] by (simp add: no_room_def map_has_def subset_Diff_insert)
  then have "card (fst ` set (tidied c t m)) < card K"
    using assms(2,4) by (metis card_Diff1_less card_mono finite_Diff le_less_trans)
  moreover have "map_size (tidied c t m) = card (fst ` set (tidied c t m))"
    using tidied_ok [OF assms(5), of c t] distinct_card [of "map fst (tidied c t m)"] by (simp add: map_ok_def map_size_def)
  ultimately show False using full assms(3) by (simp add: no_room_def)
qed

lemma run_exact:
  assumes "tracked_ok c m" "metered_bucket c t0 n (map_get m k)" "\<forall>e \<in> set es. calm_interval c t0 (snd e)"
    and "1 \<le> ac_maxFailedAttempts c"
    and "fst ` set m \<subseteq> K" "fst ` set es \<subseteq> K" "finite K" "card K \<le> ac_maxTrackedIps c"
  shows "n + let_through k es (fst (throttled_run c es m)) =
    min (ac_maxFailedAttempts c) (n + length (filter (\<lambda>e. fst e = k) es))"
  using assms
proof (induction es arbitrary: m n)
  case Nil
  then show ?case by (auto simp: let_through_def metered_bucket_def split: option.splits)
next
  case (Cons e es)
  define d where "d = fst (throttled_attempt c (fst e) (snd e) m)"
  define m' where "m' = snd (throttled_attempt c (fst e) (snd e) m)"
  define n' where "n' = (if fst e = k \<and> admitted d then Suc n else n)"
  have ok: "tracked_ok c m'" using Cons.prems by (simp add: m'_def attempt_tracked)
  have met: "metered_bucket c t0 n' (map_get m' k)"
    unfolding n'_def m'_def d_def using Cons.prems by (intro attempt_metered) auto
  have "insert (fst e) (fst ` set m) \<subseteq> K" using Cons.prems(5,6) by simp
  then have keys: "fst ` set m' \<subseteq> K" unfolding m'_def by (rule subset_trans [OF attempt_keys])
  have step: "admitted d \<longleftrightarrow> n < ac_maxFailedAttempts c" if "fst e = k"
    using that Cons.prems attempt_own(1) [of c m t0 n k "snd e"] few_have_room [of m K c k "snd e"]
    by (auto simp: d_def tracked_ok_def)
  have n: "n \<le> ac_maxFailedAttempts c" using Cons.prems(2,4) by (auto simp: metered_bucket_def split: option.splits)
  have "n' + let_through k es (fst (throttled_run c es m')) =
      min (ac_maxFailedAttempts c) (n' + length (filter (\<lambda>e. fst e = k) es))"
    using Cons.IH [OF ok met] Cons.prems keys by simp
  then show ?case using step n
    by (auto simp: throttled_run_Cons let_through_Cons n'_def m'_def [symmetric] d_def [symmetric]
        simp del: throttled_run.simps(2) split: if_splits)
qed

text \<open>
  (C35) Brute force is metered: from an empty table, over any interval shorter than the attempt window
  and the lockout, any interleaving of attempts from any addresses lets at most \<open>maxFailedAttempts\<close> of
  one address through and tracks at most \<open>maxTrackedIps\<close> of them; and when the addresses fit the table,
  exactly the first \<open>maxFailedAttempts\<close> attempts of an address get through, whatever the others do.
\<close>

theorem login_attempts_metered:
  assumes "1 \<le> ac_maxFailedAttempts c" and "\<forall>e \<in> set es. calm_interval c t0 (snd e)"
  shows "let_through k es (fst (throttled_run c es [])) \<le> ac_maxFailedAttempts c \<and>
    map_size (snd (throttled_run c es [])) \<le> ac_maxTrackedIps c \<and>
    (card (fst ` set es) \<le> ac_maxTrackedIps c \<longrightarrow>
      let_through k es (fst (throttled_run c es [])) = min (ac_maxFailedAttempts c) (length (filter (\<lambda>e. fst e = k) es)))"
proof -
  have ok: "tracked_ok c []" by (simp add: tracked_ok_def map_size_def)
  have met: "metered_bucket c t0 0 (map_get [] k)" by (simp add: metered_bucket_def)
  show ?thesis
    using run_bounded [OF ok met assms(2,1)] run_tracked [OF ok] run_exact [OF ok met assms(2,1), of "fst ` set es"]
    by (simp add: tracked_ok_def)
qed

definition sample_attempts :: "(string \<times> instant) list" where
  "sample_attempts = map (\<lambda>i. (''a'', 1000 + i)) [0..7] @ [(''b'', 2000)]"

lemma sample_attempts_list:
  "sample_attempts = [(''a'', 1000), (''a'', 1001), (''a'', 1002), (''a'', 1003), (''a'', 1004), (''a'', 1005), (''a'', 1006), (''a'', 1007), (''b'', 2000)]"
  by (simp add: sample_attempts_def upto.simps)

theorem login_attempts_metered_witness:
  "let_through ''a'' sample_attempts (fst (throttled_run DEFAULT_ADMIN_AUTH_CONFIG sample_attempts [])) = 5"
proof -
  have "\<forall>e \<in> set sample_attempts. calm_interval DEFAULT_ADMIN_AUTH_CONFIG 1000 (snd e)"
    by (simp add: sample_attempts_list calm_interval_def windowMs_def lockoutMs_def DEFAULT_ADMIN_AUTH_CONFIG_def
        adminAuthConfigFromEnv_def DEFAULT_ADMIN_AUTH_ENV_def)
  from login_attempts_metered [OF _ this, of "''a''"] show ?thesis
    by (simp add: sample_attempts_list DEFAULT_ADMIN_AUTH_CONFIG_def adminAuthConfigFromEnv_def DEFAULT_ADMIN_AUTH_ENV_def)
qed

end
