(* ===== verification/Admin_Session.thy ===== *)
theory Admin_Session
  imports Login_Throttle Router_Key
begin

text \<open>
  Admin sessions: the record and its in-memory store (\<open>admin-auth/sessionStore.ts\<close>), the signed cookie
  (\<open>sessionToken.ts\<close>), the CSRF token (\<open>csrf.ts\<close>), the operator's token (\<open>apiToken.ts\<close>), the guard
  (\<open>middleware/adminAuth.ts\<close>) and \<open>authenticate\<close> (\<open>service.ts\<close>), which suspends at every call of the store:
  each continuation is a step, and the steps of concurrent requests interleave freely. The HMAC of an
  id under the derived key, as base64url, is the argument \<open>sign\<close>. SHA-256 digests are compared to
  compare strings, so \<open>timingSafeEqualStrings\<close> is equality.
\<close>

section \<open>Sessions and their store (\<open>sessionStore.ts\<close>)\<close>

record admin_session =
  as_id :: string
  as_username :: string
  as_csrfToken :: string
  as_createdAtMs :: instant
  as_lastSeenAtMs :: instant
  as_idleExpiryMs :: instant
  as_absoluteExpiryMs :: instant

type_synonym session_store = "(string, admin_session) js_map"

definition sessionExpiryMs :: "admin_session \<Rightarrow> instant" where
  "sessionExpiryMs s = min (as_idleExpiryMs s) (as_absoluteExpiryMs s)"

definition session_create :: "admin_session \<Rightarrow> session_store \<Rightarrow> session_store" where
  "session_create s m = map_set (as_id s) s m"

definition session_touch :: "admin_session \<Rightarrow> session_store \<Rightarrow> bool \<times> session_store" where
  "session_touch s m =
     (case map_get m (as_id s) of
        None \<Rightarrow> (False, m)
      | Some previous \<Rightarrow>
          if sessionExpiryMs previous \<le> as_lastSeenAtMs s then (False, m) else (True, map_set (as_id s) s m))"

definition session_delete :: "string \<Rightarrow> session_store \<Rightarrow> session_store" where
  "session_delete i m = map_delete i m"

text \<open>The loop of \<open>deleteExpired\<close> over the entries in order, with the number removed so far.\<close>

fun drop_expired :: "instant \<Rightarrow> nat \<Rightarrow> session_store \<Rightarrow> nat \<times> session_store" where
  "drop_expired nowMs limit [] = (0, [])"
| "drop_expired nowMs 0 m = (0, m)"
| "drop_expired nowMs (Suc limit) (e # m) =
     (if sessionExpiryMs (snd e) \<le> nowMs
      then let (removed, rest) = drop_expired nowMs limit m in (Suc removed, rest)
      else let (removed, rest) = drop_expired nowMs (Suc limit) m in (removed, e # rest))"

definition deleteExpired :: "instant \<Rightarrow> nat \<Rightarrow> session_store \<Rightarrow> nat \<times> session_store" where
  "deleteExpired nowMs limit m = drop_expired nowMs limit m"

section \<open>The cookie (\<open>sessionToken.ts\<close>)\<close>

definition DOT :: char where "DOT = CHR ''.''"

definition signSessionId :: "(string \<Rightarrow> string) \<Rightarrow> string \<Rightarrow> string" where
  "signSessionId sign i = i @ [DOT] @ sign i"

text \<open>Cut at the last dot, when there is one: \<open>lastIndexOf\<close> and the two slices.\<close>

fun cut_last_dot :: "string \<Rightarrow> (string \<times> string) option" where
  "cut_last_dot [] = None"
| "cut_last_dot (c # s) =
     (case cut_last_dot s of
        Some (a, b) \<Rightarrow> Some (c # a, b)
      | None \<Rightarrow> if c = DOT then Some ([], s) else None)"

definition parseSignedSessionId :: "(string \<Rightarrow> string) \<Rightarrow> string \<Rightarrow> string option" where
  "parseSignedSessionId sign v =
     (case cut_last_dot v of
        None \<Rightarrow> None
      | Some (i, signature) \<Rightarrow>
          if i = [] \<or> signature = [] then None else if signature = sign i then Some i else None)"

section \<open>CSRF and the operator's token (\<open>csrf.ts\<close>, \<open>apiToken.ts\<close>)\<close>

definition upper_char :: "char \<Rightarrow> char" where
  "upper_char c = (if 97 \<le> (of_char c :: nat) \<and> (of_char c :: nat) \<le> 122 then char_of ((of_char c :: nat) - 32) else c)"

definition MUTATING_METHODS :: "string list" where
  "MUTATING_METHODS = [''POST'', ''PUT'', ''PATCH'', ''DELETE'']"

definition isMutatingMethod :: "string \<Rightarrow> bool" where
  "isMutatingMethod m \<longleftrightarrow> map upper_char m \<in> set MUTATING_METHODS"

definition csrfTokenMatches :: "admin_session \<Rightarrow> string option \<Rightarrow> bool" where
  "csrfTokenMatches s presented =
     (case presented of None \<Rightarrow> False | Some p \<Rightarrow> p \<noteq> [] \<and> p = as_csrfToken s)"

definition ADMIN_API_TOKEN_MIN_LENGTH :: nat where "ADMIN_API_TOKEN_MIN_LENGTH = 32"

definition isAdminApiTokenConfigured :: "string option \<Rightarrow> bool" where
  "isAdminApiTokenConfigured token = (case token of None \<Rightarrow> False | Some t \<Rightarrow> t \<noteq> [])"

datatype token_problem = TokenTooShort | TokenIsRouterKey

definition adminApiTokenProblem :: "string \<Rightarrow> token_problem option" where
  "adminApiTokenProblem token =
     (if length token < ADMIN_API_TOKEN_MIN_LENGTH then Some TokenTooShort
      else if take (length ROUTER_KEY_PREFIX) token = ROUTER_KEY_PREFIX then Some TokenIsRouterKey
      else None)"

definition adminApiTokenMatches :: "string option \<Rightarrow> string option \<Rightarrow> bool" where
  "adminApiTokenMatches configured presented \<longleftrightarrow>
     isAdminApiTokenConfigured configured \<and> presented \<noteq> None \<and> presented \<noteq> Some [] \<and> configured = presented"

section \<open>\<open>authenticate\<close> (\<open>service.ts\<close>)\<close>

datatype auth_error = NotAuthenticated | SessionExpired

text \<open>Where a call of \<open>authenticate\<close> waits: for \<open>get\<close> to be served, with its answer, for \<open>delete\<close>, for \<open>touch\<close>.\<close>

datatype auth_stage =
    Reading string
  | Fetched "admin_session option"
  | Expiring string
  | Touching admin_session
  | Settled "auth_error + admin_session"

definition newSession :: "admin_auth_config \<Rightarrow> string \<Rightarrow> string \<Rightarrow> string \<Rightarrow> instant \<Rightarrow> admin_session" where
  "newSession c i csrf username nowMs =
     \<lparr>as_id = i, as_username = username, as_csrfToken = csrf, as_createdAtMs = nowMs, as_lastSeenAtMs = nowMs,
      as_idleExpiryMs = nowMs + ac_idleTtlSeconds c * 1000, as_absoluteExpiryMs = nowMs + ac_absoluteTtlSeconds c * 1000\<rparr>"

definition auth_open :: "(string \<Rightarrow> string) \<Rightarrow> string option \<Rightarrow> auth_stage" where
  "auth_open sign cookie =
     (case cookie of
        None \<Rightarrow> Settled (Inl NotAuthenticated)
      | Some v \<Rightarrow>
          if v = [] then Settled (Inl NotAuthenticated)
          else case parseSignedSessionId sign v of None \<Rightarrow> Settled (Inl NotAuthenticated) | Some i \<Rightarrow> Reading i)"

definition slide :: "admin_auth_config \<Rightarrow> instant \<Rightarrow> admin_session \<Rightarrow> admin_session" where
  "slide c nowMs s = s\<lparr>as_lastSeenAtMs := nowMs, as_idleExpiryMs := nowMs + ac_idleTtlSeconds c * 1000\<rparr>"

definition auth_fetched :: "admin_auth_config \<Rightarrow> instant \<Rightarrow> admin_session option \<Rightarrow> auth_stage" where
  "auth_fetched c nowMs found =
     (case found of
        None \<Rightarrow> Settled (Inl NotAuthenticated)
      | Some s \<Rightarrow>
          if sessionExpiryMs s \<le> nowMs then Expiring (as_id s)
          else if nowMs - as_lastSeenAtMs s \<ge> ac_touchIntervalSeconds c * 1000 then Touching (slide c nowMs s)
          else Settled (Inr (slide c nowMs s)))"

fun auth_advance :: "admin_auth_config \<Rightarrow> instant \<Rightarrow> auth_stage \<Rightarrow> session_store \<Rightarrow> auth_stage \<times> session_store" where
  "auth_advance c nowMs (Reading i) m = (Fetched (map_get m i), m)"
| "auth_advance c nowMs (Fetched found) m = (auth_fetched c nowMs found, m)"
| "auth_advance c nowMs (Expiring i) m = (Settled (Inl SessionExpired), session_delete i m)"
| "auth_advance c nowMs (Touching s) m =
     (let (ok, m) = session_touch s m in (Settled (if ok then Inr s else Inl NotAuthenticated), m))"
| "auth_advance c nowMs (Settled r) m = (Settled r, m)"

text \<open>A request that meets no other: every step at one instant.\<close>

definition authenticate :: "admin_auth_config \<Rightarrow> (string \<Rightarrow> string) \<Rightarrow> string option \<Rightarrow> instant \<Rightarrow> session_store \<Rightarrow> auth_stage \<times> session_store" where
  "authenticate c sign cookie nowMs m =
     (let (a, m) = auth_advance c nowMs (auth_open sign cookie) m; (a, m) = auth_advance c nowMs a m in auth_advance c nowMs a m)"

section \<open>The guard (\<open>middleware/adminAuth.ts\<close>)\<close>

definition looksLikeRouterKey :: "string option \<Rightarrow> bool" where
  "looksLikeRouterKey v = (case v of None \<Rightarrow> False | Some s \<Rightarrow> take (length ROUTER_KEY_PREFIX) (js_trim s) = ROUTER_KEY_PREFIX)"

definition presentsRouterKey :: "string option \<Rightarrow> string option \<Rightarrow> bool" where
  "presentsRouterKey authorization apiKey \<longleftrightarrow>
     looksLikeRouterKey (map_option (\<lambda>a. case after_bearer a of Some rest \<Rightarrow> rest | None \<Rightarrow> a) authorization) \<or>
     looksLikeRouterKey apiKey"

record admin_request =
  rq_method :: string
  rq_authorization :: "string option"
  rq_apiKey :: "string option"
  rq_cookie :: "string option"
  rq_csrf :: "string option"

datatype guard_refusal = RouterKeyRejected | AuthRefused auth_error | CsrfRefused
datatype admin_caller = TokenCaller | SessionCaller admin_session

text \<open>What the guard answers once \<open>authenticate\<close> has answered; the third check is not asked after the second passed.\<close>

definition adminAuth ::
  "string option \<Rightarrow> admin_request \<Rightarrow> (string option \<Rightarrow> auth_error + admin_session) \<Rightarrow> guard_refusal + admin_caller" where
  "adminAuth apiToken rq authenticated =
     (if presentsRouterKey (rq_authorization rq) (rq_apiKey rq) then Inl RouterKeyRejected
      else if adminApiTokenMatches apiToken (bearerToken (rq_authorization rq)) then Inr TokenCaller
      else case authenticated (rq_cookie rq) of
             Inl e \<Rightarrow> Inl (AuthRefused e)
           | Inr s \<Rightarrow>
               if isMutatingMethod (rq_method rq) \<and> \<not> csrfTokenMatches s (rq_csrf rq) then Inl CsrfRefused
               else Inr (SessionCaller s))"
section \<open>The cookie round trip\<close>

lemma cut_last_dot_Some: "cut_last_dot v = Some (a, b) \<longleftrightarrow> v = a @ DOT # b \<and> DOT \<notin> set b"
proof (induction v arbitrary: a b)
  case (Cons c s)
  have "(\<exists>a b. cut_last_dot s = Some (a, b)) \<longleftrightarrow> DOT \<in> set s"
    unfolding Cons.IH using split_list_last [of DOT s] by auto
  then have none: "cut_last_dot s = None \<longleftrightarrow> DOT \<notin> set s" by (cases "cut_last_dot s") auto
  show ?case
  proof (cases "cut_last_dot s")
    case None
    then show ?thesis using none by (cases a) auto
  next
    case (Some x)
    then obtain a' b' where x: "x = (a', b')" "s = a' @ DOT # b'" "DOT \<notin> set b'" using Cons.IH by (cases x) auto
    have "\<And>a b. s = a @ DOT # b \<and> DOT \<notin> set b \<longleftrightarrow> (a', b') = (a, b)" using Cons.IH Some x(1) by auto
    then show ?thesis using Some x none by (cases a) auto
  qed
qed simp

lemma parse_signed_genuine: "parseSignedSessionId sign v = Some i \<Longrightarrow> v = signSessionId sign i \<and> i \<noteq> []"
  by (auto simp: parseSignedSessionId_def signSessionId_def cut_last_dot_Some split: option.splits if_splits)

lemma parse_signed_roundtrip:
  assumes "i \<noteq> []" "sign i \<noteq> []" "DOT \<notin> set (sign i)"
  shows "parseSignedSessionId sign (signSessionId sign i) = Some i"
proof -
  have "cut_last_dot (signSessionId sign i) = Some (i, sign i)"
    using assms(3) by (simp add: cut_last_dot_Some signSessionId_def)
  then show ?thesis using assms by (simp add: parseSignedSessionId_def)
qed

section \<open>Interleaved requests\<close>

datatype auth_event =
    Login string string string instant
  | Logout string
  | Arrive "string option"
  | Advance nat instant
  | Sweep instant nat

record auth_state =
  au_store :: session_store
  au_calls :: "(string option \<times> auth_stage) list"

definition AUTH_START :: auth_state where
  "AUTH_START = \<lparr>au_store = [], au_calls = []\<rparr>"

fun auth_step :: "admin_auth_config \<Rightarrow> (string \<Rightarrow> string) \<Rightarrow> auth_event \<Rightarrow> auth_state \<Rightarrow> auth_state" where
  "auth_step c sign (Login i csrf username nowMs) st =
     st\<lparr>au_store := session_create (newSession c i csrf username nowMs) (au_store st)\<rparr>"
| "auth_step c sign (Logout i) st = st\<lparr>au_store := session_delete i (au_store st)\<rparr>"
| "auth_step c sign (Arrive cookie) st = st\<lparr>au_calls := au_calls st @ [(cookie, auth_open sign cookie)]\<rparr>"
| "auth_step c sign (Advance k nowMs) st =
     (if k < length (au_calls st)
      then let (cookie, a) = au_calls st ! k; (a, m) = auth_advance c nowMs a (au_store st)
           in st\<lparr>au_store := m, au_calls := (au_calls st)[k := (cookie, a)]\<rparr>
      else st)"
| "auth_step c sign (Sweep nowMs limit) st = st\<lparr>au_store := snd (deleteExpired nowMs limit (au_store st))\<rparr>"

text \<open>A run together with what has happened so far.\<close>

definition auth_move :: "admin_auth_config \<Rightarrow> (string \<Rightarrow> string) \<Rightarrow> auth_event \<Rightarrow> auth_event list \<times> auth_state \<Rightarrow> auth_event list \<times> auth_state" where
  "auth_move c sign ev x = (fst x @ [ev], auth_step c sign ev (snd x))"

definition auth_run :: "admin_auth_config \<Rightarrow> (string \<Rightarrow> string) \<Rightarrow> auth_event list \<Rightarrow> auth_state" where
  "auth_run c sign evs = fold (auth_step c sign) evs AUTH_START"

subsection \<open>Where sessions come from\<close>

definition born :: "admin_auth_config \<Rightarrow> auth_event list \<Rightarrow> admin_session \<Rightarrow> bool" where
  "born c evs s \<longleftrightarrow>
     Login (as_id s) (as_csrfToken s) (as_username s) (as_createdAtMs s) \<in> set evs \<and>
     as_absoluteExpiryMs s = as_createdAtMs s + ac_absoluteTtlSeconds c * 1000 \<and>
     as_idleExpiryMs s = as_lastSeenAtMs s + ac_idleTtlSeconds c * 1000"

definition accepted :: "admin_auth_config \<Rightarrow> (string \<Rightarrow> string) \<Rightarrow> auth_event list \<Rightarrow> string option \<Rightarrow> admin_session \<Rightarrow> bool" where
  "accepted c sign evs cookie s \<longleftrightarrow>
     cookie = Some (signSessionId sign (as_id s)) \<and> born c evs s \<and> as_lastSeenAtMs s < as_absoluteExpiryMs s"

definition stage_sound :: "admin_auth_config \<Rightarrow> (string \<Rightarrow> string) \<Rightarrow> auth_event list \<Rightarrow> string option \<times> auth_stage \<Rightarrow> bool" where
  "stage_sound c sign evs x \<longleftrightarrow>
     (case snd x of
        Reading i \<Rightarrow> fst x = Some (signSessionId sign i)
      | Fetched found \<Rightarrow> (\<forall>s \<in> set_option found. fst x = Some (signSessionId sign (as_id s)) \<and> born c evs s)
      | Expiring i \<Rightarrow> True
      | Touching s \<Rightarrow> accepted c sign evs (fst x) s
      | Settled r \<Rightarrow> (\<forall>s. r = Inr s \<longrightarrow> accepted c sign evs (fst x) s))"

definition store_sound :: "admin_auth_config \<Rightarrow> auth_event list \<Rightarrow> session_store \<Rightarrow> bool" where
  "store_sound c evs m \<longleftrightarrow> (\<forall>(i, s) \<in> set m. as_id s = i \<and> born c evs s)"

definition auth_sound :: "admin_auth_config \<Rightarrow> (string \<Rightarrow> string) \<Rightarrow> auth_event list \<times> auth_state \<Rightarrow> bool" where
  "auth_sound c sign x \<longleftrightarrow> store_sound c (fst x) (au_store (snd x)) \<and> list_all (stage_sound c sign (fst x)) (au_calls (snd x))"

lemma born_more: "born c evs s \<Longrightarrow> born c (evs @ [ev]) s"
  by (simp add: born_def)

lemma stage_sound_more: "stage_sound c sign evs x \<Longrightarrow> stage_sound c sign (evs @ [ev]) x"
  by (auto simp: stage_sound_def accepted_def intro: born_more split: auth_stage.splits)

lemma store_sound_more: "store_sound c evs m \<Longrightarrow> store_sound c (evs @ [ev]) m"
  by (auto simp: store_sound_def intro: born_more)

lemma set_map_set: "set (map_set k v m) \<subseteq> insert (k, v) (set m)"
  by (induction k v m rule: map_set.induct) auto

lemma store_sound_set: "store_sound c evs m \<Longrightarrow> born c evs s \<Longrightarrow> store_sound c evs (map_set (as_id s) s m)"
  using set_map_set [of "as_id s" s m] by (fastforce simp: store_sound_def)

lemma store_sound_get: "store_sound c evs m \<Longrightarrow> map_get m i = Some s \<Longrightarrow> as_id s = i \<and> born c evs s"
  by (auto simp: store_sound_def map_get_def dest!: map_of_SomeD)

lemma set_drop_expired: "set (snd (drop_expired nowMs limit m)) \<subseteq> set m"
  by (induction nowMs limit m rule: drop_expired.induct) (auto simp: case_prod_beta Let_def)

lemma store_sound_sub: "store_sound c evs m \<Longrightarrow> set m' \<subseteq> set m \<Longrightarrow> store_sound c evs m'"
  by (auto simp: store_sound_def)

lemma auth_open_sound: "stage_sound c sign evs (cookie, auth_open sign cookie)"
  using parse_signed_genuine by (auto simp: stage_sound_def auth_open_def split: option.splits)

lemma slide_born: "born c evs s \<Longrightarrow> born c evs (slide c nowMs s)"
  by (simp add: born_def slide_def)

lemma auth_fetched_sound:
  assumes "\<forall>s \<in> set_option found. cookie = Some (signSessionId sign (as_id s)) \<and> born c evs s"
  shows "stage_sound c sign evs (cookie, auth_fetched c nowMs found)"
  using assms slide_born [of c evs _ nowMs]
  by (auto simp: stage_sound_def auth_fetched_def accepted_def sessionExpiryMs_def slide_def split: option.splits)

lemma auth_advance_sound:
  assumes "store_sound c evs m" "stage_sound c sign evs (cookie, a)"
  shows "store_sound c evs (snd (auth_advance c nowMs a m)) \<and> stage_sound c sign evs (cookie, fst (auth_advance c nowMs a m))"
proof (cases a)
  case (Reading i)
  then show ?thesis using assms store_sound_get [OF assms(1), of i] by (auto simp: stage_sound_def)
next
  case (Fetched found)
  then show ?thesis using assms auth_fetched_sound [of found cookie sign c evs nowMs] by (auto simp: stage_sound_def)
next
  case (Expiring i)
  then show ?thesis using assms store_sound_sub [OF assms(1)] by (auto simp: stage_sound_def session_delete_def map_delete_def)
next
  case (Touching s)
  then have "accepted c sign evs cookie s" using assms(2) by (simp add: stage_sound_def)
  then show ?thesis using Touching assms(1) store_sound_set [OF assms(1), of s]
    by (auto simp: stage_sound_def session_touch_def accepted_def split: option.splits)
qed (use assms in auto)

lemma auth_move_sound:
  assumes "auth_sound c sign x"
  shows "auth_sound c sign (auth_move c sign ev x)"
proof -
  let ?evs = "fst x @ [ev]" and ?st = "snd x"
  have store: "store_sound c ?evs (au_store ?st)" and calls: "list_all (stage_sound c sign ?evs) (au_calls ?st)"
    using assms by (auto simp: auth_sound_def list_all_iff intro: store_sound_more stage_sound_more)
  show ?thesis
  proof (cases ev)
    case (Login i csrf username t)
    have "born c ?evs (newSession c i csrf username t)" by (simp add: born_def newSession_def Login)
    then show ?thesis using store calls Login store_sound_set [OF store]
      by (simp add: auth_sound_def auth_move_def session_create_def)
  next
    case (Logout i)
    then show ?thesis using calls store_sound_sub [OF store]
      by (auto simp: auth_sound_def auth_move_def session_delete_def map_delete_def)
  next
    case (Arrive cookie)
    then show ?thesis using store calls auth_open_sound by (simp add: auth_sound_def auth_move_def)
  next
    case (Advance k t)
    show ?thesis
    proof (cases "k < length (au_calls ?st)")
      case True
      obtain cookie a where call: "au_calls ?st ! k = (cookie, a)" by fastforce
      then have "stage_sound c sign ?evs (cookie, a)" using calls True by (metis list_all_length)
      from auth_advance_sound [OF store this, of t] show ?thesis
        using True Advance call calls set_update_subset_insert [of "au_calls ?st" k]
        by (fastforce simp: auth_sound_def auth_move_def case_prod_beta Let_def list_all_iff)
    qed (use Advance store calls in \<open>simp add: auth_sound_def auth_move_def\<close>)
  next
    case (Sweep t limit)
    then show ?thesis using calls store_sound_sub [OF store set_drop_expired]
      by (simp add: auth_sound_def auth_move_def deleteExpired_def)
  qed
qed
lemma auth_sound_start: "auth_sound c sign ([], AUTH_START)"
  by (simp add: auth_sound_def AUTH_START_def store_sound_def)

interpretation sessions: invariant_machine "([], AUTH_START)" "auth_move c sign" "auth_sound c sign" for c sign
  by unfold_locales (rule auth_sound_start, rule auth_move_sound)

lemma auth_moves: "fold (auth_move c sign) evs (past, st) = (past @ evs, fold (auth_step c sign) evs st)"
  by (induction evs arbitrary: past st) (simp_all add: auth_move_def)

lemma auth_run_sound: "auth_sound c sign (evs, auth_run c sign evs)"
  using sessions.run_inv [of c sign evs] by (simp add: auth_moves auth_run_def)

text \<open>
  (C13) Nobody is let in without a login, and nobody beyond the absolute lifetime of it. However the
  requests, logins, logouts and sweeps interleave, a request is accepted only with the correctly
  signed cookie of a session that some login of the run created with this user and CSRF token, and
  at an instant before that login plus the absolute lifetime: no amount of activity extends it.
\<close>

theorem admin_session_needs_login:
  "list_all (\<lambda>(cookie, a). \<forall>s. a = Settled (Inr s) \<longrightarrow>
      cookie = Some (signSessionId sign (as_id s)) \<and>
      Login (as_id s) (as_csrfToken s) (as_username s) (as_createdAtMs s) \<in> set evs \<and>
      as_lastSeenAtMs s < as_createdAtMs s + ac_absoluteTtlSeconds c * 1000)
    (au_calls (auth_run c sign evs))"
  using auth_run_sound [of c sign evs]
  by (fastforce simp: auth_sound_def list_all_iff stage_sound_def accepted_def born_def)

definition sample_config :: admin_auth_config where
  "sample_config = DEFAULT_ADMIN_AUTH_CONFIG\<lparr>ac_idleTtlSeconds := 120, ac_absoluteTtlSeconds := 3600, ac_touchIntervalSeconds := 60\<rparr>"

definition sample_sign :: "string \<Rightarrow> string" where
  "sample_sign i = rev i @ ''x''"

definition call_at :: "nat \<Rightarrow> instant \<Rightarrow> string \<Rightarrow> auth_event list" where
  "call_at k t i = [Arrive (Some (signSessionId sample_sign i)), Advance k t, Advance k t, Advance k t]"

theorem admin_session_needs_login_witness:
  "\<exists>s. map snd (au_calls (auth_run sample_config sample_sign
        ([Login ''id'' ''csrf'' ''ops'' 0] @ call_at 0 90000 ''id'' @ call_at 1 5000000 ''id''))) =
      [Settled (Inr s), Settled (Inl SessionExpired)] \<and>
    as_lastSeenAtMs s < as_createdAtMs s + 3600000"
proof -
  let ?evs = "[Login ''id'' ''csrf'' ''ops'' 0] @ call_at 0 90000 ''id'' @ call_at 1 5000000 ''id''"
  have run: "map snd (au_calls (auth_run sample_config sample_sign ?evs)) =
      [Settled (Inr (slide sample_config 90000 (newSession sample_config ''id'' ''csrf'' ''ops'' 0))), Settled (Inl SessionExpired)]"
    by code_simp
  then have "(fst (au_calls (auth_run sample_config sample_sign ?evs) ! 0),
      Settled (Inr (slide sample_config 90000 (newSession sample_config ''id'' ''csrf'' ''ops'' 0))))
      \<in> set (au_calls (auth_run sample_config sample_sign ?evs))"
    by (auto simp: map_eq_Cons_conv)
  then show ?thesis
    using run admin_session_needs_login [of sample_sign ?evs sample_config] by (fastforce simp: list_all_iff sample_config_def)
qed
subsection \<open>Logout\<close>

text \<open>A session that is gone: not stored, and no call outside the exempt ones can still be let in as it.\<close>

definition muted :: "string \<Rightarrow> auth_stage \<Rightarrow> bool" where
  "muted i a \<longleftrightarrow>
     (case a of
        Fetched found \<Rightarrow> (\<forall>s \<in> set_option found. as_id s \<noteq> i)
      | Settled r \<Rightarrow> (\<forall>s. r = Inr s \<longrightarrow> as_id s \<noteq> i)
      | _ \<Rightarrow> True)"

definition keyed_by_id :: "session_store \<Rightarrow> bool" where
  "keyed_by_id m \<longleftrightarrow> (\<forall>(j, s) \<in> set m. as_id s = j)"

definition gone :: "string \<Rightarrow> (nat \<Rightarrow> bool) \<Rightarrow> auth_state \<Rightarrow> bool" where
  "gone i exempt st \<longleftrightarrow>
     map_get (au_store st) i = None \<and> keyed_by_id (au_store st) \<and>
     (\<forall>k < length (au_calls st). exempt k \<or> muted i (snd (au_calls st ! k)))"

lemma keyed_by_id_set: "keyed_by_id m \<Longrightarrow> keyed_by_id (map_set (as_id s) s m)"
  using set_map_set [of "as_id s" s m] by (fastforce simp: keyed_by_id_def)

lemma keyed_by_id_get: "keyed_by_id m \<Longrightarrow> map_get m j = Some s \<Longrightarrow> as_id s = j"
  by (auto simp: keyed_by_id_def map_get_def dest!: map_of_SomeD)

lemma keyed_by_id_sub: "keyed_by_id m \<Longrightarrow> set m' \<subseteq> set m \<Longrightarrow> keyed_by_id m'"
  by (auto simp: keyed_by_id_def)

lemma absent_sub: "map_get m i = None \<Longrightarrow> set m' \<subseteq> set m \<Longrightarrow> map_get m' i = None"
  by (auto simp: map_get_def map_of_eq_None_iff)

lemma muted_open: "muted i (auth_open sign cookie)"
  by (auto simp: muted_def auth_open_def split: option.splits)

lemma muted_fetched: "\<forall>s \<in> set_option found. as_id s \<noteq> i \<Longrightarrow> muted i (auth_fetched c nowMs found)"
  by (auto simp: muted_def auth_fetched_def slide_def split: option.splits)

lemma gone_advance:
  assumes "map_get m i = None" "keyed_by_id m"
  shows "map_get (snd (auth_advance c nowMs a m)) i = None \<and> keyed_by_id (snd (auth_advance c nowMs a m)) \<and>
    (muted i a \<longrightarrow> muted i (fst (auth_advance c nowMs a m)))"
proof (cases a)
  case (Reading j)
  then show ?thesis using assms keyed_by_id_get [OF assms(2), of j] by (auto simp: muted_def)
next
  case (Fetched found)
  then show ?thesis using assms muted_fetched [of found i c nowMs] by (auto simp: muted_def)
next
  case (Expiring j)
  then show ?thesis using assms keyed_by_id_sub [OF assms(2)] by (auto simp: muted_def session_delete_def map_delete_def [of j m] map_get_def map_of_eq_None_iff)
next
  case (Touching s)
  then show ?thesis using assms keyed_by_id_set [OF assms(2), of s] by (auto simp: muted_def session_touch_def split: option.splits)
qed (use assms in auto)

lemma gone_step:
  assumes "\<forall>csrf username t. ev \<noteq> Login i csrf username t" "gone i exempt st"
  shows "gone i exempt (auth_step c sign ev st)"
proof -
  have absent: "map_get (au_store st) i = None" and keyed: "keyed_by_id (au_store st)"
    and calls: "\<And>k. k < length (au_calls st) \<Longrightarrow> exempt k \<or> muted i (snd (au_calls st ! k))"
    using assms(2) by (auto simp: gone_def keyed_by_id_def)
  show ?thesis
  proof (cases ev)
    case (Login j csrf username t)
    then have "j \<noteq> i" using assms(1) by blast
    then show ?thesis using Login absent calls keyed_by_id_set [OF keyed, of "newSession c j csrf username t"]
      by (auto simp: gone_def session_create_def newSession_def keyed_by_id_def)
  next
    case (Logout j)
    then show ?thesis using absent calls keyed by (auto simp: gone_def session_delete_def keyed_by_id_def map_delete_in)
  next
    case (Arrive cookie)
    then show ?thesis using absent calls keyed muted_open by (auto simp: gone_def keyed_by_id_def nth_append less_Suc_eq)
  next
    case (Advance k t)
    show ?thesis
    proof (cases "k < length (au_calls st)")
      case True
      obtain cookie a where call: "au_calls st ! k = (cookie, a)" by fastforce
      note next_stage = gone_advance [OF absent keyed, of c t a]
      have "exempt k \<or> muted i a" using calls [OF True] call by simp
      then show ?thesis using True Advance call next_stage calls
        by (auto simp: gone_def keyed_by_id_def case_prod_beta Let_def nth_list_update)
    qed (use Advance assms(2) in simp)
  next
    case (Sweep t limit)
    then show ?thesis
      using calls absent_sub [OF absent set_drop_expired] keyed_by_id_sub [OF keyed set_drop_expired]
      by (auto simp: gone_def deleteExpired_def keyed_by_id_def)
  qed
qed
interpretation logged_out: kept_machine "auth_step c sign" "\<lambda>ev. \<forall>csrf username t. ev \<noteq> Login i csrf username t" "gone i exempt"
  for c sign i exempt
  by unfold_locales (rule gone_step)

definition read_before :: "string \<Rightarrow> auth_stage \<Rightarrow> bool" where
  "read_before i a \<longleftrightarrow> \<not> muted i a"

lemma gone_logout:
  assumes "keyed_by_id (au_store st)"
  shows "gone i (\<lambda>k. k < length (au_calls st) \<and> read_before i (snd (au_calls st ! k))) (auth_step c sign (Logout i) st)"
  using assms by (auto simp: gone_def read_before_def session_delete_def keyed_by_id_def map_delete_in)

text \<open>
  (C12) Logout is final. After it, and until a login mints the same id again, the session is never
  stored, whatever touches, expiries and sweeps of other requests were under way; and a request is
  let in as it only if its own read of the store had been answered before the logout.
\<close>

theorem logout_is_final:
  assumes "list_all (\<lambda>ev. \<forall>csrf username t. ev \<noteq> Login i csrf username t) later"
  shows "let before = auth_run c sign earlier; now = auth_run c sign (earlier @ Logout i # later)
   in map_get (au_store now) i = None \<and>
    (\<forall>k < length (au_calls now). \<forall>s. snd (au_calls now ! k) = Settled (Inr s) \<and> as_id s = i \<longrightarrow>
      k < length (au_calls before) \<and> read_before i (snd (au_calls before ! k)))"
proof -
  define before where "before = auth_run c sign earlier"
  define now where "now = auth_run c sign (earlier @ Logout i # later)"
  have "keyed_by_id (au_store before)"
    using auth_run_sound [of c sign earlier] by (auto simp: before_def auth_sound_def store_sound_def keyed_by_id_def)
  from logged_out.run_kept [OF assms(1) gone_logout [OF this, of i c sign], of c sign]
  have "gone i (\<lambda>k. k < length (au_calls before) \<and> read_before i (snd (au_calls before ! k))) now"
    by (simp add: now_def before_def auth_run_def)
  then show ?thesis unfolding Let_def before_def [symmetric] now_def [symmetric] by (auto simp: gone_def muted_def)
qed

theorem logout_is_final_witness:
  "map snd (au_calls (auth_run sample_config sample_sign
      (([Login ''id'' ''csrf'' ''ops'' 0, Arrive (Some (signSessionId sample_sign ''id'')), Advance 0 70000, Advance 0 70000])
        @ Logout ''id'' # [Advance 0 70000]))) = [Settled (Inl NotAuthenticated)] \<and>
   map_get (au_store (auth_run sample_config sample_sign
      (([Login ''id'' ''csrf'' ''ops'' 0, Arrive (Some (signSessionId sample_sign ''id'')), Advance 0 70000, Advance 0 70000])
        @ Logout ''id'' # [Advance 0 70000]))) ''id'' = None"
proof
  show "map_get (au_store (auth_run sample_config sample_sign
      (([Login ''id'' ''csrf'' ''ops'' 0, Arrive (Some (signSessionId sample_sign ''id'')), Advance 0 70000, Advance 0 70000])
        @ Logout ''id'' # [Advance 0 70000]))) ''id'' = None"
    by (rule conjunct1 [OF logout_is_final [unfolded Let_def]]) simp
qed code_simp

section \<open>The idle window\<close>

text \<open>The three steps of a request that meets no other.\<close>

lemma authenticate_alt:
  "authenticate c sign cookie nowMs m =
    (case auth_open sign cookie of
       Reading i \<Rightarrow> auth_advance c nowMs (auth_fetched c nowMs (map_get m i)) m
     | a \<Rightarrow> (a, m))"
  by (auto simp: authenticate_def auth_open_def split: option.splits)

lemma authenticate_signed:
  assumes "parseSignedSessionId sign v = Some i" "map_get m i = Some s" "nowMs < sessionExpiryMs s" "as_id s = i"
  shows "authenticate c sign (Some v) nowMs m =
    (Settled (Inr (slide c nowMs s)),
     if ac_touchIntervalSeconds c * 1000 \<le> nowMs - as_lastSeenAtMs s then map_set i (slide c nowMs s) m else m)"
  using assms
  by (auto simp: authenticate_alt auth_open_def auth_fetched_def session_touch_def slide_def parseSignedSessionId_def)

lemma authenticate_accepts:
  assumes "fst (authenticate c sign (Some v) nowMs m) = Settled (Inr s)"
  shows "\<exists>i s0. parseSignedSessionId sign v = Some i \<and> map_get m i = Some s0 \<and> nowMs < sessionExpiryMs s0 \<and>
    s = slide c nowMs s0"
proof -
  obtain i where i: "parseSignedSessionId sign v = Some i"
    using assms by (auto simp: authenticate_alt auth_open_def split: option.splits if_splits)
  then have "v \<noteq> []" by (auto simp: parseSignedSessionId_def)
  with i assms show ?thesis
    by (auto simp: authenticate_alt auth_open_def auth_fetched_def session_touch_def split: option.splits if_splits)
qed

text \<open>
  The idle window holds up to the touch interval. When, after any run, a request is accepted at \<open>t\<close>, one
  with the same cookie is accepted at every later instant before both \<open>t\<close> plus the idle lifetime less
  the touch interval, and the absolute expiry, if nothing else happened to the session in between.
\<close>

theorem active_session_stays_alive:
  assumes "m = au_store (auth_run c sign evs)" and "0 \<le> ac_touchIntervalSeconds c"
    and "authenticate c sign (Some v) t m = (Settled (Inr s), m1)"
    and "map_get m2 (as_id s) = map_get m1 (as_id s)"
    and "t \<le> t'" and "t' < t + (ac_idleTtlSeconds c - ac_touchIntervalSeconds c) * 1000" and "t' < as_absoluteExpiryMs s"
  shows "fst (authenticate c sign (Some v) t' m2) = Settled (Inr (slide c t' s))"
proof -
  obtain i s0 where s0: "parseSignedSessionId sign v = Some i" "map_get m i = Some s0" "t < sessionExpiryMs s0" "s = slide c t s0"
    using authenticate_accepts [of c sign v t m s] assms(3) by auto
  have sound: "store_sound c evs m" using auth_run_sound [of c sign evs] assms(1) by (simp add: auth_sound_def)
  have "as_id s0 = i" and born: "born c evs s0" using store_sound_get [OF sound s0(2)] by auto
  note first = authenticate_signed [OF s0(1,2,3) \<open>as_id s0 = i\<close>, of c]
  let ?touched = "ac_touchIntervalSeconds c * 1000 \<le> t - as_lastSeenAtMs s0"
  have id: "as_id s = i" using s0(4) \<open>as_id s0 = i\<close> by (simp add: slide_def)
  have stored: "map_get m2 i = Some (if ?touched then s else s0)"
    using first assms(3,4) id s0(2,4) by (auto split: if_splits)
  have live: "t' < sessionExpiryMs (if ?touched then s else s0)"
    using born assms(2,5,6,7) s0(4) by (auto simp: born_def sessionExpiryMs_def slide_def algebra_simps)
  have "as_id (if ?touched then s else s0) = i" using id \<open>as_id s0 = i\<close> by simp
  from authenticate_signed [OF s0(1) stored live this, of c] show ?thesis using s0(4) by (simp add: slide_def)
qed

theorem active_session_stays_alive_witness:
  "fst (authenticate sample_config sample_sign (Some (signSessionId sample_sign ''id'')) 118000
      [(''id'', newSession sample_config ''id'' ''csrf'' ''ops'' 0)]) =
   Settled (Inr (slide sample_config 118000 (newSession sample_config ''id'' ''csrf'' ''ops'' 0)))"
proof -
  let ?s = "newSession sample_config ''id'' ''csrf'' ''ops'' 0"
  have ok: "[(''id'', ?s)] = au_store (auth_run sample_config sample_sign [Login ''id'' ''csrf'' ''ops'' 0])" by code_simp
  have first: "authenticate sample_config sample_sign (Some (signSessionId sample_sign ''id'')) 59000 [(''id'', ?s)] =
      (Settled (Inr (slide sample_config 59000 ?s)), [(''id'', ?s)])" by code_simp
  have "fst (authenticate sample_config sample_sign (Some (signSessionId sample_sign ''id'')) 118000 [(''id'', ?s)]) =
      Settled (Inr (slide sample_config 118000 (slide sample_config 59000 ?s)))"
    by (rule active_session_stays_alive [OF ok _ first])
      (simp_all add: sample_config_def DEFAULT_ADMIN_AUTH_CONFIG_def adminAuthConfigFromEnv_def DEFAULT_ADMIN_AUTH_ENV_def
        newSession_def slide_def map_get_def)
  then show ?thesis by (simp add: slide_def)
qed

text \<open>
  The persisted row lags, and the session does expire early because of it: with an idle lifetime
  of 120 seconds and a touch interval of 60, a session last used at 59 seconds is refused as expired
  at 120 seconds, 61 seconds after its last use.
\<close>

theorem coalesced_touch_expires_early:
  "let m = session_create (newSession sample_config ''id'' ''csrf'' ''ops'' 0) [];
       cookie = Some (signSessionId sample_sign ''id'');
       (first, m1) = authenticate sample_config sample_sign cookie 59000 m
   in (\<exists>s. first = Settled (Inr s) \<and> sessionExpiryMs s = 179000) \<and>
      fst (authenticate sample_config sample_sign cookie 120000 m1) = Settled (Inl SessionExpired)"
proof -
  let ?s = "newSession sample_config ''id'' ''csrf'' ''ops'' 0"
  have "authenticate sample_config sample_sign (Some (signSessionId sample_sign ''id'')) 59000 (session_create ?s []) =
      (Settled (Inr (slide sample_config 59000 ?s)), [(''id'', ?s)])" by code_simp
  moreover have "sessionExpiryMs (slide sample_config 59000 ?s) = 179000" by code_simp
  moreover have "fst (authenticate sample_config sample_sign (Some (signSessionId sample_sign ''id'')) 120000 [(''id'', ?s)]) =
      Settled (Inl SessionExpired)" by code_simp
  ultimately show ?thesis by simp
qed

section \<open>Two planes\<close>

lemma bearer_shown: "bearerToken authorization = Some k \<Longrightarrow>
    \<exists>a rest. authorization = Some a \<and> after_bearer a = Some rest \<and> js_trim rest = k"
  by (auto simp: bearerToken_def Let_def split: option.splits if_splits)

text \<open>
  (C14) The credential planes are disjoint: a request whose headers present a router key to the data
  plane is refused by the admin guard, whatever operator token is configured, whatever cookie it
  carries and whatever session that would resolve to.
\<close>

theorem router_key_never_admin:
  assumes "presentedRouterKey (rq_authorization rq) (rq_apiKey rq) = Inr k" and "isRouterKey k"
  shows "adminAuth apiToken rq authenticated = Inl RouterKeyRejected"
proof -
  have k: "take (length ROUTER_KEY_PREFIX) k = ROUTER_KEY_PREFIX" using assms(2) by (auto simp: isRouterKey_iff)
  consider "bearerToken (rq_authorization rq) = Some k" | a where "rq_apiKey rq = Some a" "js_trim a = k"
    using assms(1) by (auto simp: presentedRouterKey_def Let_def split: option.splits if_splits)
  then have "presentsRouterKey (rq_authorization rq) (rq_apiKey rq)"
  proof cases
    case 1
    then show ?thesis using bearer_shown [OF 1] k by (auto simp: presentsRouterKey_def looksLikeRouterKey_def)
  qed (use k in \<open>simp add: presentsRouterKey_def looksLikeRouterKey_def\<close>)
  then show ?thesis by (simp add: adminAuth_def)
qed

theorem router_key_never_admin_witness:
  "adminAuth (Some (''Bearer '' @ replicate 40 CHR ''t''))
     \<lparr>rq_method = ''GET'', rq_authorization = Some (''bearer  mar_live_'' @ replicate 32 CHR ''A''), rq_apiKey = None,
      rq_cookie = Some ''id.x'', rq_csrf = None\<rparr>
     (\<lambda>_. Inr (newSession sample_config ''id'' ''csrf'' ''ops'' 0)) = Inl RouterKeyRejected"
proof (rule router_key_never_admin)
  let ?rq = "\<lparr>rq_method = ''GET'', rq_authorization = Some (''bearer  mar_live_'' @ replicate 32 CHR ''A''), rq_apiKey = None,
      rq_cookie = Some ''id.x'', rq_csrf = None\<rparr>"
  show "presentedRouterKey (rq_authorization ?rq) (rq_apiKey ?rq) = Inr (''mar_live_'' @ replicate 32 CHR ''A'')" by code_simp
  show "isRouterKey (''mar_live_'' @ replicate 32 CHR ''A'')"
  proof -
    have "CHR ''A'' \<in> set KEY_CLASS" by code_simp
    then show ?thesis by (simp add: isRouterKey_iff ROUTER_KEY_PREFIX_def ROUTER_KEY_RANDOM_LENGTH_def)
  qed
qed

end
