(* ===== verification/Js_Number.thy ===== *)
theory Js_Number
  imports Js_Text
begin

text \<open>
  JavaScript's \<open>Number\<close> of a string: its grammar, on exact rationals. A literal at or beyond the largest
  double plus half an ulp is infinite; the rounding of smaller ones is not modelled.
\<close>

section \<open>\<open>Number\<close> of a string\<close>

definition is_digit :: "char \<Rightarrow> bool" where
  "is_digit c \<longleftrightarrow> c \<in> set ''0123456789''"

definition digit_value :: "char \<Rightarrow> nat" where
  "digit_value c = of_char c - 48"

definition digits_value :: "string \<Rightarrow> nat" where
  "digits_value s = foldl (\<lambda>n c. 10 * n + digit_value c) 0 s"

definition OVERFLOW :: rat where "OVERFLOW = 2 ^ 1024 - 2 ^ 970"

definition to_double :: "rat \<Rightarrow> js_number" where
  "to_double x = (if OVERFLOW \<le> x then PosInf else if x \<le> - OVERFLOW then NegInf else Fin x)"

text \<open>The value of digits, a point and digits.\<close>

definition fixed_value :: "string \<Rightarrow> string \<Rightarrow> rat" where
  "fixed_value whole decs = of_nat (digits_value (whole @ decs)) / 10 ^ length decs"

fun exponent :: "string \<Rightarrow> rat option" where
  "exponent [] = Some 1"
| "exponent (c # s) =
     (if c \<notin> set ''eE'' then None
      else
        let (neg, ds) = (case s of d # ds \<Rightarrow> if d = CHR ''-'' then (True, ds) else if d = CHR ''+'' then (False, ds) else (False, s) | [] \<Rightarrow> (False, s))
        in if ds = [] \<or> \<not> list_all is_digit ds then None
           else Some (if neg then 1 / 10 ^ digits_value ds else 10 ^ digits_value ds))"

definition unsigned_decimal :: "string \<Rightarrow> rat option" where
  "unsigned_decimal s =
     (let whole = takeWhile is_digit s; rest = dropWhile is_digit s;
          pointed = rest \<noteq> [] \<and> hd rest = CHR ''.'';
          decs = (if pointed then takeWhile is_digit (tl rest) else []);
          rest = (if pointed then dropWhile is_digit (tl rest) else rest)
      in if whole = [] \<and> decs = [] then None
         else map_option (\<lambda>e. fixed_value whole decs * e) (exponent rest))"

definition radix_digits :: "nat \<Rightarrow> string" where
  "radix_digits b = (if b = 2 then ''01'' else if b = 8 then ''01234567'' else ''0123456789abcdef'')"

definition radix_value :: "nat \<Rightarrow> string \<Rightarrow> rat option" where
  "radix_value b s =
     (let s = map lower_char s
      in if s = [] \<or> \<not> list_all (\<lambda>c. c \<in> set (radix_digits b)) s then None
         else Some (of_nat (foldl (\<lambda>n c. b * n + length (takeWhile (\<lambda>d. d \<noteq> c) (radix_digits b))) 0 s)))"

definition radix_of :: "string \<Rightarrow> nat option" where
  "radix_of s =
     (case s of
        z # r # _ \<Rightarrow>
          if z \<noteq> CHR ''0'' then None
          else if r \<in> set ''xX'' then Some 16 else if r \<in> set ''oO'' then Some 8 else if r \<in> set ''bB'' then Some 2 else None
      | _ \<Rightarrow> None)"

definition js_Number :: "string \<Rightarrow> js_number" where
  "js_Number s =
     (let s = js_trim s;
          number = (\<lambda>v. case v of None \<Rightarrow> NaN | Some x \<Rightarrow> to_double x);
          neg = s \<noteq> [] \<and> hd s = CHR ''-'';
          unsigned = (if s \<noteq> [] \<and> hd s \<in> set ''+-'' then tl s else s)
      in if s = [] then Fin 0
         else case radix_of s of
                Some b \<Rightarrow> number (radix_value b (drop 2 s))
              | None \<Rightarrow>
                  if unsigned = ''Infinity'' then (if neg then NegInf else PosInf)
                  else number (map_option (\<lambda>x. if neg then - x else x) (unsigned_decimal unsigned)))"

definition is_finite :: "js_number \<Rightarrow> bool" where
  "is_finite x = (case x of Fin _ \<Rightarrow> True | _ \<Rightarrow> False)"

section \<open>Decimal texts\<close>

lemma digit_is_digit: "d < 10 \<Longrightarrow> is_digit (digit d)"
proof -
  assume "d < 10"
  then have "d \<in> set [0..<10]" by simp
  moreover have "list_all (\<lambda>d. is_digit (digit d)) [0..<10]" by code_simp
  ultimately show ?thesis by (simp only: list_all_iff)
qed

lemma digit_value_digit: "d < 10 \<Longrightarrow> digit_value (digit d) = d"
  by (simp add: digit_value_def digit_def)

lemma digits_value_snoc: "digits_value (s @ [c]) = 10 * digits_value s + digit_value c"
  by (simp add: digits_value_def)

lemma show_nat_nonempty: "show_nat n \<noteq> []"
  by (subst show_nat.simps) simp

lemma show_nat_digits: "list_all is_digit (show_nat n)"
proof (induction n rule: show_nat.induct)
  case (1 n)
  then show ?case by (subst show_nat.simps) (simp add: digit_is_digit)
qed

lemma digits_value_show: "digits_value (show_nat n) = n"
proof (induction n rule: show_nat.induct)
  case (1 n)
  show ?case
  proof (cases "n < 10")
    case True
    then show ?thesis by (subst show_nat.simps) (simp add: digits_value_def digit_value_digit)
  next
    case False
    then have "digits_value (show_nat n) = 10 * (n div 10) + n mod 10"
      using 1 by (subst show_nat.simps) (simp add: digits_value_snoc digit_value_digit)
    then show ?thesis by simp
  qed
qed

text \<open>Digits followed by something else are read to the last of them.\<close>

lemma digits_then:
  assumes "list_all is_digit ds" "r = [] \<or> \<not> is_digit (hd r)"
  shows "takeWhile is_digit (ds @ r) = ds" "dropWhile is_digit (ds @ r) = r"
  using assms by (induction ds) (cases r; auto)+

lemma fixed_value_show: "fixed_value (show_nat n) [] = of_nat n"
  by (simp add: fixed_value_def digits_value_show)

lemma digit_kinds: "is_digit c \<Longrightarrow> \<not> is_space c \<and> c \<notin> set ''+-xXoObB.I''"
proof -
  assume "is_digit c"
  moreover have "list_all (\<lambda>c. \<not> is_space c \<and> c \<notin> set ''+-xXoObB.I'') ''0123456789''" by code_simp
  ultimately show ?thesis unfolding is_digit_def list_all_iff by (rule bspec [rotated])
qed

lemma trim_digits:
  assumes "list_all is_digit ds" "ds \<noteq> []"
  shows "js_trim ds = ds"
proof (rule js_trim_nonspace)
  have "is_digit (hd ds)" "is_digit (last ds)" using assms by (simp_all add: list_all_iff)
  then show "\<not> is_space (hd ds)" "\<not> is_space (last ds)" using digit_kinds by blast+
qed (rule assms(2))

lemma js_Number_show: "js_Number (show_nat n) = to_double (of_nat n)"
proof -
  note ds = show_nat_digits [of n] show_nat_nonempty [of n]
  have hd: "is_digit (hd (show_nat n))" using ds by (simp add: list_all_iff)
  then have sign: "hd (show_nat n) \<notin> set ''+-''" "hd (show_nat n) \<noteq> CHR ''I''" using digit_kinds by auto
  have radix: "radix_of (show_nat n) = None"
  proof (cases "show_nat n")
    case (Cons z s)
    then show ?thesis
    proof (cases s)
      case (Cons r t)
      then have "is_digit r" using ds(1) \<open>show_nat n = z # s\<close> by simp
      then have "r \<notin> set ''xXoObB''" using digit_kinds by auto
      then show ?thesis using Cons \<open>show_nat n = z # s\<close> by (simp add: radix_of_def)
    qed (simp add: radix_of_def)
  qed (use ds in simp)
  have whole: "takeWhile is_digit (show_nat n) = show_nat n" and rest: "dropWhile is_digit (show_nat n) = []"
    using digits_then [OF ds(1), of "[]"] unfolding append_Nil2 by blast+
  have "unsigned_decimal (show_nat n) = Some (of_nat n)"
    using ds(2) by (simp add: unsigned_decimal_def whole rest fixed_value_show Let_def)
  moreover have "show_nat n \<noteq> ''Infinity''" using sign(2) by auto
  ultimately show ?thesis using ds sign radix by (simp add: js_Number_def trim_digits Let_def)
qed

end
