(* ===== verification/Rate_Limit_Headers.thy ===== *)
theory Rate_Limit_Headers
  imports Chain_Error Js_Number Js_Sort Js_Map
begin

text \<open>
  Rate-limit headers of an upstream response, normalized (\<open>providers/rate-limit/duration.ts\<close> and
  \<open>providers/rate-limit/parse.ts\<close>). Headers are lower-case names with their values, in iteration order.
  \<open>Date.parse\<close> beyond ISO strings and \<open>localeCompare\<close> are the implementation's: they are the arguments
  \<open>date_parse\<close> and \<open>collate\<close>.
\<close>

section \<open>Durations and instants (\<open>duration.ts\<close>)\<close>

datatype duration_unit = UnitMs | UnitS | UnitM | UnitH | UnitD

fun UNIT_SECONDS :: "duration_unit \<Rightarrow> rat" where
  "UNIT_SECONDS UnitMs = 1 / 1000"
| "UNIT_SECONDS UnitS = 1"
| "UNIT_SECONDS UnitM = 60"
| "UNIT_SECONDS UnitH = 3600"
| "UNIT_SECONDS UnitD = 86400"

text \<open>The alternatives \<open>ms|s|m|h|d\<close>, in this order, with what follows.\<close>

definition unit_at :: "string \<Rightarrow> (duration_unit \<times> string) option" where
  "unit_at s =
     (if take 2 s = ''ms'' then Some (UnitMs, drop 2 s)
      else if take 1 s = ''s'' then Some (UnitS, drop 1 s)
      else if take 1 s = ''m'' then Some (UnitM, drop 1 s)
      else if take 1 s = ''h'' then Some (UnitH, drop 1 s)
      else if take 1 s = ''d'' then Some (UnitD, drop 1 s) else None)"

text \<open>
  \<open>\d+(?:\.\d+)?\<close> at the start: its digits, the digits behind the point, the rest. Taking fewer digits never
  helps what follows it here (a unit or the end), so the longest match is the match.
\<close>

definition amount_at :: "string \<Rightarrow> (string \<times> string \<times> string) option" where
  "amount_at s =
     (let whole = takeWhile is_digit s; rest = dropWhile is_digit s
      in if whole = [] then None
         else if rest \<noteq> [] \<and> hd rest = CHR ''.'' \<and> takeWhile is_digit (tl rest) \<noteq> []
              then Some (whole, takeWhile is_digit (tl rest), dropWhile is_digit (tl rest))
              else Some (whole, [], rest))"

text \<open>\<open>DURATION_PART\<close> at the start: amount, unit, rest.\<close>

definition part_at :: "string \<Rightarrow> (rat \<times> duration_unit \<times> string) option" where
  "part_at s =
     (case amount_at s of
        None \<Rightarrow> None
      | Some (whole, decs, rest) \<Rightarrow>
          (case unit_at rest of
             Some (u, rest) \<Rightarrow> Some (fixed_value whole decs, u, rest)
           | None \<Rightarrow> None))"

text \<open>The next match of \<open>matchAll\<close>: how many code units it skips, and the part.\<close>

fun next_part :: "string \<Rightarrow> (nat \<times> rat \<times> duration_unit \<times> string) option" where
  "next_part [] = None"
| "next_part (c # s) =
     (case part_at (c # s) of
        Some p \<Rightarrow> Some (0, p)
      | None \<Rightarrow> map_option (\<lambda>(k, p). (Suc k, p)) (next_part s))"

text \<open>The loop over the matches: \<open>None\<close> is the early \<open>return null\<close>, otherwise total, \<open>matched\<close> and the rest.\<close>

function duration_loop :: "rat \<Rightarrow> bool \<Rightarrow> string \<Rightarrow> (rat \<times> bool \<times> string) option" where
  "duration_loop acc matched s =
     (case next_part s of
        None \<Rightarrow> Some (acc, matched, s)
      | Some (k, amount, u, rest) \<Rightarrow>
          if k \<noteq> 0 then None
          else if is_finite (to_double amount) then duration_loop (acc + amount * UNIT_SECONDS u) True rest
          else duration_loop acc matched rest)"
  by auto

lemma unit_at_shorter: "unit_at s = Some (u, r) \<Longrightarrow> length r < length s"
  by (cases s) (auto simp: unit_at_def split: if_splits)

lemma amount_at_shorter: "amount_at s = Some (w, f, r) \<Longrightarrow> length r < length s"
proof -
  assume *: "amount_at s = Some (w, f, r)"
  have w: "length (dropWhile is_digit s) + length (takeWhile is_digit s) = length s"
    by (metis add.commute length_append takeWhile_dropWhile_id)
  then have lt: "length (dropWhile is_digit s) < length s" if "takeWhile is_digit s \<noteq> []"
    using that by (cases "takeWhile is_digit s") auto
  have "length (dropWhile is_digit x) \<le> length x" for x by (simp add: length_dropWhile_le)
  then have "length (dropWhile is_digit (tl (dropWhile is_digit s))) \<le> length (dropWhile is_digit s)"
    by (metis diff_le_self le_trans length_tl)
  then show ?thesis using * lt by (fastforce simp: amount_at_def Let_def split: if_splits)
qed

lemma part_at_shorter: "part_at s = Some (a, u, r) \<Longrightarrow> length r < length s"
  using amount_at_shorter unit_at_shorter by (fastforce simp: part_at_def split: option.splits prod.splits)

lemma next_part_shorter: "next_part s = Some (k, a, u, r) \<Longrightarrow> length r < length s"
proof (induction s arbitrary: k)
  case (Cons c s)
  then show ?case using part_at_shorter [of "c # s" a u r]
    by (cases "part_at (c # s)") (auto simp: less_SucI)
qed simp

termination duration_loop
  by (relation "measure (\<lambda>(_, _, s). length s)") (auto dest: next_part_shorter)

definition parseDurationSeconds :: "string \<Rightarrow> rat option" where
  "parseDurationSeconds v =
     (let t = js_trim v
      in if t = [] then None
         else case duration_loop 0 False t of
                None \<Rightarrow> None
              | Some (acc, matched, rest) \<Rightarrow>
                  if matched then (if rest = [] \<and> is_finite (to_double acc) then Some acc else None)
                  else case amount_at t of
                         Some (whole, decs, []) \<Rightarrow>
                           (if is_finite (to_double (fixed_value whole decs)) then Some (fixed_value whole decs) else None)
                       | _ \<Rightarrow> None)"
text \<open>\<open>new Date(ms)\<close>.\<close>

definition date_of :: "rat \<Rightarrow> js_date" where
  "date_of ms = (if \<bar>ms\<bar> \<le> MAX_TIME_VALUE then Instant (js_trunc ms) else InvalidDate)"

definition EPOCH_MILLIS_FLOOR :: rat where "EPOCH_MILLIS_FLOOR = 100000000000"
definition EPOCH_SECONDS_FLOOR :: rat where "EPOCH_SECONDS_FLOOR = 1000000000"
definition EPOCH_SECONDS_CEILING_MS :: instant where "EPOCH_SECONDS_CEILING_MS = 7 * 86400000"

text \<open>\<open>Date.parse\<close> answers an instant or \<open>NaN\<close>.\<close>

definition parseInstant :: "(string \<Rightarrow> instant option) \<Rightarrow> string \<Rightarrow> instant option" where
  "parseInstant date_parse v = date_parse (js_trim v)"

definition parseEpochMillis :: "string \<Rightarrow> js_date option" where
  "parseEpochMillis v =
     (let t = js_trim v
      in if t = [] \<or> \<not> list_all is_digit t then None
         else case to_double (of_nat (digits_value t)) of
                Fin ms \<Rightarrow> if ms < EPOCH_MILLIS_FLOOR then None else Some (date_of ms)
              | _ \<Rightarrow> None)"

text \<open>The number of a text of the form \<open>\d+(?:\.\d+)?\<close>.\<close>

definition plain_number :: "string \<Rightarrow> js_number option" where
  "plain_number t = (case amount_at t of Some (whole, decs, []) \<Rightarrow> Some (to_double (fixed_value whole decs)) | _ \<Rightarrow> None)"

definition isEpochSeconds :: "string \<Rightarrow> bool" where
  "isEpochSeconds v =
     (case plain_number (js_trim v) of
        Some (Fin s) \<Rightarrow> EPOCH_SECONDS_FLOOR \<le> s \<and> s < EPOCH_MILLIS_FLOOR
      | _ \<Rightarrow> False)"

definition parseEpochSeconds :: "string \<Rightarrow> instant option \<Rightarrow> js_date option" where
  "parseEpochSeconds v reference =
     (case (plain_number (js_trim v), reference) of
        (Some (Fin s), Some now) \<Rightarrow>
          (if isEpochSeconds v then Some (date_of (min (s * 1000) (of_int (now + EPOCH_SECONDS_CEILING_MS)))) else None)
      | _ \<Rightarrow> None)"

section \<open>Headers (\<open>parse.ts\<close>)\<close>

type_synonym headers = "(string \<times> string) list"

record 'b upstream_response =
  ur_status :: int
  ur_headers :: headers
  ur_body :: "'b option"

datatype limit_field = FieldLimit | FieldRemaining | FieldReset

fun field_name :: "limit_field \<Rightarrow> string" where
  "field_name FieldLimit = ''limit''"
| "field_name FieldRemaining = ''remaining''"
| "field_name FieldReset = ''reset''"

definition FIELDS :: "limit_field list" where "FIELDS = [FieldLimit, FieldRemaining, FieldReset]"

definition line_end :: "char \<Rightarrow> bool" where
  "line_end c \<longleftrightarrow> c \<in> {CHR 0x0A, CHR 0x0D}"

text \<open>\<open>^anthropic-ratelimit-(.+)-(limit|remaining|reset)$\<close>: the limiter and the field.\<close>

definition ANTHROPIC_HEADER :: "string \<Rightarrow> (string \<times> limit_field) option" where
  "ANTHROPIC_HEADER name =
     (let pre = ''anthropic-ratelimit-''
      in if take (length pre) name \<noteq> pre then None
         else
           let rest = drop (length pre) name;
               limiter = (\<lambda>f. take (length rest - length (field_name f) - 1) rest)
           in map_option (\<lambda>f. (limiter f, f))
                (find (\<lambda>f. limiter f \<noteq> [] \<and> rest = limiter f @ ''-'' @ field_name f \<and> \<not> list_ex line_end (limiter f)) FIELDS))"

text \<open>\<open>^x-ratelimit-(limit|remaining|reset)(?:-(.+))?$\<close>: the field and the suffix.\<close>

definition OPENAI_HEADER :: "string \<Rightarrow> (limit_field \<times> string option) option" where
  "OPENAI_HEADER name =
     (let pre = ''x-ratelimit-''
      in if take (length pre) name \<noteq> pre then None
         else
           let rest = drop (length pre) name;
               tail = (\<lambda>f. drop (length (field_name f)) rest);
               fits = (\<lambda>f. take (length (field_name f)) rest = field_name f \<and>
                           (tail f = [] \<or> hd (tail f) = CHR ''-'' \<and> tl (tail f) \<noteq> [] \<and> \<not> list_ex line_end (tl (tail f))))
           in map_option (\<lambda>f. (f, if tail f = [] then None else Some (tl (tail f)))) (find fits FIELDS))"

definition DEFAULT_LIMITER :: string where "DEFAULT_LIMITER = ''requests''"

record draft =
  dr_limit :: "rat option"
  dr_remaining :: "rat option"
  dr_resetsAt :: "js_date option"
  dr_resetAfterSeconds :: "rat option"
  dr_inferredUnit :: bool

definition EMPTY_DRAFT :: draft where
  "EMPTY_DRAFT = \<lparr>dr_limit = None, dr_remaining = None, dr_resetsAt = None, dr_resetAfterSeconds = None, dr_inferredUnit = False\<rparr>"

definition draftFor :: "(string, draft) js_map \<Rightarrow> string \<Rightarrow> draft" where
  "draftFor drafts limiter = (case map_get drafts limiter of Some d \<Rightarrow> d | None \<Rightarrow> EMPTY_DRAFT)"

definition parseCount :: "string \<Rightarrow> rat option" where
  "parseCount v =
     (let t = js_trim v
      in if t = [] then None
         else case js_Number t of Fin n \<Rightarrow> if 0 \<le> n then Some n else None | _ \<Rightarrow> None)"

fun applyField :: "(string \<Rightarrow> instant option) \<Rightarrow> limit_field \<Rightarrow> string \<Rightarrow> bool \<Rightarrow> instant option \<Rightarrow> draft \<Rightarrow> draft" where
  "applyField date_parse FieldLimit v absoluteReset reference d = d\<lparr>dr_limit := parseCount v\<rparr>"
| "applyField date_parse FieldRemaining v absoluteReset reference d = d\<lparr>dr_remaining := parseCount v\<rparr>"
| "applyField date_parse FieldReset v absoluteReset reference d =
     (if absoluteReset then d\<lparr>dr_resetsAt := map_option Instant (parseInstant date_parse v)\<rparr>
      else case parseEpochMillis v of
             Some epoch \<Rightarrow> d\<lparr>dr_resetsAt := Some epoch\<rparr>
           | None \<Rightarrow>
               if isEpochSeconds v
               then (case parseEpochSeconds v reference of
                       Some t \<Rightarrow> d\<lparr>dr_resetsAt := Some t, dr_inferredUnit := True\<rparr>
                     | None \<Rightarrow> d)
               else d\<lparr>dr_resetAfterSeconds := parseDurationSeconds v\<rparr>)"

definition collect_header :: "(string \<Rightarrow> instant option) \<Rightarrow> instant option \<Rightarrow> string \<times> string \<Rightarrow> (string, draft) js_map \<Rightarrow> (string, draft) js_map" where
  "collect_header date_parse reference h drafts =
     (case ANTHROPIC_HEADER (fst h) of
        Some (limiter, field) \<Rightarrow>
          map_set limiter (applyField date_parse field (snd h) True reference (draftFor drafts limiter)) drafts
      | None \<Rightarrow>
          (case OPENAI_HEADER (fst h) of
             Some (field, named) \<Rightarrow>
               (let limiter = (case named of Some l \<Rightarrow> l | None \<Rightarrow> DEFAULT_LIMITER)
                in map_set limiter (applyField date_parse field (snd h) False reference (draftFor drafts limiter)) drafts)
           | None \<Rightarrow> drafts))"

definition header_get :: "string \<Rightarrow> headers \<Rightarrow> string option" where
  "header_get name hs = map_of hs name"

definition collect :: "(string \<Rightarrow> instant option) \<Rightarrow> headers \<Rightarrow> (string, draft) js_map" where
  "collect date_parse hs =
     fold (collect_header date_parse (Option.bind (header_get ''date'' hs) (parseInstant date_parse))) hs []"

record rate_limit_window =
  rw_limiter :: string
  rw_limit :: "rat option"
  rw_remaining :: "rat option"
  rw_utilization :: "rat option"
  rw_utilizationSource :: utilization_source
  rw_resetsAt :: "js_date option"
  rw_resetAfterSeconds :: "rat option"
  rw_resetSource :: reset_source

definition toWindow :: "string \<times> draft \<Rightarrow> rate_limit_window" where
  "toWindow x =
     (let d = snd x;
          reported = dr_resetsAt d \<noteq> None \<or> dr_resetAfterSeconds d \<noteq> None;
          utilization = (case (dr_limit d, dr_remaining d) of
                           (Some l, Some r) \<Rightarrow> if 0 < l then Some (min 1 (max 0 (1 - r / l))) else None
                         | _ \<Rightarrow> None)
      in \<lparr>rw_limiter = fst x, rw_limit = dr_limit d, rw_remaining = dr_remaining d, rw_utilization = utilization,
          rw_utilizationSource = (if utilization = None then NoSignal else Continuous),
          rw_resetsAt = dr_resetsAt d, rw_resetAfterSeconds = dr_resetAfterSeconds d,
          rw_resetSource = (if \<not> reported then UnknownReset else if dr_inferredUnit d then Estimated else ProviderReported)\<rparr>)"

record retry_after =
  ra_seconds :: "rat option"
  ra_at :: "js_date option"

definition NO_RETRY :: retry_after where "NO_RETRY = \<lparr>ra_seconds = None, ra_at = None\<rparr>"

definition positive_number :: "string \<Rightarrow> rat option" where
  "positive_number v = (case js_Number v of Fin n \<Rightarrow> if 0 < n then Some n else None | _ \<Rightarrow> None)"

definition parseRetryAfter :: "(string \<Rightarrow> instant option) \<Rightarrow> headers \<Rightarrow> retry_after" where
  "parseRetryAfter date_parse hs =
     (case Option.bind (header_get ''retry-after-ms'' hs) (\<lambda>ms. if js_trim ms = [] then None else positive_number ms) of
        Some ms \<Rightarrow> NO_RETRY\<lparr>ra_seconds := Some (ms / 1000)\<rparr>
      | None \<Rightarrow>
          (case header_get ''retry-after'' hs of
             None \<Rightarrow> NO_RETRY
           | Some v \<Rightarrow>
               if js_trim v = [] then NO_RETRY
               else if is_finite (js_Number v) then NO_RETRY\<lparr>ra_seconds := positive_number v\<rparr>
               else NO_RETRY\<lparr>ra_at := map_option Instant (parseInstant date_parse v)\<rparr>))"

text \<open>\<open>>\<close> on dates: false when either is invalid.\<close>

fun date_later :: "js_date \<Rightarrow> js_date \<Rightarrow> bool" where
  "date_later (Instant a) (Instant b) = (a > b)"
| "date_later _ _ = False"

definition depleted_step :: "rate_limit_window \<Rightarrow> retry_after \<times> bool \<Rightarrow> retry_after \<times> bool" where
  "depleted_step w x =
     (if rw_remaining w = None \<or> (\<exists>r \<in> set_option (rw_remaining w). 0 < r) then x
      else
        let x = (case rw_resetsAt w of
                   Some t \<Rightarrow>
                     if ra_at (fst x) = None \<or> (\<exists>a \<in> set_option (ra_at (fst x)). date_later t a)
                     then ((fst x)\<lparr>ra_at := Some t\<rparr>, rw_resetSource w = Estimated) else x
                 | None \<Rightarrow> x)
        in case rw_resetAfterSeconds w of
             Some s \<Rightarrow>
               if 0 < s then ((fst x)\<lparr>ra_seconds := Some (max (case ra_seconds (fst x) of Some b \<Rightarrow> b | None \<Rightarrow> 0) s)\<rparr>, snd x)
               else x
           | None \<Rightarrow> x)"

definition depletedReset :: "rate_limit_window list \<Rightarrow> retry_after \<times> bool" where
  "depletedReset windows = fold depleted_step windows (NO_RETRY, False)"

text \<open>The fields of a window routing reads (\<open>toLimiterReading\<close> of \<open>snapshot.ts\<close>); an invalid date compares with nothing.\<close>

definition toLimiterReading :: "rate_limit_window \<Rightarrow> limiter_reading" where
  "toLimiterReading w =
     \<lparr>lr_resetsAt = (case rw_resetsAt w of Some (Instant t) \<Rightarrow> Some t | _ \<Rightarrow> None), lr_limiter = rw_limiter w,
      lr_utilization = rw_utilization w, lr_utilizationSource = rw_utilizationSource w\<rparr>"

definition header_windows ::
  "(string \<Rightarrow> instant option) \<Rightarrow> (string \<Rightarrow> string \<Rightarrow> rat) \<Rightarrow> headers \<Rightarrow> rate_limit_window list" where
  "header_windows date_parse collate hs =
     js_sort (\<lambda>a b. collate (rw_limiter a) (rw_limiter b)) (map toWindow (collect date_parse hs))"

definition parseRateLimitHeaders ::
  "(string \<Rightarrow> instant option) \<Rightarrow> (string \<Rightarrow> string \<Rightarrow> rat) \<Rightarrow> 'b upstream_response \<Rightarrow> rate_limit_signal option" where
  "parseRateLimitHeaders date_parse collate response =
     (let windows = header_windows date_parse collate (ur_headers response);
          retryAfter = parseRetryAfter date_parse (ur_headers response);
          limitedByStatus = ur_status response = 429
      in if windows = [] \<and> retryAfter = NO_RETRY
         then (if \<not> limitedByStatus then None
               else Some \<lparr>rl_limited = True, rl_retryAfterSeconds = None, rl_resetsAt = None, rl_resetSource = UnknownReset,
                          rl_windows = [], rl_quotaWindows = None\<rparr>)
         else
           let (effective, estimated) = (if retryAfter \<noteq> NO_RETRY then (retryAfter, False) else depletedReset windows)
           in Some \<lparr>rl_limited = (limitedByStatus \<or> list_ex (\<lambda>w. rw_remaining w = Some 0) windows),
                    rl_retryAfterSeconds = map_option Fin (ra_seconds effective), rl_resetsAt = ra_at effective,
                    rl_resetSource = (if effective = NO_RETRY then UnknownReset else if estimated then Estimated else ProviderReported),
                    rl_windows = map toLimiterReading windows, rl_quotaWindows = None\<rparr>)"
section \<open>Durations read back\<close>

fun unit_name :: "duration_unit \<Rightarrow> string" where
  "unit_name UnitMs = ''ms''"
| "unit_name UnitS = ''s''"
| "unit_name UnitM = ''m''"
| "unit_name UnitH = ''h''"
| "unit_name UnitD = ''d''"

definition show_part :: "nat \<times> duration_unit \<Rightarrow> string" where
  "show_part p = show_nat (fst p) @ unit_name (snd p)"

definition show_duration :: "(nat \<times> duration_unit) list \<Rightarrow> string" where
  "show_duration ps = concat (map show_part ps)"

definition duration_seconds :: "(nat \<times> duration_unit) list \<Rightarrow> rat" where
  "duration_seconds ps = sum_list (map (\<lambda>p. of_nat (fst p) * UNIT_SECONDS (snd p)) ps)"

lemma letters_not_digits: "\<not> is_digit CHR ''m''" "\<not> is_digit CHR ''s''" "\<not> is_digit CHR ''h''" "\<not> is_digit CHR ''d''"
  by code_simp+

lemma unit_at_name:
  assumes "r = [] \<or> is_digit (hd r)"
  shows "unit_at (unit_name u @ r) = Some (u, r)"
proof -
  have "take 1 r \<noteq> ''s''" using assms letters_not_digits by (cases r) auto
  then show ?thesis by (cases u; cases r) (auto simp: unit_at_def)
qed

lemma part_at_show:
  assumes "r = [] \<or> is_digit (hd r)"
  shows "part_at (show_part (n, u) @ r) = Some (of_nat n, u, r)"
proof -
  have head: "\<not> is_digit (hd (unit_name u @ r))" "hd (unit_name u @ r) \<noteq> CHR ''.''"
    using letters_not_digits by (cases u; simp)+
  note split = digits_then [OF show_nat_digits [of n] disjI2 [OF head(1)]]
  have "amount_at (show_nat n @ unit_name u @ r) = Some (show_nat n, [], unit_name u @ r)"
    unfolding amount_at_def split Let_def using head(2) show_nat_nonempty [of n] by simp
  then show ?thesis using unit_at_name [OF assms, of u] by (simp add: part_at_def show_part_def fixed_value_show)
qed

lemma show_part_head: "show_part p \<noteq> [] \<and> is_digit (hd (show_part p))"
  using show_nat_nonempty [of "fst p"] show_nat_digits [of "fst p"] by (simp add: show_part_def list_all_iff)

lemma show_duration_head: "show_duration ps = [] \<or> is_digit (hd (show_duration ps))"
  using show_part_head by (cases ps) (simp_all add: show_duration_def)

lemma next_part_show:
  assumes "r = [] \<or> is_digit (hd r)"
  shows "next_part (show_part (n, u) @ r) = Some (0, of_nat n, u, r)"
proof -
  obtain c s where s: "show_part (n, u) @ r = c # s" using show_part_head [of "(n, u)"] by (cases "show_part (n, u) @ r") auto
  then show ?thesis using part_at_show [OF assms, of n u] by simp
qed

lemma duration_loop_show:
  assumes "list_all (\<lambda>p. of_nat (fst p) < OVERFLOW) ps"
  shows "duration_loop acc m (show_duration ps) = Some (acc + duration_seconds ps, m \<or> ps \<noteq> [], [])"
  using assms
proof (induction ps arbitrary: acc m)
  case Nil
  then show ?case by (subst duration_loop.simps) (simp add: show_duration_def duration_seconds_def)
next
  case (Cons p ps)
  obtain n u where p: "p = (n, u)" by fastforce
  have "- OVERFLOW < of_nat n" using Cons.prems p by (simp add: OVERFLOW_def)
  then have "is_finite (to_double (of_nat n))" using Cons.prems p by (simp add: to_double_def is_finite_def)
  moreover have "next_part (show_duration (p # ps)) = Some (0, of_nat n, u, show_duration ps)"
    using next_part_show [OF show_duration_head, of n u ps] p by (simp add: show_duration_def)
  ultimately show ?case using Cons.IH Cons.prems p
    by (subst duration_loop.simps) (simp add: duration_seconds_def add.assoc)
qed

lemma show_duration_trim: "ps \<noteq> [] \<Longrightarrow> js_trim (show_duration ps) = show_duration ps"
proof (rule js_trim_nonspace)
  assume ps: "ps \<noteq> []"
  show ne: "show_duration ps \<noteq> []" using ps show_part_head by (cases ps) (auto simp: show_duration_def)
  then show "\<not> is_space (hd (show_duration ps))" using show_duration_head digit_kinds by blast
  have "show_duration ps = show_duration (butlast ps) @ show_part (last ps)"
    using ps by (metis append_butlast_last_id concat.simps concat_append list.simps(8,9) map_append show_duration_def append_Nil2)
  then have "last (show_duration ps) \<in> set ''smhd''" by (cases "snd (last ps)") (auto simp: show_part_def)
  moreover have "list_all (\<lambda>c. \<not> is_space c) ''smhd''" by code_simp
  ultimately show "\<not> is_space (last (show_duration ps))" unfolding list_all_iff by (rule bspec [rotated])
qed

text \<open>
  A duration is read back exactly: any non-empty sequence of amounts with their units (\<open>6m0s\<close>,
  \<open>1h2m3s\<close>, \<open>20ms\<close>), in any order and with repeats, is parsed to the sum it denotes, to the millisecond,
  as long as its numbers are finite.
\<close>

theorem duration_roundtrip:
  assumes "ps \<noteq> []" and "list_all (\<lambda>p. of_nat (fst p) < OVERFLOW) ps" and "duration_seconds ps < OVERFLOW"
  shows "parseDurationSeconds (show_duration ps) = Some (duration_seconds ps)"
proof -
  have "0 \<le> duration_seconds ps"
  proof -
    have "0 \<le> of_nat n * UNIT_SECONDS u" for n :: nat and u by (cases u) simp_all
    then show ?thesis unfolding duration_seconds_def by (intro sum_list_nonneg) auto
  qed
  then have "- OVERFLOW < duration_seconds ps" by (simp add: OVERFLOW_def)
  then have "is_finite (to_double (duration_seconds ps))" using assms(3) by (simp add: to_double_def is_finite_def)
  moreover have "show_duration ps \<noteq> []" using assms(1) show_part_head by (cases ps) (auto simp: show_duration_def)
  ultimately show ?thesis
    using duration_loop_show [OF assms(2), of 0 False] assms(1)
    by (simp add: parseDurationSeconds_def show_duration_trim del: duration_loop.simps)
qed

theorem duration_roundtrip_witness: "parseDurationSeconds ''1h2m3s'' = Some 3723"
proof -
  have "show_duration [(1, UnitH), (2, UnitM), (3, UnitS)] = ''1h2m3s''" by code_simp
  moreover have "duration_seconds [(1, UnitH), (2, UnitM), (3, UnitS)] = 3723" by (simp add: duration_seconds_def)
  ultimately show ?thesis
    using duration_roundtrip [of "[(1, UnitH), (2, UnitM), (3, UnitS)]"] by (simp add: OVERFLOW_def)
qed
text \<open>
  An epoch beyond the range of \<open>Date\<close> is an invalid date, and the depleted limiter that comes first keeps
  it: no comparison with it holds, so the valid reset of a later limiter is never taken.
\<close>

lemma invalid_epoch_hides_reset:
  assumes "rw_remaining w = Some 0" "rw_resetsAt w = Some InvalidDate" "rw_resetAfterSeconds w = None"
    and "rw_remaining w' = Some 0" "rw_resetsAt w' = Some (Instant t)" "rw_resetAfterSeconds w' = None"
  shows "ra_at (fst (depletedReset [w, w'])) = Some InvalidDate"
  using assms by (simp add: depletedReset_def depleted_step_def NO_RETRY_def)

end
