(* ===== verification/Kimi_Wording.thy ===== *)
theory Kimi_Wording
  imports Js_Text
begin

text \<open>
  How the \<open>kimi\<close> driver reads its limits and suspensions from their wording
  (\<open>providers/drivers/kimi.ts\<close>). The patterns use word boundaries and bounded repetitions, so they are
  matched here by positions: a position is the character before it (none at the start) and the text
  after it, and a pattern maps a position to the positions where a match of it can end. The patterns
  carry the \<open>i\<close> flag: they are in lower case and tested on the lower-cased message.
\<close>

section \<open>Patterns with word boundaries\<close>

type_synonym text_position = "char option \<times> string"

datatype wording =
    WLit string
  | WBound \<comment> \<open>\<open>\b\<close>\<close>
  | WGap "char list" nat \<comment> \<open>\<open>[^cs]{0,n}\<close>\<close>
  | WDots \<comment> \<open>\<open>.*\<close>\<close>
  | WSeq wording wording
  | WAlt wording wording

definition is_word_char :: "char \<Rightarrow> bool" where
  "is_word_char c \<longleftrightarrow>
     (let n = of_char c :: nat in 48 \<le> n \<and> n \<le> 57 \<or> 65 \<le> n \<and> n \<le> 90 \<or> 97 \<le> n \<and> n \<le> 122 \<or> n = 95)"

fun word_before :: "text_position \<Rightarrow> bool" where
  "word_before (p, r) = (case p of None \<Rightarrow> False | Some c \<Rightarrow> is_word_char c)"

fun word_after :: "text_position \<Rightarrow> bool" where
  "word_after (p, r) = (case r of [] \<Rightarrow> False | c # cs \<Rightarrow> is_word_char c)"

fun lit_end :: "string \<Rightarrow> text_position \<Rightarrow> text_position list" where
  "lit_end [] pos = [pos]"
| "lit_end (c # cs) (p, []) = []"
| "lit_end (c # cs) (p, d # r) = (if c = d then lit_end cs (Some d, r) else [])"

fun gap_ends :: "char list \<Rightarrow> nat \<Rightarrow> text_position \<Rightarrow> text_position list" where
  "gap_ends cs 0 pos = [pos]"
| "gap_ends cs (Suc n) (p, []) = [(p, [])]"
| "gap_ends cs (Suc n) (p, d # r) = (p, d # r) # (if d \<in> set cs then [] else gap_ends cs n (Some d, r))"

fun match_ends :: "wording \<Rightarrow> text_position \<Rightarrow> text_position list" where
  "match_ends (WLit s) pos = lit_end s pos"
| "match_ends WBound pos = (if word_before pos \<noteq> word_after pos then [pos] else [])"
| "match_ends (WGap cs n) pos = gap_ends cs n pos"
| "match_ends WDots pos = gap_ends [CHR 0x0A, CHR 0x0D] (length (snd pos)) pos"
| "match_ends (WSeq a b) pos = concat (map (match_ends b) (match_ends a pos))"
| "match_ends (WAlt a b) pos = match_ends a pos @ match_ends b pos"

fun text_positions :: "char option \<Rightarrow> string \<Rightarrow> text_position list" where
  "text_positions p [] = [(p, [])]"
| "text_positions p (c # cs) = (p, c # cs) # text_positions (Some c) cs"

definition wording_test :: "wording \<Rightarrow> string \<Rightarrow> bool" where
  "wording_test w s \<longleftrightarrow> list_ex (\<lambda>pos. match_ends w pos \<noteq> []) (text_positions None (map lower_char s))"

definition WSeqs :: "wording list \<Rightarrow> wording" where
  "WSeqs ws = foldr WSeq ws (WLit [])"

primrec WAlts :: "wording \<Rightarrow> wording list \<Rightarrow> wording" where
  "WAlts w [] = w"
| "WAlts w (v # vs) = WAlt w (WAlts v vs)"

text \<open>\<open>[^.]{0,n}\<close>, a literal as a whole word, and \<open>resets?\<close>.\<close>

definition within_clause :: "nat \<Rightarrow> wording" where
  "within_clause n = WGap ''.'' n"

definition whole_word :: "string \<Rightarrow> wording" where
  "whole_word s = WSeqs [WBound, WLit s, WBound]"

definition optional_s :: "string \<Rightarrow> wording" where
  "optional_s s = WAlt (WLit s) (WLit (s @ ''s''))"

section \<open>The patterns of \<open>kimi.ts\<close>\<close>

definition INSUFFICIENT_BALANCE :: wording where
  "INSUFFICIENT_BALANCE =
     WAlts (WLit ''insufficient balance'') [WLit ''balance is insufficient'', WSeqs [WLit ''account'', WDots, WLit ''not active'']]"

text \<open>The three orders in which a window's name meets \<open>usage limit\<close>: reached before, reached after, until it resets.\<close>

definition window_limit :: "wording \<Rightarrow> wording" where
  "window_limit name =
     (let named = WSeqs [WBound, name, WBound] in
      WAlts (WSeqs [WLit ''reached'', within_clause 40, named, within_clause 20, WLit ''usage limit''])
        [WSeqs [named, within_clause 20, WLit ''usage limit'', within_clause 20, whole_word ''reached''],
         WSeqs [whole_word ''until'', within_clause 20, named, within_clause 20, WLit ''usage limit'', within_clause 20, WBound, optional_s ''reset'', WBound]])"

definition WEEKLY_LIMIT :: wording where
  "WEEKLY_LIMIT = window_limit (WAlt (WLit ''weekly'') (WLit ''7-day''))"

definition FIVE_HOUR_LIMIT :: wording where
  "FIVE_HOUR_LIMIT = window_limit (WLit ''5-hour'')"

definition CYCLE_LIMIT :: wording where
  "CYCLE_LIMIT = WAlt (WLit ''usage limit for this billing cycle'') (WLit ''quota will be refreshed in the next cycle'')"

definition USAGE_LIMIT_HIT :: wording where
  "USAGE_LIMIT_HIT =
     WAlts (WSeqs [WLit ''reached'', within_clause 40, WLit ''usage limit''])
       [WSeqs [WLit ''usage limit'', within_clause 20, whole_word ''reached''],
        WSeqs [whole_word ''until'', within_clause 40, WLit ''usage limit'', within_clause 20, WBound, optional_s ''reset'', WBound]]"

definition QUOTA_REOPENS :: wording where
  "QUOTA_REOPENS = WSeq (WLit ''quota will '') (WAlt (WLit ''be refreshed'') (WLit ''reset''))"

definition ANY_USAGE_LIMIT :: wording where
  "ANY_USAGE_LIMIT = WAlt USAGE_LIMIT_HIT QUOTA_REOPENS"

definition TAKEN_AWAY :: wording where
  "TAKEN_AWAY =
     WAlt (WSeqs [WBound, WAlts (WLit ''suspended'') [WLit ''suspension'', WLit ''banned'', WLit ''deactivated'', WLit ''terminated''], WBound])
       (WSeqs [WBound, WAlt (WLit ''account'') (WLit ''key''), WBound, within_clause 30, whole_word ''disabled''])"

definition TERMS_BREACH :: wording where
  "TERMS_BREACH =
     WAlts (WSeqs [WBound, WAlt (WLit ''violated'') (WLit ''violating''), WBound])
       [WSeqs [WBound, optional_s ''violation'', WLit '' of'', WBound],
        WSeqs [WBound, WAlt (WLit ''for'') (WLit ''due to''), WBound, within_clause 30, WBound, optional_s ''violation'', WBound]]"

definition PAUSE_CLOCK :: wording where
  "PAUSE_CLOCK =
     WAlt (WSeqs [WBound, WAlt (WLit ''temporary'') (WLit ''temporarily''), WBound])
       (WSeqs [whole_word ''until'', within_clause 60, WBound, WAlts (optional_s ''reset'') [optional_s ''end'', WLit ''window''], WBound])"

text \<open>\<open>split(/(?<=[.!?])\s+/)\<close>: the text read so far of the current sentence, reversed, and the rest.\<close>

function sentences :: "string \<Rightarrow> string \<Rightarrow> string list" where
  "sentences cur [] = [rev cur]"
| "sentences cur (c # cs) =
     (if is_space c \<and> cur \<noteq> [] \<and> hd cur \<in> set ''.!?'' then rev cur # sentences [] (dropWhile is_space cs)
      else sentences (c # cur) cs)"
  by pat_completeness auto
termination
  by (relation "measure (\<lambda>(cur, cs). length cs)") (auto simp: le_imp_less_Suc length_dropWhile_le)

definition isTakenAway :: "string \<Rightarrow> bool" where
  "isTakenAway message =
     (if \<not> wording_test TAKEN_AWAY message then False
      else if list_ex (\<lambda>s. wording_test TAKEN_AWAY s \<and> wording_test TERMS_BREACH s) (sentences [] message) then True
      else
        let reopens = wording_test PAUSE_CLOCK message \<or> wording_test QUOTA_REOPENS message
        in \<not> (wording_test USAGE_LIMIT_HIT message \<and> reopens))"

lemma kimi_wording_examples:
  "wording_test FIVE_HOUR_LIMIT ''You have reached your 5-hour usage limit. Your quota will reset when it ends.''"
  "\<not> wording_test WEEKLY_LIMIT ''You have reached your 5-hour usage limit.''"
  "wording_test CYCLE_LIMIT ''You reached your usage limit for this billing cycle.''"
  "\<not> wording_test ANY_USAGE_LIMIT ''your usage limit is 1,000 rpm''"
  "isTakenAway ''It reached its usage limit and has been suspended for violating terms. Wait until it resets.''"
  "\<not> isTakenAway ''You reached your usage limit. Requests are temporarily suspended.''"
  "isTakenAway ''The account is suspended.''"
  by code_simp+

end
