(* ===== verification/Failure_Classification.thy ===== *)
theory Failure_Classification
  imports Rate_Limit_Headers Kimi_Wording
begin

text \<open>
  What an upstream response means: the shared classification (\<open>providers/failure/classify.ts\<close>), the rules
  the drivers share (\<open>providers/drivers/compatible-rules.ts\<close>), the rule lists of all HTTP drivers and
  the rate-limit parsers of the drivers that have their own. Reading facts out of a body is schema
  validation: \<open>readFacts\<close> is a field of the options, as in the source. The patterns carry the \<open>i\<close> flag, so they are
  written in lower case and tested on the lower-cased message.
\<close>

section \<open>Rules (\<open>classify.ts\<close>)\<close>

record upstream_error_facts =
  uf_type :: "string option"
  uf_code :: "string option"
  uf_message :: "string option"

record classification_rule =
  cr_kind :: upstream_failure_kind
  cr_signal :: string
  cr_when :: "upstream_error_facts \<Rightarrow> int \<Rightarrow> bool \<Rightarrow> bool"
  cr_estimatedResetSeconds :: "rat option"

record 'b classify_options =
  co_rules :: "classification_rule list"
  co_readFacts :: "'b option \<Rightarrow> upstream_error_facts"
  co_parseRateLimit :: "'b upstream_response \<Rightarrow> rate_limit_signal option"

fun RETRYABLE :: "upstream_failure_kind \<Rightarrow> bool" where
  "RETRYABLE UpRateLimited = True"
| "RETRYABLE UpCreditsExhausted = True"
| "RETRYABLE UpAuth = True"
| "RETRYABLE UpInvalidRequest = False"
| "RETRYABLE UpModelUnsupported = True"
| "RETRYABLE UpServerError = True"
| "RETRYABLE UpOverloaded = True"
| "RETRYABLE UpStaleSession = False"
| "RETRYABLE UpBusySession = False"
| "RETRYABLE UpSubprocessCrash = True"
| "RETRYABLE UpUnknown = True"

definition verdictForStatus :: "int \<Rightarrow> (upstream_failure_kind \<times> string) option" where
  "verdictForStatus status =
     (let signal = ''http-status:'' @ show_nat (nat status)
      in if status < 400 then None
         else if status = 401 \<or> status = 403 then Some (UpAuth, signal)
         else if status = 402 then Some (UpCreditsExhausted, signal)
         else if status = 429 then Some (UpRateLimited, signal)
         else if status \<ge> 500 then Some (UpServerError, signal)
         else Some (UpInvalidRequest, signal))"

definition states_reset :: "rate_limit_signal option \<Rightarrow> bool" where
  "states_reset parsed = (case parsed of None \<Rightarrow> False | Some s \<Rightarrow> rl_resetsAt s \<noteq> None \<or> rl_retryAfterSeconds s \<noteq> None)"

definition withEstimatedReset :: "rate_limit_signal option \<Rightarrow> rat option \<Rightarrow> rate_limit_signal option" where
  "withEstimatedReset parsed estimatedSeconds =
     (case estimatedSeconds of
        None \<Rightarrow> parsed
      | Some seconds \<Rightarrow>
          if states_reset parsed then parsed
          else Some \<lparr>rl_limited = True, rl_retryAfterSeconds = Some (Fin seconds), rl_resetsAt = None,
                     rl_resetSource = Estimated, rl_windows = (case parsed of Some s \<Rightarrow> rl_windows s | None \<Rightarrow> []),
                     rl_quotaWindows = Option.bind parsed rl_quotaWindows\<rparr>)"

definition classifyUpstreamFailure :: "'b classify_options \<Rightarrow> 'b upstream_response \<Rightarrow> failure_classification option" where
  "classifyUpstreamFailure options response =
     (let facts = co_readFacts options (ur_body response);
          rateLimit = co_parseRateLimit options response;
          stated = states_reset rateLimit;
          matched = find (\<lambda>r. cr_when r facts (ur_status response) stated) (co_rules options);
          verdict = (case matched of
                       Some r \<Rightarrow> Some (cr_kind r, cr_signal r)
                     | None \<Rightarrow> verdictForStatus (ur_status response))
      in case verdict of
           None \<Rightarrow> None
         | Some (kind, signal) \<Rightarrow>
             Some \<lparr>fc_kind = kind, fc_status = ur_status response, fc_retryable = RETRYABLE kind, fc_signal = signal,
                   fc_rateLimit = withEstimatedReset rateLimit (Option.bind matched cr_estimatedResetSeconds)\<rparr>)"

definition onStatus :: "int list \<Rightarrow> classification_rule \<Rightarrow> classification_rule" where
  "onStatus statuses rule = rule\<lparr>cr_when := (\<lambda>facts status stated. status \<in> set statuses \<and> cr_when rule facts status stated)\<rparr>"

definition withResetEstimate :: "classification_rule \<Rightarrow> rat \<Rightarrow> classification_rule" where
  "withResetEstimate rule seconds = rule\<lparr>cr_estimatedResetSeconds := Some seconds\<rparr>"

definition mk_rule :: "upstream_failure_kind \<Rightarrow> string \<Rightarrow> (upstream_error_facts \<Rightarrow> int \<Rightarrow> bool \<Rightarrow> bool) \<Rightarrow> classification_rule" where
  "mk_rule kind signal w = \<lparr>cr_kind = kind, cr_signal = signal, cr_when = w, cr_estimatedResetSeconds = None\<rparr>"

definition one_of :: "string option \<Rightarrow> string list \<Rightarrow> bool" where
  "one_of v names = (case v of None \<Rightarrow> False | Some x \<Rightarrow> x \<in> set names)"

definition codeRule :: "upstream_failure_kind \<Rightarrow> string \<Rightarrow> string list \<Rightarrow> classification_rule" where
  "codeRule kind signal codes = mk_rule kind signal (\<lambda>facts _ _. one_of (uf_code facts) codes)"

definition typeRule :: "upstream_failure_kind \<Rightarrow> string \<Rightarrow> string list \<Rightarrow> classification_rule" where
  "typeRule kind signal types = mk_rule kind signal (\<lambda>facts _ _. one_of (uf_type facts) types)"

text \<open>\<open>test\<close> of a pattern with the \<open>i\<close> flag and no anchors.\<close>

definition test_i :: "regex \<Rightarrow> string \<Rightarrow> bool" where
  "test_i r s = re_test \<lparr>rx_start = False, rx_body = r, rx_end = False\<rparr> (map lower_char s)"

definition messageRule :: "upstream_failure_kind \<Rightarrow> string \<Rightarrow> regex \<Rightarrow> classification_rule" where
  "messageRule kind signal pattern =
     mk_rule kind signal (\<lambda>facts _ _. case uf_message facts of None \<Rightarrow> False | Some m \<Rightarrow> test_i pattern m)"

section \<open>Shared rules (\<open>compatible-rules.ts\<close>)\<close>

definition RSeqs :: "regex list \<Rightarrow> regex" where
  "RSeqs rs = foldr RSeq rs REps"

definition ROpt :: "regex \<Rightarrow> regex" where
  "ROpt r = RAlt r REps"

definition RDigit :: regex where
  "RDigit = RClass False ''0123456789''"

definition RDots :: regex where
  "RDots = RStar (RClass True [CHR 0x0A, CHR 0x0D])"

definition COMPATIBLE_CREDIT_CODES :: "string list" where
  "COMPATIBLE_CREDIT_CODES = [''insufficient_quota'', ''billing_hard_limit_reached'']"

definition namesCreditCode :: "upstream_error_facts \<Rightarrow> bool" where
  "namesCreditCode facts \<longleftrightarrow>
     one_of (uf_code facts) COMPATIBLE_CREDIT_CODES \<or> one_of (uf_type facts) COMPATIBLE_CREDIT_CODES"

definition BALANCE_WORDING :: regex where
  "BALANCE_WORDING =
     RAlts [RSeqs [RLit ''insufficient '', RAlts [RSeq (RLit ''credit'') (ROpt (RLit ''s'')), RLit ''balance'']],
            RLit ''out of credits'', RLit ''balance is insufficient'']"

definition QUOTA_WORDING :: regex where
  "QUOTA_WORDING = RAlts [RLit ''insufficient quota'', RSeq (RLit ''quota '') (RAlts [RLit ''exceeded'', RLit ''exhausted''])]"

definition wordsDeadBalance :: "string \<Rightarrow> int \<Rightarrow> bool \<Rightarrow> bool" where
  "wordsDeadBalance message status statedReset \<longleftrightarrow>
     test_i BALANCE_WORDING message \<or> (status \<noteq> 429 \<and> \<not> statedReset \<and> test_i QUOTA_WORDING message)"

definition message_or_empty :: "upstream_error_facts \<Rightarrow> string" where
  "message_or_empty facts = (case uf_message facts of Some m \<Rightarrow> m | None \<Rightarrow> [])"

definition genericCreditsRule :: classification_rule where
  "genericCreditsRule =
     mk_rule UpCreditsExhausted ''compatible:out-of-credits-wording''
       (\<lambda>facts status stated. status \<ge> 400 \<and>
          (namesCreditCode facts \<or> (status < 500 \<and> wordsDeadBalance (message_or_empty facts) status stated)))"

definition throttleStatusRule :: classification_rule where
  "throttleStatusRule = mk_rule UpRateLimited ''vendor:http-429'' (\<lambda>facts status _. status = 429 \<and> \<not> namesCreditCode facts)"

definition REPORTED_QUOTA_RESET :: regex where
  "REPORTED_QUOTA_RESET =
     RSeqs [RLit ''quota '', ROpt (RLit ''has been ''), RLit ''exhausted. the quota will reset at '',
            RDigit, RDigit, RLit ''-'', RDigit, RDigit, RLit '' '', RDigit, RDigit, RLit '':'', RDigit, RDigit, RLit '':'', RDigit, RDigit,
            RLit '' utc.'']"

definition reportedQuotaResetRule :: classification_rule where
  "reportedQuotaResetRule =
     mk_rule UpRateLimited ''compatible:reported-body-reset''
       (\<lambda>facts status _. status = 429 \<and> test_i REPORTED_QUOTA_RESET (message_or_empty facts))"

section \<open>The drivers' rules\<close>

definition openAiApi_rules :: "classification_rule list" where
  "openAiApi_rules =
     (let CREDIT_CODES = [''insufficient_quota'', ''billing_hard_limit_reached'', ''account_deactivated'']
      in [codeRule UpCreditsExhausted ''openai:insufficient_quota'' CREDIT_CODES,
          typeRule UpCreditsExhausted ''openai:insufficient_quota'' CREDIT_CODES,
          codeRule UpRateLimited ''openai:rate_limit_exceeded'' [''rate_limit_exceeded''],
          codeRule UpAuth ''openai:invalid_api_key'' [''invalid_api_key'', ''invalid_organization'']])"

definition anthropicApi_rules :: "classification_rule list" where
  "anthropicApi_rules =
     [messageRule UpCreditsExhausted ''anthropic:credit-balance-too-low'' (RLit ''credit balance is too low''),
      typeRule UpCreditsExhausted ''anthropic:billing_error'' [''billing_error''],
      typeRule UpRateLimited ''anthropic:rate_limit_error'' [''rate_limit_error''],
      typeRule UpOverloaded ''anthropic:overloaded_error'' [''overloaded_error''],
      typeRule UpServerError ''anthropic:api_error'' [''api_error'']]"

definition openAiOAuth_rules :: "classification_rule list" where
  "openAiOAuth_rules =
     (let LIMIT_CODES = [''usage_limit_reached'', ''rate_limit_exceeded'']; DEACTIVATED_CODES = [''account_deactivated''];
          QUOTA_CODES = [''insufficient_quota'', ''credit_balance_exhausted'', ''organization_spend_limit_exceeded'',
                         ''project_spend_limit_exceeded'']
      in [typeRule UpRateLimited ''openai-oauth:usage_limit_reached'' LIMIT_CODES,
          codeRule UpRateLimited ''openai-oauth:usage_limit_reached'' LIMIT_CODES,
          typeRule UpCreditsExhausted ''openai-oauth:account_deactivated'' DEACTIVATED_CODES,
          codeRule UpCreditsExhausted ''openai-oauth:account_deactivated'' DEACTIVATED_CODES,
          onStatus [429] (typeRule UpCreditsExhausted ''openai-oauth:insufficient_quota'' [''insufficient_quota'']),
          onStatus [429] (codeRule UpCreditsExhausted ''openai-oauth:insufficient_quota'' QUOTA_CODES),
          onStatus [400, 404] (messageRule UpModelUnsupported ''openai-oauth:model-unsupported''
            (RLit ''model is not supported when using codex''))])"

definition groq_rules :: "classification_rule list" where
  "groq_rules =
     [codeRule UpCreditsExhausted ''groq:blocked_api_access'' [''blocked_api_access''],
      codeRule UpRateLimited ''groq:rate_limit_exceeded'' [''rate_limit_exceeded''],
      codeRule UpAuth ''groq:invalid_api_key'' [''invalid_api_key''],
      mk_rule UpServerError ''groq:flex-tier-capacity'' (\<lambda>_ status _. status = 498),
      throttleStatusRule, genericCreditsRule]"

definition deepSeek_rules :: "classification_rule list" where
  "deepSeek_rules = [messageRule UpCreditsExhausted ''deepseek:insufficient-balance'' (RLit ''insufficient balance'')]"

definition mistral_rules :: "classification_rule list" where
  "mistral_rules =
     [typeRule UpRateLimited ''mistral:rate_limit_error'' [''rate_limit_error''],
      messageRule UpRateLimited ''mistral:service-tier-capacity'' (RLit ''service tier capacity exceeded''),
      typeRule UpAuth ''mistral:authentication_error'' [''authentication_error''],
      typeRule UpServerError ''mistral:server_error'' [''server_error''],
      throttleStatusRule, genericCreditsRule]"

definition cerebras_rules :: "classification_rule list" where
  "cerebras_rules = [codeRule UpAuth ''cerebras:wrong_api_key'' [''wrong_api_key''], throttleStatusRule, genericCreditsRule]"

definition together_rules :: "classification_rule list" where
  "together_rules =
     [mk_rule UpInvalidRequest ''together:context-length-403'' (\<lambda>_ status _. status = 403),
      typeRule UpRateLimited ''together:dynamic-rate-limited'' [''dynamic_request_limited'', ''dynamic_token_limited''],
      throttleStatusRule, genericCreditsRule]"

definition xai_rules :: "classification_rule list" where
  "xai_rules = [throttleStatusRule, genericCreditsRule]"

definition ollama_rules :: "classification_rule list" where
  "ollama_rules =
     [mk_rule UpInvalidRequest ''ollama:model-not-pulled''
        (\<lambda>facts status _. status = 404 \<and> test_i (RLit ''not found, try pulling it first'') (message_or_empty facts)),
      throttleStatusRule, genericCreditsRule]"

definition compatible_rules :: "classification_rule list" where
  "compatible_rules = [reportedQuotaResetRule, genericCreditsRule]"

definition zai_rules :: "classification_rule list" where
  "zai_rules =
     [codeRule UpCreditsExhausted ''zai:balance-code'' [''1113'', ''1112''],
      messageRule UpCreditsExhausted ''zai:insufficient-balance''
        (RAlts [RLit ''insufficient balance'', RLit ''balance is insufficient'', RLit ''account balance'']),
      codeRule UpRateLimited ''zai:throttle-code'' [''1302'', ''1303'', ''1304'', ''1305''],
      codeRule UpRateLimited ''zai:window-exhausted'' [''1310''],
      codeRule UpAuth ''zai:auth-code'' [''1000'', ''1001'', ''1002'', ''1003'', ''1004'']]"

definition KEY_LIMIT_WINDOW :: regex where
  "KEY_LIMIT_WINDOW =
     RSeqs [RLit ''key limit exceeded'', RStar (RClass False WHITESPACE), RLit ''('',
            RAlts [RLit ''daily'', RLit ''weekly'', RLit ''monthly''], RLit '' limit)'']"

definition openRouter_rules :: "classification_rule list" where
  "openRouter_rules =
     [withResetEstimate (messageRule UpRateLimited ''openrouter:key-limit-window'' KEY_LIMIT_WINDOW) 3600,
      messageRule UpCreditsExhausted ''openrouter:key-limit'' (RLit ''key limit exceeded''),
      onStatus [403] (messageRule UpInvalidRequest ''openrouter:moderation''
        (RAlts [RLit ''moderation'', RSeqs [RLit ''flagged'', RDots, RLit ''content''], RSeqs [RLit ''content'', RDots, RLit ''flagged'']])),
      onStatus [400, 404] (messageRule UpModelUnsupported ''openrouter:model-unsupported'' (RLit ''is not a valid model id'')),
      mk_rule UpServerError ''openrouter:http-408'' (\<lambda>_ status _. status = 408),
      messageRule UpCreditsExhausted ''openrouter:insufficient-credits''
        (RAlts [RLit ''insufficient credits'', RLit ''requires more credits'', RLit ''add more using'']),
      codeRule UpCreditsExhausted ''openrouter:code-402'' [''402''],
      codeRule UpRateLimited ''openrouter:code-429'' [''429''],
      codeRule UpAuth ''openrouter:code-401'' [''401'']]"

definition openCodeGo_rules :: "classification_rule list" where
  "openCodeGo_rules =
     [messageRule UpOverloaded ''opencode-go:overloaded'' (RAlts [RLit ''[overloaded]'', RLit ''server is overloaded'']),
      typeRule UpRateLimited ''opencode-go:free-usage-limit'' [''FreeUsageLimitError''],
      messageRule UpCreditsExhausted ''opencode-go:insufficient-funds'' (RLit ''insufficient account funds''),
      messageRule UpModelUnsupported ''opencode-go:model-unavailable'' (RLit ''model is unavailable'')]"

text \<open>\<open>/\(2056\)\s*$/\<close>, the second alternative of \<open>TOKEN_PLAN_LIMIT\<close>, is anchored at the end.\<close>

definition tokenPlanLimit :: "string \<Rightarrow> bool" where
  "tokenPlanLimit m \<longleftrightarrow>
     test_i (RLit ''token plan usage limit'') m \<or>
     re_test \<lparr>rx_start = False, rx_body = RSeq (RLit ''(2056)'') (RStar (RClass False WHITESPACE)), rx_end = True\<rparr> m"

definition minimax_rules :: "classification_rule list" where
  "minimax_rules =
     [codeRule UpCreditsExhausted ''minimax:base_resp-1008'' [''1008''],
      codeRule UpRateLimited ''minimax:base_resp-1002'' [''1002''],
      mk_rule UpRateLimited ''minimax:token-plan-limit''
        (\<lambda>facts _ _. case uf_message facts of None \<Rightarrow> False | Some m \<Rightarrow> tokenPlanLimit m),
      codeRule UpAuth ''minimax:base_resp-1004'' [''1004''],
      codeRule UpServerError ''minimax:base_resp-server'' [''1000'', ''1013'', ''1039''],
      codeRule UpInvalidRequest ''minimax:base_resp-invalid'' [''1027'', ''2013'']]"

text \<open>\<open>.{0,n}\<close>.\<close>

primrec RUpTo :: "nat \<Rightarrow> regex \<Rightarrow> regex" where
  "RUpTo 0 r = REps"
| "RUpTo (Suc n) r = ROpt (RSeq r (RUpTo n r))"

definition wordingRule :: "upstream_failure_kind \<Rightarrow> string \<Rightarrow> regex \<Rightarrow> classification_rule" where
  "wordingRule kind signal pattern =
     mk_rule kind signal (\<lambda>facts status _. status \<ge> 400 \<and> test_i pattern (message_or_empty facts))"

definition BILLING_STOPPED :: regex where
  "BILLING_STOPPED =
     RAlts [RLit ''enable billing'', RLit ''requires billing'',
            RSeqs [RLit ''billing account '', RUpTo 64 (RClass True [CHR 0x0A, CHR 0x0D]), RLit ''not found''],
            RLit ''has been suspended'']"

definition gemini_rules :: "classification_rule list" where
  "gemini_rules =
     [wordingRule UpCreditsExhausted ''gemini:billing-stopped'' BILLING_STOPPED,
      typeRule UpRateLimited ''gemini:RESOURCE_EXHAUSTED'' [''RESOURCE_EXHAUSTED''],
      typeRule UpAuth ''gemini:auth-status'' [''UNAUTHENTICATED'', ''PERMISSION_DENIED''],
      wordingRule UpAuth ''gemini:api-key-invalid''
        (RAlts [RLit ''api key not valid'', RLit ''api_key_invalid'', RLit ''api key expired'']),
      typeRule UpServerError ''gemini:server-status'' [''INTERNAL'', ''UNAVAILABLE'', ''DEADLINE_EXCEEDED'']]"

definition kimiMessageRule :: "upstream_failure_kind \<Rightarrow> string \<Rightarrow> wording \<Rightarrow> classification_rule" where
  "kimiMessageRule kind signal w =
     mk_rule kind signal (\<lambda>facts _ _. case uf_message facts of None \<Rightarrow> False | Some m \<Rightarrow> wording_test w m)"

definition accountTakenAway :: classification_rule where
  "accountTakenAway =
     mk_rule UpAuth ''kimi:account-suspended'' (\<lambda>facts _ _. case uf_message facts of None \<Rightarrow> False | Some m \<Rightarrow> isTakenAway m)"

definition FIVE_HOUR_RETEST_SECONDS :: rat where "FIVE_HOUR_RETEST_SECONDS = 15 * 60"
definition LONG_WINDOW_RETEST_SECONDS :: rat where "LONG_WINDOW_RETEST_SECONDS = 60 * 60"

definition kimi_rules :: "classification_rule list" where
  "kimi_rules =
     [typeRule UpCreditsExhausted ''kimi:exceeded_current_quota_error'' [''exceeded_current_quota_error''],
      kimiMessageRule UpCreditsExhausted ''kimi:insufficient-balance'' INSUFFICIENT_BALANCE,
      onStatus [401, 403] accountTakenAway,
      withResetEstimate (kimiMessageRule UpRateLimited ''kimi:billing-cycle-limit'' CYCLE_LIMIT) LONG_WINDOW_RETEST_SECONDS,
      withResetEstimate (kimiMessageRule UpRateLimited ''kimi:usage-limit-weekly'' WEEKLY_LIMIT) LONG_WINDOW_RETEST_SECONDS,
      withResetEstimate (kimiMessageRule UpRateLimited ''kimi:usage-limit-5-hour'' FIVE_HOUR_LIMIT) FIVE_HOUR_RETEST_SECONDS,
      withResetEstimate (kimiMessageRule UpRateLimited ''kimi:usage-limit'' ANY_USAGE_LIMIT) FIVE_HOUR_RETEST_SECONDS,
      typeRule UpRateLimited ''kimi:rate_limit_reached_error'' [''rate_limit_reached_error''],
      typeRule UpAuth ''kimi:invalid_authentication_error'' [''invalid_authentication_error'', ''authentication_error''],
      typeRule UpOverloaded ''kimi:engine_overloaded_error'' [''engine_overloaded_error'']]"

text \<open>The drivers built by \<open>createHttpDriver\<close>.\<close>

datatype http_driver =
    OpenAiApiDriver | AnthropicApiDriver | OpenAiOAuthDriver | GroqDriver | DeepSeekDriver | MistralDriver | CerebrasDriver
  | TogetherDriver | XaiDriver | OllamaDriver | OpenAiCompatibleDriver | AnthropicCompatibleDriver | ZaiDriver
  | OpenRouterDriver | OpenCodeGoDriver | MiniMaxDriver | GeminiDriver | KimiDriver

fun driver_rules :: "http_driver \<Rightarrow> classification_rule list" where
  "driver_rules OpenAiApiDriver = openAiApi_rules"
| "driver_rules AnthropicApiDriver = anthropicApi_rules"
| "driver_rules OpenAiOAuthDriver = openAiOAuth_rules"
| "driver_rules GroqDriver = groq_rules"
| "driver_rules DeepSeekDriver = deepSeek_rules"
| "driver_rules MistralDriver = mistral_rules"
| "driver_rules CerebrasDriver = cerebras_rules"
| "driver_rules TogetherDriver = together_rules"
| "driver_rules XaiDriver = xai_rules"
| "driver_rules OllamaDriver = ollama_rules"
| "driver_rules OpenAiCompatibleDriver = compatible_rules"
| "driver_rules AnthropicCompatibleDriver = compatible_rules"
| "driver_rules ZaiDriver = zai_rules"
| "driver_rules OpenRouterDriver = openRouter_rules"
| "driver_rules OpenCodeGoDriver = openCodeGo_rules"
| "driver_rules MiniMaxDriver = minimax_rules"
| "driver_rules GeminiDriver = gemini_rules"
| "driver_rules KimiDriver = kimi_rules"

definition driver_options ::
  "http_driver \<Rightarrow> ('b option \<Rightarrow> upstream_error_facts) \<Rightarrow> ('b upstream_response \<Rightarrow> rate_limit_signal option) \<Rightarrow> 'b classify_options" where
  "driver_options d readFacts parse = \<lparr>co_rules = driver_rules d, co_readFacts = readFacts, co_parseRateLimit = parse\<rparr>"

section \<open>The drivers' rate-limit parsers\<close>

text \<open>
  Four drivers and the compatible ones read more than the shared headers. z.ai's reset is in the
  message (\<open>RESET_AT\<close>, with the clock's offset). What the others read from their bodies and from the
  \<open>x-codex-*\<close> headers is an argument.
\<close>

record 'b body_readers =
  br_retryDelaySeconds :: "'b option \<Rightarrow> rat option"
  br_compatibleBodyReset :: "'b upstream_response \<Rightarrow> instant option"
  br_resetsInSeconds :: "'b option \<Rightarrow> rat option"
  br_codexQuota :: "'b upstream_response \<Rightarrow> quota_window list \<times> limiter_reading list"

text \<open>A text of the shape of a template, in which \<open>d\<close> stands for a digit.\<close>

definition shaped :: "string \<Rightarrow> string \<Rightarrow> bool" where
  "shaped template v = list_all2 (\<lambda>p c. if p = CHR ''d'' then is_digit c else c = p) template v"

definition RESET_AT :: "string \<Rightarrow> (string \<times> string) option" where
  "RESET_AT m =
     (let rest = drop 8 m; stamp = dropWhile is_space rest; day = take 10 stamp; time = take 8 (drop 11 stamp)
      in if map lower_char (take 8 m) = ''reset at'' \<and> stamp \<noteq> rest \<and> shaped ''dddd-dd-dd'' day \<and>
            map lower_char (take 1 (drop 10 stamp)) \<in> {'' '', ''t''} \<and> shaped ''dd:dd:dd'' time
         then Some (day, time) else None)"

fun first_reset_stamp :: "string \<Rightarrow> (string \<times> string) option" where
  "first_reset_stamp [] = None"
| "first_reset_stamp (c # cs) = (case RESET_AT (c # cs) of Some st \<Rightarrow> Some st | None \<Rightarrow> first_reset_stamp cs)"

definition parseZaiReset ::
  "('b option \<Rightarrow> upstream_error_facts) \<Rightarrow> (string \<Rightarrow> instant option) \<Rightarrow> 'b option \<Rightarrow> instant option" where
  "parseZaiReset readFacts date_parse body =
     (case uf_message (readFacts body) of
        None \<Rightarrow> None
      | Some message \<Rightarrow>
          (case first_reset_stamp message of
             None \<Rightarrow> None
           | Some (day, time) \<Rightarrow> parseInstant date_parse (day @ ''T'' @ time @ ''+08:00'')))"

definition parseZaiRateLimit ::
  "('b option \<Rightarrow> upstream_error_facts) \<Rightarrow> (string \<Rightarrow> instant option) \<Rightarrow> rate_limit_signal option \<Rightarrow> 'b upstream_response \<Rightarrow>
   rate_limit_signal option" where
  "parseZaiRateLimit readFacts date_parse fromHeaders response =
     (case parseZaiReset readFacts date_parse (ur_body response) of
        None \<Rightarrow> fromHeaders
      | Some resetsAt \<Rightarrow>
          Some \<lparr>rl_limited = True, rl_retryAfterSeconds = Option.bind fromHeaders rl_retryAfterSeconds,
                rl_resetsAt = Some (Instant resetsAt), rl_resetSource = ProviderReported,
                rl_windows = (case fromHeaders of None \<Rightarrow> [] | Some h \<Rightarrow> rl_windows h) @
                  [\<lparr>lr_resetsAt = Some resetsAt, lr_limiter = ''weekly-monthly'', lr_utilization = Some 1,
                    lr_utilizationSource = ThresholdTriggered\<rparr>],
                rl_quotaWindows = Option.bind fromHeaders rl_quotaWindows\<rparr>)"

definition parseGeminiRateLimit ::
  "'b body_readers \<Rightarrow> rate_limit_signal option \<Rightarrow> 'b upstream_response \<Rightarrow> rate_limit_signal option" where
  "parseGeminiRateLimit readers signal response =
     (case signal of
        None \<Rightarrow> None
      | Some s \<Rightarrow>
          if \<not> rl_limited s \<or> rl_retryAfterSeconds s \<noteq> None then signal
          else case br_retryDelaySeconds readers (ur_body response) of
                 None \<Rightarrow> signal
               | Some seconds \<Rightarrow> Some (s\<lparr>rl_retryAfterSeconds := Some (Fin seconds), rl_resetSource := ProviderReported\<rparr>))"

definition parseCompatibleRateLimit ::
  "'b body_readers \<Rightarrow> rate_limit_signal option \<Rightarrow> 'b upstream_response \<Rightarrow> rate_limit_signal option" where
  "parseCompatibleRateLimit readers parsed response =
     (if states_reset parsed then parsed
      else case br_compatibleBodyReset readers response of
             None \<Rightarrow> parsed
           | Some resetsAt \<Rightarrow>
               Some \<lparr>rl_limited = True, rl_retryAfterSeconds = None, rl_resetsAt = Some (Instant resetsAt),
                     rl_resetSource = ProviderReported, rl_windows = (case parsed of None \<Rightarrow> [] | Some p \<Rightarrow> rl_windows p),
                     rl_quotaWindows = None\<rparr>)"

definition codexSignal ::
  "'b body_readers \<Rightarrow> rate_limit_signal option \<Rightarrow> 'b upstream_response \<Rightarrow> rate_limit_signal option" where
  "codexSignal readers fromHeaders response =
     (let seconds = br_resetsInSeconds readers (ur_body response);
          (quotaWindows, extraWindows) = br_codexQuota readers response
      in if fromHeaders = None \<and> quotaWindows = [] \<and> extraWindows = [] \<and> seconds = None then None
         else
           let baseSignal = (case fromHeaders of
                               None \<Rightarrow> \<lparr>rl_limited = False, rl_retryAfterSeconds = None, rl_resetsAt = None,
                                       rl_resetSource = UnknownReset, rl_windows = extraWindows, rl_quotaWindows = None\<rparr>
                             | Some h \<Rightarrow> h\<lparr>rl_windows := rl_windows h @ extraWindows\<rparr>);
               signalWithQuota = (if quotaWindows = [] then baseSignal else baseSignal\<lparr>rl_quotaWindows := Some quotaWindows\<rparr>)
           in case seconds of
                None \<Rightarrow> Some signalWithQuota
              | Some sec \<Rightarrow>
                  Some (signalWithQuota\<lparr>rl_limited := True,
                    rl_retryAfterSeconds := (case rl_retryAfterSeconds signalWithQuota of None \<Rightarrow> Some (Fin sec) | Some r \<Rightarrow> Some r),
                    rl_resetSource := ProviderReported\<rparr>))"

definition driver_parse ::
  "http_driver \<Rightarrow> 'b body_readers \<Rightarrow> ('b option \<Rightarrow> upstream_error_facts) \<Rightarrow> (string \<Rightarrow> instant option) \<Rightarrow>
   (string \<Rightarrow> string \<Rightarrow> rat) \<Rightarrow> 'b upstream_response \<Rightarrow> rate_limit_signal option" where
  "driver_parse d readers readFacts date_parse collate response =
     (let fromHeaders = parseRateLimitHeaders date_parse collate response
      in case d of
           ZaiDriver \<Rightarrow> parseZaiRateLimit readFacts date_parse fromHeaders response
         | GeminiDriver \<Rightarrow> parseGeminiRateLimit readers fromHeaders response
         | OpenAiOAuthDriver \<Rightarrow> codexSignal readers fromHeaders response
         | OpenAiCompatibleDriver \<Rightarrow> parseCompatibleRateLimit readers fromHeaders response
         | AnthropicCompatibleDriver \<Rightarrow> parseCompatibleRateLimit readers fromHeaders response
         | _ \<Rightarrow> fromHeaders)"

section \<open>What a verdict rests on\<close>






lemma classify_Some:
  assumes "classifyUpstreamFailure options response = Some c"
  shows "fc_status c = ur_status response \<and> fc_retryable c = RETRYABLE (fc_kind c) \<and>
    ((\<exists>r. find (\<lambda>r. cr_when r (co_readFacts options (ur_body response)) (ur_status response)
            (states_reset (co_parseRateLimit options response))) (co_rules options) = Some r \<and> fc_kind c = cr_kind r \<and>
         fc_rateLimit c = withEstimatedReset (co_parseRateLimit options response) (cr_estimatedResetSeconds r)) \<or>
     (find (\<lambda>r. cr_when r (co_readFacts options (ur_body response)) (ur_status response)
            (states_reset (co_parseRateLimit options response))) (co_rules options) = None \<and>
      (\<exists>sig. verdictForStatus (ur_status response) = Some (fc_kind c, sig)) \<and>
      fc_rateLimit c = co_parseRateLimit options response))"
  using assms by (auto simp: classifyUpstreamFailure_def withEstimatedReset_def Let_def split: option.splits)


text \<open>A whole number of seconds in \<open>retry-after\<close> is the reset the signal carries, before any limiter's.\<close>

lemma parse_retry_after:
  assumes "header_get ''retry-after-ms'' hs = None" "header_get ''retry-after'' hs = Some (show_nat n)" "0 < n" "of_nat n < OVERFLOW"
    and "ur_headers response = hs"
  shows "parseRateLimitHeaders date_parse collate response =
    Some \<lparr>rl_limited = (ur_status response = 429 \<or> list_ex (\<lambda>w. rw_remaining w = Some 0) (header_windows date_parse collate hs)),
          rl_retryAfterSeconds = Some (Fin (of_nat n)), rl_resetsAt = None, rl_resetSource = ProviderReported,
          rl_windows = map toLimiterReading (header_windows date_parse collate hs), rl_quotaWindows = None\<rparr>"
proof -
  have "- OVERFLOW < of_nat n" by (simp add: OVERFLOW_def)
  then have num: "js_Number (show_nat n) = Fin (of_nat n)" using assms(4) by (simp add: js_Number_show to_double_def)
  have trim: "js_trim (show_nat n) \<noteq> []"
    using trim_digits [OF show_nat_digits show_nat_nonempty, of n] show_nat_nonempty [of n] by simp
  have "parseRetryAfter date_parse hs = NO_RETRY\<lparr>ra_seconds := Some (of_nat n)\<rparr>"
    using assms(1-3) num trim by (simp add: parseRetryAfter_def is_finite_def positive_number_def)
  then show ?thesis using assms(5) by (simp add: parseRateLimitHeaders_def NO_RETRY_def Let_def)
qed

definition spent_facts :: "upstream_error_facts" where
  "spent_facts = \<lparr>uf_type = None, uf_code = Some ''insufficient_quota'', uf_message = Some ''You exceeded your quota''\<rparr>"

definition refused_with :: "headers \<Rightarrow> unit upstream_response" where
  "refused_with hs = \<lparr>ur_status = 429, ur_headers = hs, ur_body = None\<rparr>"

abbreviation plain_parse :: "unit upstream_response \<Rightarrow> rate_limit_signal option" where
  "plain_parse \<equiv> parseRateLimitHeaders (\<lambda>_. None) (\<lambda>_ _. 0)"


definition guarded_drivers :: "http_driver list" where
  "guarded_drivers = [GroqDriver, MistralDriver, CerebrasDriver, TogetherDriver, XaiDriver, OllamaDriver]"

lemma find_before: "P x \<Longrightarrow> Q x \<Longrightarrow> list_all (\<lambda>r. P r \<longrightarrow> Q r) pre \<Longrightarrow> \<exists>r. find P (pre @ x # post) = Some r \<and> Q r"
  by (induction pre) auto

definition no_credit_rule :: "classification_rule \<Rightarrow> bool" where
  "no_credit_rule r \<longleftrightarrow>
     (cr_kind r = UpCreditsExhausted \<longrightarrow> cr_when r = (\<lambda>facts _ _. one_of (uf_code facts) [''blocked_api_access'']))"

lemma no_credit_rules:
  "k \<noteq> UpCreditsExhausted \<Longrightarrow> no_credit_rule (mk_rule k sig w)"
  "k \<noteq> UpCreditsExhausted \<Longrightarrow> no_credit_rule (codeRule k sig names)"
  "k \<noteq> UpCreditsExhausted \<Longrightarrow> no_credit_rule (typeRule k sig names)"
  "k \<noteq> UpCreditsExhausted \<Longrightarrow> no_credit_rule (messageRule k sig pattern)"
  "no_credit_rule (codeRule k sig [''blocked_api_access''])"
  by (simp_all add: no_credit_rule_def mk_rule_def codeRule_def typeRule_def messageRule_def)

lemma guarded_rules:
  assumes "d \<in> set guarded_drivers"
  shows "\<exists>pre. driver_rules d = pre @ throttleStatusRule # [genericCreditsRule] \<and> list_all no_credit_rule pre"
proof (rule exI [of _ "take (length (driver_rules d) - 2) (driver_rules d)"])
  from assms consider "d = GroqDriver" | "d = MistralDriver" | "d = CerebrasDriver" | "d = TogetherDriver" | "d = XaiDriver" | "d = OllamaDriver"
    by (auto simp: guarded_drivers_def)
  then show "driver_rules d = take (length (driver_rules d) - 2) (driver_rules d) @ throttleStatusRule # [genericCreditsRule] \<and>
      list_all no_credit_rule (take (length (driver_rules d) - 2) (driver_rules d))"
    by cases (simp_all add: groq_rules_def mistral_rules_def cerebras_rules_def together_rules_def xai_rules_def ollama_rules_def
        no_credit_rules del: RLit.simps)
qed

lemma guarded_verdict:
  assumes "d \<in> set guarded_drivers" "\<not> namesCreditCode facts" "uf_code facts \<noteq> Some ''blocked_api_access''"
  shows "\<exists>r. find (\<lambda>r. cr_when r facts 429 stated) (driver_rules d) = Some r \<and> cr_kind r \<noteq> UpCreditsExhausted"
proof -
  obtain pre where pre: "driver_rules d = pre @ throttleStatusRule # [genericCreditsRule]"
      "list_all no_credit_rule pre"
    using guarded_rules [OF assms(1)] by blast
  have blocked: "\<not> one_of (uf_code facts) [''blocked_api_access'']"
    using assms(3) by (auto simp: one_of_def split: option.splits)
  show ?thesis unfolding pre(1)
  proof (rule find_before)
    show "cr_when throttleStatusRule facts 429 stated" "cr_kind throttleStatusRule \<noteq> UpCreditsExhausted"
      using assms(2) by (simp_all add: throttleStatusRule_def mk_rule_def)
    show "list_all (\<lambda>r. cr_when r facts 429 stated \<longrightarrow> cr_kind r \<noteq> UpCreditsExhausted) pre"
      using pre(2) blocked by (auto simp: list_all_iff no_credit_rule_def)
  qed
qed

text \<open>
  (C24) Behind the throttle guard, wording never turns a throttle into a dead balance: for the drivers that
  list it (Groq, Mistral, Cerebras, Together, xAI, Ollama) a 429 is classified as spent credit only when
  the body names a credit code, or Groq's own code for blocked access, whatever its message says.
\<close>

theorem throttle_is_no_dead_balance:
  assumes "d \<in> set guarded_drivers" and "ur_status response = 429"
    and "classifyUpstreamFailure (driver_options d readFacts parse) response = Some c" and "fc_kind c = UpCreditsExhausted"
  shows "namesCreditCode (readFacts (ur_body response)) \<or> uf_code (readFacts (ur_body response)) = Some ''blocked_api_access''"
proof (rule ccontr)
  assume "\<not> ?thesis"
  then obtain r where "find (\<lambda>r. cr_when r (readFacts (ur_body response)) 429 (states_reset (parse response))) (driver_rules d) = Some r"
      "cr_kind r \<noteq> UpCreditsExhausted"
    using guarded_verdict [OF assms(1)] by blast
  then show False using classify_Some [OF assms(3)] assms(2,4) by (auto simp: driver_options_def)
qed

theorem throttle_is_no_dead_balance_witness:
  "namesCreditCode spent_facts \<or> uf_code spent_facts = Some ''blocked_api_access''"
proof -
  let ?c = "classifyUpstreamFailure (driver_options XaiDriver (\<lambda>_. spent_facts) plain_parse) (refused_with [])"
  obtain c where c: "?c = Some c" "fc_kind c = UpCreditsExhausted"
    by (simp add: classifyUpstreamFailure_def driver_options_def xai_rules_def throttleStatusRule_def genericCreditsRule_def mk_rule_def
        namesCreditCode_def one_of_def COMPATIBLE_CREDIT_CODES_def spent_facts_def refused_with_def Let_def)
  show ?thesis using throttle_is_no_dead_balance [OF _ _ c] by (simp add: guarded_drivers_def refused_with_def)
qed

text \<open>What each driver's own parser keeps of a stated \<open>Retry-After\<close>: only z.ai can add an instant beside it.\<close>

definition body_reset ::
  "http_driver \<Rightarrow> ('b option \<Rightarrow> upstream_error_facts) \<Rightarrow> (string \<Rightarrow> instant option) \<Rightarrow> 'b upstream_response \<Rightarrow> instant option" where
  "body_reset d readFacts date_parse response =
     (if d = ZaiDriver then parseZaiReset readFacts date_parse (ur_body response) else None)"

lemma driver_parse_retry:
  assumes "parseRateLimitHeaders date_parse collate response = Some h" and "rl_retryAfterSeconds h = Some r"
    and "rl_resetsAt h = None" and "rl_resetSource h = ProviderReported"
  shows "\<exists>g. driver_parse d readers readFacts date_parse collate response = Some g \<and> rl_retryAfterSeconds g = Some r \<and>
    rl_resetsAt g = map_option Instant (body_reset d readFacts date_parse response) \<and> rl_resetSource g = ProviderReported"
  using assms
  by (cases d)
    (auto simp: driver_parse_def body_reset_def parseZaiRateLimit_def parseGeminiRateLimit_def parseCompatibleRateLimit_def
      codexSignal_def states_reset_def Let_def split: option.splits prod.splits)

lemma reported_later_of_two:
  assumes "af_resetsAt f = map_option Instant b" and "af_retryAfterSeconds f = Some (Fin (of_nat n))" and "0 < n"
    and "of_int now + of_nat n * 1000 \<le> MAX_TIME_VALUE" and "\<And>t. b = Some t \<Longrightarrow> of_int t \<le> MAX_TIME_VALUE"
  shows "reportedReset f now = Some (case b of None \<Rightarrow> now + int n * 1000 | Some t \<Rightarrow> max t (now + int n * 1000))"
proof -
  have whole: "of_int now + of_nat n * 1000 = (of_int (now + int n * 1000) :: rat)" by simp
  have later: "(of_int now :: rat) < of_int (now + int n * 1000)" using assms(3) by simp
  show ?thesis
  proof (cases b)
    case None
    then show ?thesis using assms(1,2,3,4) later unfolding whole
      by (auto simp: reportedReset_def latestResetDeadline_def whole Let_def simp del: of_int_add of_int_mult)
  next
    case (Some t)
    have "of_int t \<le> MAX_TIME_VALUE" using assms(5) Some by simp
    moreover have "max (of_int t) (of_int k) = (of_int (max t k) :: rat)" for k by (simp add: max_def)
    ultimately show ?thesis using Some assms(1,2,3,4) later unfolding whole
      by (auto simp: reportedReset_def latestResetDeadline_def whole max.commute max_def Let_def simp del: of_int_add of_int_mult)
  qed
qed

text \<open>
  (C23) A stated \<open>Retry-After\<close> reaches the breaker, from the header through the driver's own parser and
  rules: for each of the eighteen HTTP drivers and any body, a response classified as a limit whose
  \<open>retry-after\<close> is a whole positive number of seconds, with no \<open>retry-after-ms\<close> beside it, cools a
  healthy account, labelled as reported by the provider, until exactly that many seconds from now. The
  one exception is a z.ai message that names a reset instant: then it is the later of the two. A
  rule's own estimate never replaces it. The clock and the deadline are in the range of a date, and
  \<open>Date.parse\<close> answers instants of that range.
\<close>

theorem retry_after_reaches_breaker:
  assumes "header_get ''retry-after-ms'' (ur_headers response) = None"
    and "header_get ''retry-after'' (ur_headers response) = Some (show_nat n)" and "0 < n"
    and "0 \<le> now" and "of_int now + of_nat n * 1000 \<le> MAX_TIME_VALUE"
    and "\<And>v t. date_parse v = Some t \<Longrightarrow> of_int t \<le> MAX_TIME_VALUE"
    and "classifyUpstreamFailure (driver_options d readFacts (driver_parse d readers readFacts date_parse collate)) response = Some c"
    and "fc_kind c = UpRateLimited"
  shows "let f = toAttemptFailure (ur_status response) (Some c) (driver_parse d readers readFacts date_parse collate response);
             s' = recordFailure HEALTHY f now opts; stated = now + int n * 1000
    in bs_status s' = CoolingDown \<and> bs_cooldownSource s' = ProviderReported \<and>
       bs_cooldownUntil s' = Some (if d = ZaiDriver
         then (case parseZaiReset readFacts date_parse (ur_body response) of None \<Rightarrow> stated | Some t \<Rightarrow> max t stated)
         else stated)"
proof -
  have "of_nat n * 1000 \<le> (MAX_TIME_VALUE :: rat)" using assms(4,5) by (metis add_increasing le_add_same_cancel2 of_int_0_le_iff order_trans)
  then have "of_nat n < OVERFLOW" by (simp add: MAX_TIME_VALUE_def OVERFLOW_def)
  note parsed = parse_retry_after [OF assms(1-3) this refl, of date_parse collate]
  let ?parse = "driver_parse d readers readFacts date_parse collate"
  let ?b = "body_reset d readFacts date_parse response"
  obtain g where g: "?parse response = Some g" "rl_retryAfterSeconds g = Some (Fin (of_nat n))"
      "rl_resetsAt g = map_option Instant ?b" "rl_resetSource g = ProviderReported"
    using driver_parse_retry [OF parsed, of "Fin (of_nat n)" d readers readFacts] by auto
  have "withEstimatedReset (?parse response) e = ?parse response" for e
    using g by (simp add: withEstimatedReset_def states_reset_def split: option.splits)
  then have limit: "fc_rateLimit c = Some g" using classify_Some [OF assms(7)] g(1) by (auto simp: driver_options_def)
  let ?f = "toAttemptFailure (ur_status response) (Some c) (?parse response)"
  have f: "af_kind ?f = RateLimited" "af_resetsAt ?f = map_option Instant ?b"
    "af_retryAfterSeconds ?f = Some (Fin (of_nat n))" "af_resetSource ?f = Some ProviderReported"
    using g by (simp_all add: toAttemptFailure_def limit assms(8) failoverKind_def Let_def)
  have "of_int t \<le> MAX_TIME_VALUE" if "?b = Some t" for t
    using that assms(6) by (auto simp: body_reset_def parseZaiReset_def parseInstant_def split: if_splits option.splits)
  then have "reportedReset ?f now = Some (case ?b of None \<Rightarrow> now + int n * 1000 | Some t \<Rightarrow> max t (now + int n * 1000))"
    using reported_later_of_two [OF f(2,3) assms(3,5)] by blast
  then show ?thesis
    using f by (auto simp: recordFailure_def trip_def HEALTHY_def refusalStands_def body_reset_def Let_def split: option.splits)
qed

text \<open>A z.ai limit that states both: the message's instant is the later one, and it is the one kept.\<close>

definition window_facts :: "upstream_error_facts" where
  "window_facts = \<lparr>uf_type = None, uf_code = Some ''1310'', uf_message = Some ''Limit. Your limit will reset at 2026-08-01 10:03:40''\<rparr>"

definition demo_clock :: "string \<Rightarrow> instant option" where
  "demo_clock v = (if v = ''2026-08-01T10:03:40+08:00'' then Some 90000 else None)"

definition no_readers :: "unit body_readers" where
  "no_readers = \<lparr>br_retryDelaySeconds = (\<lambda>_. None), br_compatibleBodyReset = (\<lambda>_. None), br_resetsInSeconds = (\<lambda>_. None),
                 br_codexQuota = (\<lambda>_. ([], []))\<rparr>"

lemma no_balance:
  "\<not> test_i (RAlts [RLit ''insufficient balance'', RLit ''balance is insufficient'', RLit ''account balance''])
     ''Limit. Your limit will reset at 2026-08-01 10:03:40''"
  by code_simp

theorem retry_after_reaches_breaker_witness:
  "let r = refused_with [(''retry-after'', ''30'')]; parse = driver_parse ZaiDriver no_readers (\<lambda>_. window_facts) demo_clock (\<lambda>_ _. 0)
   in \<exists>c. classifyUpstreamFailure (driver_options ZaiDriver (\<lambda>_. window_facts) parse) r = Some c \<and> fc_kind c = UpRateLimited \<and>
     bs_cooldownUntil (recordFailure HEALTHY (toAttemptFailure 429 (Some c) (parse r)) 1000 NO_BREAKER_OPTIONS) = Some 90000 \<and>
     bs_cooldownUntil (recordFailure HEALTHY (toAttemptFailure 429 (Some c) (parse r)) 70000 NO_BREAKER_OPTIONS) = Some 100000"
proof -
  let ?r = "refused_with [(''retry-after'', ''30'')]"
  let ?parse = "driver_parse ZaiDriver no_readers (\<lambda>_. window_facts) demo_clock (\<lambda>_ _. 0)"
  obtain c where c: "classifyUpstreamFailure (driver_options ZaiDriver (\<lambda>_. window_facts) ?parse) ?r = Some c" "fc_kind c = UpRateLimited"
    by (simp add: classifyUpstreamFailure_def driver_options_def zai_rules_def codeRule_def mk_rule_def one_of_def
        messageRule_def window_facts_def no_balance Let_def del: RLit.simps RAlts.simps)
  have thirty: "show_nat 30 = ''30''" by code_simp
  have reset: "parseZaiReset (\<lambda>_. window_facts) demo_clock (ur_body ?r) = Some 90000" by code_simp
  have "demo_clock v = Some t \<Longrightarrow> of_int t \<le> MAX_TIME_VALUE" for v t
    by (auto simp: demo_clock_def MAX_TIME_VALUE_def split: if_splits)
  note at = retry_after_reaches_breaker [of ?r 30 _ demo_clock ZaiDriver "\<lambda>_. window_facts" no_readers "\<lambda>_ _. 0" c NO_BREAKER_OPTIONS,
      OF _ _ _ _ _ this c]
  show ?thesis
    using at [of 1000] at [of 70000] c thirty reset
    by (auto simp: refused_with_def header_get_def MAX_TIME_VALUE_def Let_def)
qed

end
