(* ===== verification/Credential_Envelope.thy ===== *)
theory Credential_Envelope
  imports Router_Key
begin

text \<open>
  Secrets at rest: the envelope (\<open>crypto/envelope.ts\<close>) and the cipher over it (\<open>crypto/cipher.ts\<close>).
  AES-256-GCM is OpenSSL's: \<open>seal\<close> and \<open>unseal\<close> are arguments. A credential enters and leaves as the bytes of
  its UTF-8 encoding, and the nonce is drawn by the caller. \<open>Buffer\<close>'s base64url is modelled: its alphabet is
  the one router keys use, and its decoder drops what does not make a byte.
\<close>

type_synonym bytes = "8 word list"

section \<open>base64url\<close>

definition symbol :: "nat \<Rightarrow> char" where
  "symbol n = ALPHABET ! n"

definition symbol_index :: "char \<Rightarrow> nat" where
  "symbol_index c = length (takeWhile (\<lambda>d. d \<noteq> c) ALPHABET)"

fun encodeSegment :: "bytes \<Rightarrow> string" where
  "encodeSegment [] = []"
| "encodeSegment [a] = [symbol (unat a div 4), symbol (unat a mod 4 * 16)]"
| "encodeSegment [a, b] =
     [symbol (unat a div 4), symbol (unat a mod 4 * 16 + unat b div 16), symbol (unat b mod 16 * 4)]"
| "encodeSegment (a # b # c # rest) =
     [symbol (unat a div 4), symbol (unat a mod 4 * 16 + unat b div 16), symbol (unat b mod 16 * 4 + unat c div 64),
      symbol (unat c mod 64)] @ encodeSegment rest"

definition byte_1 :: "char \<Rightarrow> char \<Rightarrow> 8 word" where
  "byte_1 w x = of_nat (symbol_index w * 4 + symbol_index x div 16)"

definition byte_2 :: "char \<Rightarrow> char \<Rightarrow> 8 word" where
  "byte_2 x y = of_nat (symbol_index x mod 16 * 16 + symbol_index y div 4)"

definition byte_3 :: "char \<Rightarrow> char \<Rightarrow> 8 word" where
  "byte_3 y z = of_nat (symbol_index y mod 4 * 64 + symbol_index z)"

fun decodeSegment :: "string \<Rightarrow> bytes" where
  "decodeSegment [] = []"
| "decodeSegment [w] = []"
| "decodeSegment [w, x] = [byte_1 w x]"
| "decodeSegment [w, x, y] = [byte_1 w x, byte_2 x y]"
| "decodeSegment (w # x # y # z # rest) = [byte_1 w x, byte_2 x y, byte_3 y z] @ decodeSegment rest"

section \<open>The envelope (\<open>envelope.ts\<close>)\<close>

definition ENVELOPE_VERSION :: string where "ENVELOPE_VERSION = ''v1''"
definition ENVELOPE_SEGMENTS :: nat where "ENVELOPE_SEGMENTS = 5"
definition IV_BYTES :: nat where "IV_BYTES = 12"
definition AUTH_TAG_BYTES :: nat where "AUTH_TAG_BYTES = 16"

record credential_envelope =
  ce_keyId :: string
  ce_iv :: bytes
  ce_authTag :: bytes
  ce_ciphertext :: bytes

definition envelopeHeader :: "string \<Rightarrow> string" where
  "envelopeHeader keyId = ENVELOPE_VERSION @ ''.'' @ keyId"

definition formatEnvelope :: "credential_envelope \<Rightarrow> string" where
  "formatEnvelope e =
     join ''.'' [envelopeHeader (ce_keyId e), encodeSegment (ce_iv e), encodeSegment (ce_authTag e), encodeSegment (ce_ciphertext e)]"

text \<open>\<open>value.split(".")\<close>.\<close>

fun split_dots :: "string \<Rightarrow> string list" where
  "split_dots [] = [[]]"
| "split_dots (c # s) =
     (if c = CHR ''.'' then [] # split_dots s
      else case split_dots s of p # ps \<Rightarrow> (c # p) # ps | [] \<Rightarrow> [[c]])"

text \<open>\<open>/^[A-Za-z0-9_-]+$/\<close> and \<open>/^[A-Za-z0-9][A-Za-z0-9_-]{0,31}$/\<close>.\<close>

definition base64url :: "string \<Rightarrow> bool" where
  "base64url s \<longleftrightarrow> s \<noteq> [] \<and> list_all (\<lambda>c. c \<in> set KEY_CLASS) s"

definition keyId_ok :: "string \<Rightarrow> bool" where
  "keyId_ok s \<longleftrightarrow>
     s \<noteq> [] \<and> hd s \<in> set KEY_CLASS \<and> hd s \<notin> set ''_-'' \<and> length s \<le> 32 \<and> list_all (\<lambda>c. c \<in> set KEY_CLASS) (tl s)"

datatype envelope_rejection =
    WrongSegments nat | BadVersion | BadKeyId | NotBase64url string | WrongNonce nat | WrongTag nat

text \<open>The schema reports the first field that fails.\<close>

definition envelopeSegments :: "string list \<Rightarrow> envelope_rejection option" where
  "envelopeSegments s =
     (if s ! 0 \<noteq> ENVELOPE_VERSION then Some BadVersion
      else if \<not> keyId_ok (s ! 1) then Some BadKeyId
      else if \<not> base64url (s ! 2) then Some (NotBase64url ''iv'')
      else if \<not> base64url (s ! 3) then Some (NotBase64url ''authTag'')
      else if \<not> base64url (s ! 4) then Some (NotBase64url ''ciphertext'')
      else None)"

definition parseEnvelope :: "string \<Rightarrow> envelope_rejection + credential_envelope" where
  "parseEnvelope v =
     (let segments = split_dots v
      in if length segments \<noteq> ENVELOPE_SEGMENTS then Inl (WrongSegments (length segments))
         else case envelopeSegments segments of
                Some r \<Rightarrow> Inl r
              | None \<Rightarrow>
                  let iv = decodeSegment (segments ! 2); authTag = decodeSegment (segments ! 3)
                  in if length iv \<noteq> IV_BYTES then Inl (WrongNonce (length iv))
                     else if length authTag \<noteq> AUTH_TAG_BYTES then Inl (WrongTag (length authTag))
                     else Inr \<lparr>ce_keyId = segments ! 1, ce_iv = iv, ce_authTag = authTag, ce_ciphertext = decodeSegment (segments ! 4)\<rparr>)"

section \<open>The cipher (\<open>cipher.ts\<close>)\<close>

type_synonym sealer = "bytes \<Rightarrow> bytes \<Rightarrow> string \<Rightarrow> bytes \<Rightarrow> bytes \<times> bytes"
type_synonym unsealer = "bytes \<Rightarrow> bytes \<Rightarrow> string \<Rightarrow> bytes \<Rightarrow> bytes \<Rightarrow> bytes option"

definition CREDENTIAL_KEY_BYTES :: nat where "CREDENTIAL_KEY_BYTES = 32"
definition DEFAULT_KEY_ID :: string where "DEFAULT_KEY_ID = ''k1''"

record credential_cipher =
  cc_key :: bytes
  cc_keyId :: string

definition createCredentialCipher :: "bytes \<Rightarrow> string option \<Rightarrow> credential_cipher option" where
  "createCredentialCipher key keyId =
     (if length key \<noteq> CREDENTIAL_KEY_BYTES then None
      else Some \<lparr>cc_key = key, cc_keyId = (case keyId of Some i \<Rightarrow> i | None \<Rightarrow> DEFAULT_KEY_ID)\<rparr>)"

text \<open>\<open>None\<close>: an empty credential is refused.\<close>

definition encrypt :: "sealer \<Rightarrow> credential_cipher \<Rightarrow> bytes \<Rightarrow> bytes \<Rightarrow> string option" where
  "encrypt seal c iv plaintext =
     (if plaintext = [] then None
      else
        let (ciphertext, authTag) = seal (cc_key c) iv (envelopeHeader (cc_keyId c)) plaintext
        in Some (formatEnvelope \<lparr>ce_keyId = cc_keyId c, ce_iv = iv, ce_authTag = authTag, ce_ciphertext = ciphertext\<rparr>))"

datatype decrypt_error = EnvelopeRejected envelope_rejection | ForeignKeyId | NotAuthentic

definition open_envelope :: "unsealer \<Rightarrow> credential_envelope \<Rightarrow> bytes \<Rightarrow> string \<Rightarrow> decrypt_error + bytes" where
  "open_envelope unseal e key header =
     (case unseal key (ce_iv e) header (ce_ciphertext e) (ce_authTag e) of None \<Rightarrow> Inl NotAuthentic | Some p \<Rightarrow> Inr p)"

definition decrypt :: "unsealer \<Rightarrow> credential_cipher \<Rightarrow> string \<Rightarrow> decrypt_error + bytes" where
  "decrypt unseal c envelope =
     (case parseEnvelope envelope of
        Inl r \<Rightarrow> Inl (EnvelopeRejected r)
      | Inr e \<Rightarrow>
          if ce_keyId e \<noteq> cc_keyId c then Inl ForeignKeyId
          else open_envelope unseal e (cc_key c) (envelopeHeader (cc_keyId c)))"

section \<open>Round trips\<close>

lemma symbol_index_symbol: "n < 64 \<Longrightarrow> symbol_index (symbol n) = n"
proof -
  assume n: "n < 64"
  have "takeWhile (\<lambda>d. d \<noteq> ALPHABET ! n) ALPHABET = take n ALPHABET"
  proof (rule takeWhile_eq_take_P_nth)
    fix i assume "i < n" "i < length ALPHABET"
    then show "ALPHABET ! i \<noteq> ALPHABET ! n" using n alphabet_distinct alphabet_length by (simp add: nth_eq_iff_index_eq)
  qed simp
  then show ?thesis using n alphabet_length by (simp add: symbol_index_def symbol_def)
qed

lemma byte_bound: "unat (b :: 8 word) < 256"
  using unsigned_less [of b] by simp

lemma nat_of_byte: "(of_nat (unat b) :: 8 word) = b"
  by simp

lemma byte_1_encoded: "k < 16 \<Longrightarrow> byte_1 (symbol (unat a div 4)) (symbol (unat a mod 4 * 16 + k)) = a"
proof -
  assume k: "k < 16"
  have "unat a div 4 < 64" "unat a mod 4 * 16 + k < 64" using byte_bound [of a] k by auto
  moreover have "(unat a mod 4 * 16 + k) div 16 = unat a mod 4" using k by simp
  ultimately show ?thesis by (simp add: byte_1_def symbol_index_symbol)
qed

lemma byte_2_encoded: "j < 4 \<Longrightarrow> k < 4 \<Longrightarrow> byte_2 (symbol (j * 16 + unat b div 16)) (symbol (unat b mod 16 * 4 + k)) = b"
proof -
  assume jk: "j < 4" "k < 4"
  have lt: "unat b div 16 < 16" using byte_bound [of b] by auto
  then have "j * 16 + unat b div 16 < 64" "unat b mod 16 * 4 + k < 64" using jk by auto
  moreover have "(j * 16 + unat b div 16) mod 16 = unat b div 16" using lt by simp
  moreover have "(unat b mod 16 * 4 + k) div 4 = unat b mod 16" using jk by simp
  ultimately show ?thesis by (simp add: byte_2_def symbol_index_symbol)
qed

lemma byte_3_encoded: "j < 16 \<Longrightarrow> byte_3 (symbol (j * 4 + unat c div 64)) (symbol (unat c mod 64)) = c"
proof -
  assume j: "j < 16"
  have lt: "unat c div 64 < 4" using byte_bound [of c] by auto
  then have "j * 4 + unat c div 64 < 64" "unat c mod 64 < 64" using j by auto
  moreover have "(j * 4 + unat c div 64) mod 4 = unat c div 64" using lt by simp
  ultimately show ?thesis by (simp add: byte_3_def symbol_index_symbol)
qed

lemma decode_encode: "decodeSegment (encodeSegment bs) = bs"
proof (induction bs rule: encodeSegment.induct)
  case (2 a)
  then show ?case using byte_1_encoded [of 0 a] by simp
next
  case (3 a b)
  have "unat b div 16 < 16" using byte_bound [of b] by auto
  then show ?case using byte_1_encoded [of "unat b div 16" a] byte_2_encoded [of "unat a mod 4" 0 b] by simp
next
  case (4 a b c rest)
  have "unat b div 16 < 16" "unat c div 64 < 4" using byte_bound [of b] byte_bound [of c] by auto
  then show ?case
    using 4 byte_1_encoded [of "unat b div 16" a] byte_2_encoded [of "unat a mod 4" "unat c div 64" b] byte_3_encoded [of "unat b mod 16" c]
    by simp
qed simp
lemma symbol_class: "n < 64 \<Longrightarrow> symbol n \<in> set KEY_CLASS"
  by (simp add: symbol_def index_in_alphabet)

lemma encode_class: "list_all (\<lambda>c. c \<in> set KEY_CLASS) (encodeSegment bs)"
proof (induction bs rule: encodeSegment.induct)
  case (2 a)
  have "unat a div 4 < 64" "unat a mod 4 * 16 < 64" using byte_bound [of a] by auto
  then show ?case by (simp add: symbol_class)
next
  case (3 a b)
  have "unat a div 4 < 64" "unat a mod 4 * 16 + unat b div 16 < 64" "unat b mod 16 * 4 < 64"
    using byte_bound [of a] byte_bound [of b] by auto
  then show ?case by (simp add: symbol_class)
next
  case (4 a b c rest)
  have "unat a div 4 < 64" "unat a mod 4 * 16 + unat b div 16 < 64" "unat b mod 16 * 4 + unat c div 64 < 64" "unat c mod 64 < 64"
    using byte_bound [of a] byte_bound [of b] byte_bound [of c] by auto
  then show ?case using 4 by (simp add: symbol_class)
qed simp

lemma encode_base64url: "bs \<noteq> [] \<Longrightarrow> base64url (encodeSegment bs)"
  using encode_class [of bs] by (cases bs rule: encodeSegment.cases) (auto simp: base64url_def)

lemma class_no_dot: "c \<in> set KEY_CLASS \<Longrightarrow> c \<noteq> CHR ''.''"
proof -
  have "list_all (\<lambda>c. c \<noteq> CHR ''.'') KEY_CLASS" by code_simp
  then show "c \<in> set KEY_CLASS \<Longrightarrow> c \<noteq> CHR ''.''" unfolding list_all_iff by (rule bspec)
qed

lemma split_plain: "CHR ''.'' \<notin> set p \<Longrightarrow> split_dots p = [p]"
  by (induction p) auto

lemma split_cons: "CHR ''.'' \<notin> set p \<Longrightarrow> split_dots (p @ CHR ''.'' # s) = p # split_dots s"
  by (induction p) auto

lemma class_plain: "list_all (\<lambda>c. c \<in> set KEY_CLASS) p \<Longrightarrow> CHR ''.'' \<notin> set p"
  using class_no_dot by (auto simp: list_all_iff)

lemma keyId_plain: "keyId_ok p \<Longrightarrow> CHR ''.'' \<notin> set p"
  using class_no_dot by (cases p) (auto simp: keyId_ok_def list_all_iff)

lemma split_format:
  assumes "keyId_ok (ce_keyId e)"
  shows "split_dots (formatEnvelope e) =
    [ENVELOPE_VERSION, ce_keyId e, encodeSegment (ce_iv e), encodeSegment (ce_authTag e), encodeSegment (ce_ciphertext e)]"
proof -
  have "CHR ''.'' \<notin> set ENVELOPE_VERSION" by (simp add: ENVELOPE_VERSION_def)
  then show ?thesis
    using keyId_plain [OF assms] class_plain [OF encode_class]
    by (simp add: formatEnvelope_def envelopeHeader_def split_cons split_plain)
qed

lemma parse_format:
  assumes "keyId_ok (ce_keyId e)" "length (ce_iv e) = IV_BYTES" "length (ce_authTag e) = AUTH_TAG_BYTES" "ce_ciphertext e \<noteq> []"
  shows "parseEnvelope (formatEnvelope e) = Inr e"
proof -
  have "ce_iv e \<noteq> []" "ce_authTag e \<noteq> []" using assms(2,3) by (auto simp: IV_BYTES_def AUTH_TAG_BYTES_def)
  then show ?thesis
    using assms by (simp add: parseEnvelope_def split_format envelopeSegments_def ENVELOPE_SEGMENTS_def encode_base64url decode_encode Let_def)
qed

text \<open>
  What GCM promises: the tag has its length, the ciphertext the length of the plaintext, and a tag opens
  exactly what it was computed for.
\<close>

definition gcm_laws :: "sealer \<Rightarrow> unsealer \<Rightarrow> bool" where
  "gcm_laws seal unseal \<longleftrightarrow>
     (\<forall>key iv aad p. length (fst (seal key iv aad p)) = length p \<and> length (snd (seal key iv aad p)) = AUTH_TAG_BYTES) \<and>
     (\<forall>key iv aad c t p. unseal key iv aad c t = Some p \<longleftrightarrow> seal key iv aad p = (c, t))"

text \<open>
  (C28) What is encrypted is decrypted: for every key, well-formed key id, nonce and non-empty credential,
  the envelope is accepted by the parser and opens to the credential; and nothing else opens. Whatever
  string decrypts does so to a plaintext that was sealed under this very key and the header naming this
  key id, with the nonce, tag and ciphertext the envelope carries: a record relabelled with another
  version or key id never opens.
\<close>

theorem credential_roundtrip:
  assumes "gcm_laws seal unseal"
  shows "(keyId_ok (cc_keyId c) \<and> length iv = IV_BYTES \<and> p \<noteq> [] \<longrightarrow>
      (\<exists>envelope. encrypt seal c iv p = Some envelope \<and> decrypt unseal c envelope = Inr p)) \<and>
    (decrypt unseal c stored = Inr q \<longrightarrow>
      (\<exists>e. parseEnvelope stored = Inr e \<and> ce_keyId e = cc_keyId c \<and>
        seal (cc_key c) (ce_iv e) (envelopeHeader (cc_keyId c)) q = (ce_ciphertext e, ce_authTag e)))"
proof -
  obtain ct tag where s: "seal (cc_key c) iv (envelopeHeader (cc_keyId c)) p = (ct, tag)" by fastforce
  let ?e = "\<lparr>ce_keyId = cc_keyId c, ce_iv = iv, ce_authTag = tag, ce_ciphertext = ct\<rparr>"
  have lens: "length ct = length p" "length tag = AUTH_TAG_BYTES" and opens: "unseal (cc_key c) iv (envelopeHeader (cc_keyId c)) ct tag = Some p"
    using assms s unfolding gcm_laws_def by (metis fst_conv, metis snd_conv, metis)
  have "parseEnvelope (formatEnvelope ?e) = Inr ?e" if "keyId_ok (cc_keyId c)" "length iv = IV_BYTES" "p \<noteq> []"
    using that lens by (intro parse_format) auto
  then have "keyId_ok (cc_keyId c) \<and> length iv = IV_BYTES \<and> p \<noteq> [] \<longrightarrow>
      (\<exists>envelope. encrypt seal c iv p = Some envelope \<and> decrypt unseal c envelope = Inr p)"
    using s opens by (simp add: encrypt_def decrypt_def open_envelope_def)
  moreover have "\<exists>e. parseEnvelope stored = Inr e \<and> ce_keyId e = cc_keyId c \<and>
      seal (cc_key c) (ce_iv e) (envelopeHeader (cc_keyId c)) q = (ce_ciphertext e, ce_authTag e)"
    if "decrypt unseal c stored = Inr q"
    using that assms by (auto simp: decrypt_def open_envelope_def gcm_laws_def split: sum.splits if_splits option.splits)
  ultimately show ?thesis by blast
qed

text \<open>A concrete pair that satisfies the laws: the plaintext with a constant tag.\<close>

definition toy_seal :: sealer where
  "toy_seal key iv aad p = (p, replicate AUTH_TAG_BYTES 7)"

definition toy_unseal :: unsealer where
  "toy_unseal key iv aad c t = (if t = replicate AUTH_TAG_BYTES 7 then Some c else None)"

lemma toy_gcm: "gcm_laws toy_seal toy_unseal"
  by (auto simp: gcm_laws_def toy_seal_def toy_unseal_def)

definition sample_cipher :: credential_cipher where
  "sample_cipher = \<lparr>cc_key = replicate 32 1, cc_keyId = DEFAULT_KEY_ID\<rparr>"

theorem credential_roundtrip_witness:
  "\<exists>envelope. encrypt toy_seal sample_cipher (replicate 12 2) [115, 107] = Some envelope \<and>
     decrypt toy_unseal sample_cipher envelope = Inr [115, 107]"
proof -
  have "keyId_ok (cc_keyId sample_cipher)" by code_simp
  then show ?thesis
    using credential_roundtrip [OF toy_gcm, of sample_cipher "replicate 12 2" "[115, 107]"] by (simp add: IV_BYTES_def)
qed

text \<open>
  An envelope is not the only spelling of itself: the last character of the authentication tag carries
  four bits no byte takes, so a record with that character changed is still accepted and opens to the
  same credential.
\<close>

theorem envelope_has_other_spellings:
  "let spelled = (\<lambda>last. ''v1.k1.AgICAgICAgICAgIC.BwcHBwcHBwcHBwcHBwcHB'' @ [last] @ ''.c2s'')
   in encrypt toy_seal sample_cipher (replicate 12 2) [115, 107] = Some (spelled CHR ''w'') \<and>
      decrypt toy_unseal sample_cipher (spelled CHR ''w'') = Inr [115, 107] \<and>
      decrypt toy_unseal sample_cipher (spelled CHR ''x'') = Inr [115, 107]"
  unfolding Let_def by (intro conjI; code_simp)

end
