(* ===== verification/Snapshot_Refresh.thy ===== *)
theory Snapshot_Refresh
  imports Prelude
begin

text \<open>
  The refresh of the routing snapshot (\<open>snapshots/refresh.ts\<close>): one read of the database at a time, and
  callers that wait until a read begun after their own mutation has been installed. A read suspends
  between its start, the moment the database serves it and its two callbacks, and each awaiting caller
  continues on its own, so all of these are steps. What a read returns is represented by how many
  commits it saw. Commits that ask for no refresh (another replica's) are events too.
\<close>

section \<open>State\<close>

record refresh_read =
  rd_generation :: nat
  rd_saw :: "nat option" \<comment> \<open>what the load returned, once the database has answered\<close>
  rd_done :: bool \<comment> \<open>the callback that installs has run, the one that clears has not\<close>

datatype refresh_caller =
    Awaiting nat nat \<comment> \<open>required generation; generation of the read awaited\<close>
  | Woken nat nat bool \<comment> \<open>the same, and whether the read succeeded\<close>
  | Refreshed nat
  | RefreshFailed nat

record refresh_state =
  rs_generation :: nat
  rs_installedGeneration :: int
  rs_inFlight :: "refresh_read option"
  rs_snapshot :: nat \<comment> \<open>the installed value\<close>
  rs_callers :: "refresh_caller list"
  rs_commits :: nat \<comment> \<open>commits so far\<close>
  rs_committedAt :: "nat list" \<comment> \<open>commits at each bump of the generation\<close>

definition createSnapshotRefresh :: refresh_state where
  "createSnapshotRefresh =
     \<lparr>rs_generation = 0, rs_installedGeneration = -1, rs_inFlight = None, rs_snapshot = 0, rs_callers = [], rs_commits = 0,
      rs_committedAt = []\<rparr>"

section \<open>Operations\<close>

definition start_read :: "refresh_state \<Rightarrow> refresh_state" where
  "start_read s = s\<lparr>rs_inFlight := Some \<lparr>rd_generation = rs_generation s, rd_saw = None, rd_done = False\<rparr>\<rparr>"

text \<open>\<open>inFlight ?? start()\<close>.\<close>

definition pending_read :: "refresh_state \<Rightarrow> refresh_state" where
  "pending_read s = (if rs_inFlight s = None then start_read s else s)"

definition awaited_generation :: "refresh_state \<Rightarrow> nat" where
  "awaited_generation s = (case rs_inFlight s of Some r \<Rightarrow> rd_generation r | None \<Rightarrow> rs_generation s)"

text \<open>One turn of the loop of \<open>afterMutation\<close>: satisfied, or waiting for the pending read.\<close>

definition caller_turn :: "nat \<Rightarrow> refresh_state \<Rightarrow> refresh_caller \<times> refresh_state" where
  "caller_turn required s =
     (if rs_installedGeneration s < int required
      then (Awaiting required (awaited_generation (pending_read s)), pending_read s)
      else (Refreshed required, s))"

definition refresh :: "refresh_state \<Rightarrow> refresh_state" where
  "refresh s = pending_read s"

definition refreshAfterMutation :: "refresh_state \<Rightarrow> refresh_state" where
  "refreshAfterMutation s =
     (let s = s\<lparr>rs_generation := rs_generation s + 1, rs_committedAt := rs_committedAt s @ [rs_commits s]\<rparr>;
          (caller, s) = caller_turn (rs_generation s) s
      in s\<lparr>rs_callers := rs_callers s @ [caller]\<rparr>)"

fun wake :: "bool \<Rightarrow> refresh_caller \<Rightarrow> refresh_caller" where
  "wake ok (Awaiting required g) = Woken required g ok"
| "wake ok c = c"

text \<open>
  The two callbacks of a read are separate turns: the one that installs, unless a mutation came in
  between, and the one that clears the read and wakes its callers. A read that fails skips the first.
\<close>

definition read_installs :: "refresh_state \<Rightarrow> refresh_state" where
  "read_installs s =
     (case rs_inFlight s of
        None \<Rightarrow> s
      | Some r \<Rightarrow>
          (case rd_saw r of
             None \<Rightarrow> s
           | Some v \<Rightarrow>
               if rd_done r then s
               else let s = s\<lparr>rs_inFlight := Some (r\<lparr>rd_done := True\<rparr>)\<rparr>
                    in if rd_generation r \<noteq> rs_generation s then s
                       else s\<lparr>rs_snapshot := v, rs_installedGeneration := int (rd_generation r)\<rparr>))"

definition read_settles :: "bool \<Rightarrow> refresh_state \<Rightarrow> refresh_state" where
  "read_settles ok s =
     (case rs_inFlight s of
        None \<Rightarrow> s
      | Some r \<Rightarrow>
          if rd_done r = ok then s\<lparr>rs_inFlight := None, rs_callers := map (wake ok) (rs_callers s)\<rparr> else s)"

definition database_answers :: "refresh_state \<Rightarrow> refresh_state" where
  "database_answers s =
     (case rs_inFlight s of
        None \<Rightarrow> s
      | Some r \<Rightarrow> if rd_saw r = None then s\<lparr>rs_inFlight := Some (r\<lparr>rd_saw := Some (rs_commits s)\<rparr>)\<rparr> else s)"

definition caller_resumes :: "nat \<Rightarrow> refresh_state \<Rightarrow> refresh_state" where
  "caller_resumes k s =
     (if k < length (rs_callers s)
      then case rs_callers s ! k of
             Woken required g ok \<Rightarrow>
               if \<not> ok \<and> g = rs_generation s then s\<lparr>rs_callers := (rs_callers s)[k := RefreshFailed required]\<rparr>
               else let (caller, s) = caller_turn required s in s\<lparr>rs_callers := (rs_callers s)[k := caller]\<rparr>
           | _ \<Rightarrow> s
      else s)"

section \<open>Runs\<close>

datatype refresh_event = Commit | MutationCommitted | TimerRefresh | DatabaseAnswers | ReadInstalls | ReadSettles bool | CallerResumes nat

fun refresh_step :: "refresh_event \<Rightarrow> refresh_state \<Rightarrow> refresh_state" where
  "refresh_step Commit s = s\<lparr>rs_commits := rs_commits s + 1\<rparr>"
| "refresh_step MutationCommitted s = refreshAfterMutation (s\<lparr>rs_commits := rs_commits s + 1\<rparr>)"
| "refresh_step TimerRefresh s = refresh s"
| "refresh_step DatabaseAnswers s = database_answers s"
| "refresh_step ReadInstalls s = read_installs s"
| "refresh_step (ReadSettles ok) s = read_settles ok s"
| "refresh_step (CallerResumes k) s = caller_resumes k s"

text \<open>
  What a generation guarantees: the commits that had happened when it was made. \<open>covers g v\<close>: a value that saw
  \<open>v\<close> commits includes everything generation \<open>g\<close> stands for.
\<close>

definition covers :: "refresh_state \<Rightarrow> nat \<Rightarrow> nat \<Rightarrow> bool" where
  "covers s g v \<longleftrightarrow> (\<forall>i < g. i < length (rs_committedAt s) \<and> rs_committedAt s ! i \<le> v)"

definition caller_ok :: "refresh_state \<Rightarrow> refresh_caller \<Rightarrow> bool" where
  "caller_ok s c =
     (case c of
        Awaiting required g \<Rightarrow> 0 < required \<and> required \<le> rs_generation s \<and> rs_inFlight s \<noteq> None \<and> g = awaited_generation s
      | Woken required g ok \<Rightarrow> 0 < required \<and> required \<le> rs_generation s
      | Refreshed required \<Rightarrow> 0 < required \<and> required \<le> rs_generation s \<and> int required \<le> rs_installedGeneration s
      | RefreshFailed required \<Rightarrow> 0 < required \<and> required \<le> rs_generation s)"

definition refresh_ok :: "refresh_state \<Rightarrow> bool" where
  "refresh_ok s \<longleftrightarrow>
     length (rs_committedAt s) = rs_generation s \<and> covers s (rs_generation s) (rs_commits s) \<and>
     rs_installedGeneration s \<le> int (rs_generation s) \<and> rs_snapshot s \<le> rs_commits s \<and>
     covers s (nat (rs_installedGeneration s)) (rs_snapshot s) \<and>
     (\<forall>r. rs_inFlight s = Some r \<longrightarrow> rd_generation r \<le> rs_generation s \<and> rs_installedGeneration s \<le> int (rd_generation r) \<and>
        (rd_done r \<longrightarrow> rd_generation r = rs_generation s \<longrightarrow> rs_installedGeneration s = int (rd_generation r)) \<and>
        (\<forall>v. rd_saw r = Some v \<longrightarrow> covers s (rd_generation r) v \<and> v \<le> rs_commits s \<and> rs_snapshot s \<le> v)) \<and>
     list_all (caller_ok s) (rs_callers s)"
section \<open>Every step keeps it\<close>

lemma covers_mono: "covers s g v \<Longrightarrow> g' \<le> g \<Longrightarrow> v \<le> v' \<Longrightarrow> covers s g' v'"
  unfolding covers_def by (meson less_le_trans order_trans)

lemma caller_ok_cong:
  "rs_generation s' = rs_generation s \<Longrightarrow> rs_installedGeneration s' = rs_installedGeneration s \<Longrightarrow>
     map_option rd_generation (rs_inFlight s') = map_option rd_generation (rs_inFlight s) \<Longrightarrow> caller_ok s' c = caller_ok s c"
  by (cases c) (auto simp: caller_ok_def awaited_generation_def split: option.splits)

lemma refresh_ok_pending:
  assumes "refresh_ok s"
  shows "refresh_ok (pending_read s)"
proof (cases "rs_inFlight s")
  case None
  have "caller_ok (start_read s) c" if "caller_ok s c" for c
    using that None by (cases c) (auto simp: caller_ok_def start_read_def)
  then show ?thesis using assms None
    by (auto simp: refresh_ok_def pending_read_def start_read_def covers_def list_all_iff)
qed (use assms in \<open>simp add: pending_read_def\<close>)

lemma pending_keeps [simp]:
  "rs_generation (pending_read s) = rs_generation s" "rs_installedGeneration (pending_read s) = rs_installedGeneration s"
  "rs_callers (pending_read s) = rs_callers s" "rs_snapshot (pending_read s) = rs_snapshot s" "rs_commits (pending_read s) = rs_commits s"
  "rs_committedAt (pending_read s) = rs_committedAt s" "rs_inFlight (pending_read s) \<noteq> None"
  by (auto simp: pending_read_def start_read_def)

lemma caller_turn_ok:
  assumes "refresh_ok s" "0 < required" "required \<le> rs_generation s"
  shows "refresh_ok (snd (caller_turn required s)) \<and> caller_ok (snd (caller_turn required s)) (fst (caller_turn required s)) \<and>
    rs_callers (snd (caller_turn required s)) = rs_callers s"
  using assms refresh_ok_pending [OF assms(1)] by (auto simp: caller_turn_def caller_ok_def)

lemma refresh_ok_callers:
  assumes "refresh_ok s" "list_all (caller_ok s) cs"
  shows "refresh_ok (s\<lparr>rs_callers := cs\<rparr>)"
proof -
  have "caller_ok (s\<lparr>rs_callers := cs\<rparr>) c = caller_ok s c" for c by (rule caller_ok_cong) simp_all
  then show ?thesis using assms by (auto simp: refresh_ok_def covers_def list_all_iff)
qed

lemma refresh_ok_committed:
  assumes "refresh_ok s" "n \<ge> rs_commits s"
  shows "refresh_ok (s\<lparr>rs_commits := n\<rparr>)"
proof -
  have "caller_ok (s\<lparr>rs_commits := n\<rparr>) c = caller_ok s c" for c by (rule caller_ok_cong) simp_all
  then show ?thesis using assms by (fastforce simp: refresh_ok_def covers_def list_all_iff intro: order_trans)
qed

lemma refresh_ok_bumped:
  assumes "refresh_ok s"
  shows "refresh_ok (s\<lparr>rs_generation := rs_generation s + 1, rs_committedAt := rs_committedAt s @ [rs_commits s]\<rparr>)" (is "refresh_ok ?s")
proof -
  have "caller_ok ?s c" if "caller_ok s c" for c
    using that by (cases c) (auto simp: caller_ok_def awaited_generation_def split: option.splits)
  moreover have "covers ?s g v" if "covers s g v" for g v using that by (auto simp: covers_def nth_append)
  moreover have "covers ?s (rs_generation s + 1) (rs_commits s)" using assms by (auto simp: refresh_ok_def covers_def nth_append less_Suc_eq)
  ultimately show ?thesis using assms by (auto simp: refresh_ok_def list_all_iff)
qed

lemma refresh_ok_mutation:
  assumes "refresh_ok s"
  shows "refresh_ok (refreshAfterMutation s)"
proof -
  define b where "b = s\<lparr>rs_generation := rs_generation s + 1, rs_committedAt := rs_committedAt s @ [rs_commits s]\<rparr>"
  have "refresh_ok b" using refresh_ok_bumped [OF assms] by (simp add: b_def)
  moreover have "0 < rs_generation b" by (simp add: b_def)
  ultimately have turn: "refresh_ok (snd (caller_turn (rs_generation b) b))"
      "caller_ok (snd (caller_turn (rs_generation b) b)) (fst (caller_turn (rs_generation b) b))"
    using caller_turn_ok [OF _ _ order_refl] by auto
  have "refreshAfterMutation s = (snd (caller_turn (rs_generation b) b))
      \<lparr>rs_callers := rs_callers (snd (caller_turn (rs_generation b) b)) @ [fst (caller_turn (rs_generation b) b)]\<rparr>"
    by (simp add: refreshAfterMutation_def b_def case_prod_beta Let_def)
  also have "refresh_ok \<dots>" using turn by (intro refresh_ok_callers) (auto simp: refresh_ok_def)
  finally show ?thesis .
qed

lemma refresh_ok_answers:
  assumes "refresh_ok s"
  shows "refresh_ok (database_answers s)"
proof (cases "rs_inFlight s")
  case (Some r)
  show ?thesis
  proof (cases "rd_saw r")
    case None
    have "caller_ok (s\<lparr>rs_inFlight := Some (r\<lparr>rd_saw := Some (rs_commits s)\<rparr>)\<rparr>) c = caller_ok s c" for c
      by (rule caller_ok_cong) (simp_all add: Some)
    then show ?thesis using assms Some None
      by (auto simp: refresh_ok_def database_answers_def covers_def list_all_iff)
  qed (use assms Some in \<open>simp add: database_answers_def\<close>)
qed (use assms in \<open>simp add: database_answers_def\<close>)

lemma wake_ok: "caller_ok s c \<Longrightarrow> caller_ok (s\<lparr>rs_inFlight := None\<rparr>) (wake ok c)"
  by (cases c) (auto simp: caller_ok_def)

lemma refresh_ok_wake:
  assumes "refresh_ok s"
  shows "refresh_ok (s\<lparr>rs_inFlight := None, rs_callers := map (wake ok) (rs_callers s)\<rparr>)"
proof -
  let ?n = "s\<lparr>rs_inFlight := None, rs_callers := map (wake ok) (rs_callers s)\<rparr>"
  have "caller_ok ?n c = caller_ok (s\<lparr>rs_inFlight := None\<rparr>) c" for c by (rule caller_ok_cong) simp_all
  then show ?thesis using assms wake_ok [of s _ ok] by (auto simp: refresh_ok_def covers_def list_all_iff)
qed

lemma refresh_ok_done:
  assumes "refresh_ok s" "rs_inFlight s = Some r" "rd_generation r \<noteq> rs_generation s"
  shows "refresh_ok (s\<lparr>rs_inFlight := Some (r\<lparr>rd_done := True\<rparr>)\<rparr>)"
proof -
  have "caller_ok (s\<lparr>rs_inFlight := Some (r\<lparr>rd_done := True\<rparr>)\<rparr>) c = caller_ok s c" for c
    by (rule caller_ok_cong) (simp_all add: assms(2))
  then show ?thesis using assms by (auto simp: refresh_ok_def covers_def list_all_iff)
qed

lemma refresh_ok_install:
  assumes "refresh_ok s" "rs_inFlight s = Some r" "rd_saw r = Some v" "rd_generation r = rs_generation s"
  shows "refresh_ok (s\<lparr>rs_inFlight := Some (r\<lparr>rd_done := True\<rparr>), rs_snapshot := v,
    rs_installedGeneration := int (rd_generation r)\<rparr>)" (is "refresh_ok ?s")
proof -
  have "rs_installedGeneration s \<le> int (rd_generation r)" using assms by (simp add: refresh_ok_def)
  then have "caller_ok ?s c" if "caller_ok s c" for c
    using that assms(2) by (cases c) (auto simp: caller_ok_def awaited_generation_def split: option.splits)
  then show ?thesis using assms by (auto simp: refresh_ok_def covers_def list_all_iff)
qed

lemma refresh_ok_installs: "refresh_ok s \<Longrightarrow> refresh_ok (read_installs s)"
  using refresh_ok_done [of s] refresh_ok_install [of s] by (simp add: read_installs_def Let_def split: option.splits)

lemma refresh_ok_settles: "refresh_ok s \<Longrightarrow> refresh_ok (read_settles ok s)"
  using refresh_ok_wake [of s ok] by (simp add: read_settles_def split: option.splits)

lemma refresh_ok_resumes:
  assumes "refresh_ok s"
  shows "refresh_ok (caller_resumes k s)"
proof (cases "k < length (rs_callers s)")
  case True
  have each: "caller_ok s (rs_callers s ! k)" using assms True by (simp add: refresh_ok_def list_all_length)
  have swap: "list_all (caller_ok t) ((rs_callers t)[k := c])" if "refresh_ok t" "caller_ok t c" for t c
    using that set_update_subset_insert [of "rs_callers t" k c] by (auto simp: refresh_ok_def list_all_iff)
  show ?thesis
  proof (cases "rs_callers s ! k")
    case (Woken required g ok)
    then have req: "0 < required" "required \<le> rs_generation s" using each by (simp_all add: caller_ok_def)
    note turn = caller_turn_ok [OF assms req]
    have "refresh_ok (s\<lparr>rs_callers := (rs_callers s)[k := RefreshFailed required]\<rparr>)"
      using assms req by (intro refresh_ok_callers swap) (auto simp: caller_ok_def)
    moreover have "refresh_ok ((snd (caller_turn required s))
        \<lparr>rs_callers := (rs_callers (snd (caller_turn required s)))[k := fst (caller_turn required s)]\<rparr>)"
      using turn by (intro refresh_ok_callers swap) auto
    ultimately show ?thesis using True Woken by (simp add: caller_resumes_def case_prod_beta Let_def)
  qed (use assms True in \<open>simp_all add: caller_resumes_def\<close>)
qed (use assms in \<open>simp add: caller_resumes_def\<close>)

lemma refresh_ok_step: "refresh_ok s \<Longrightarrow> refresh_ok (refresh_step e s)"
proof (cases e)
  case MutationCommitted
  assume "refresh_ok s"
  then show ?thesis using MutationCommitted refresh_ok_mutation [OF refresh_ok_committed, of s "rs_commits s + 1"] by simp
qed (auto simp: refresh_def intro: refresh_ok_committed refresh_ok_pending refresh_ok_answers refresh_ok_installs refresh_ok_settles refresh_ok_resumes)

lemma refresh_ok_start: "refresh_ok createSnapshotRefresh"
  by (simp add: refresh_ok_def createSnapshotRefresh_def covers_def)

interpretation refreshing: invariant_machine createSnapshotRefresh refresh_step refresh_ok
  by unfold_locales (rule refresh_ok_start, erule refresh_ok_step)

text \<open>The installed value never goes back.\<close>

lemma rs_snapshot_keeps [simp]:
  "rs_snapshot (snd (caller_turn required s)) = rs_snapshot s" "rs_snapshot (refreshAfterMutation s) = rs_snapshot s"
  "rs_snapshot (database_answers s) = rs_snapshot s" "rs_snapshot (read_settles ok s) = rs_snapshot s"
  "rs_snapshot (caller_resumes k s) = rs_snapshot s"
proof -
  show turn: "rs_snapshot (snd (caller_turn required s)) = rs_snapshot s" for required s by (simp add: caller_turn_def)
  show "rs_snapshot (refreshAfterMutation s) = rs_snapshot s" by (simp add: refreshAfterMutation_def case_prod_beta Let_def turn)
  show "rs_snapshot (database_answers s) = rs_snapshot s" by (simp add: database_answers_def split: option.splits)
  show "rs_snapshot (read_settles ok s) = rs_snapshot s" by (simp add: read_settles_def split: option.splits)
  show "rs_snapshot (caller_resumes k s) = rs_snapshot s"
    by (simp add: caller_resumes_def case_prod_beta Let_def turn split: refresh_caller.splits)
qed

lemma snapshot_forward:
  assumes "refresh_ok s"
  shows "rs_snapshot s \<le> rs_snapshot (refresh_step e s)"
proof (cases e)
  case ReadInstalls
  then show ?thesis using assms by (auto simp: read_installs_def refresh_ok_def Let_def split: option.splits)
qed (simp_all add: refresh_def)

lemma snapshot_forward_run: "refresh_ok s \<Longrightarrow> rs_snapshot s \<le> rs_snapshot (fold refresh_step es s)"
proof (induction es arbitrary: s)
  case (Cons e es)
  have "rs_snapshot s \<le> rs_snapshot (refresh_step e s)" by (rule snapshot_forward [OF Cons.prems])
  also have "\<dots> \<le> rs_snapshot (fold refresh_step es (refresh_step e s))" by (rule Cons.IH [OF refresh_ok_step [OF Cons.prems]])
  finally show ?case by simp
qed simp

text \<open>
  (C27) Read your writes. However commits, timer refreshes, answers, failures and callers interleave: when
  a caller that asked for a refresh after its mutation is told it is done, the installed snapshot
  includes that mutation, and so does every snapshot installed later.
\<close>

theorem refresh_reads_own_writes:
  assumes "k < length (rs_callers (fold refresh_step es createSnapshotRefresh))"
    and "rs_callers (fold refresh_step es createSnapshotRefresh) ! k = Refreshed required"
  shows "0 < required \<and> rs_committedAt (fold refresh_step es createSnapshotRefresh) ! (required - 1)
    \<le> rs_snapshot (fold refresh_step (es @ later) createSnapshotRefresh)"
proof -
  define s where "s = fold refresh_step es createSnapshotRefresh"
  have ok: "refresh_ok s" using refreshing.run_inv [of es] by (simp add: s_def)
  then have "caller_ok s (rs_callers s ! k)" using assms(1) by (simp add: refresh_ok_def list_all_length s_def)
  then have r: "0 < required" "int required \<le> rs_installedGeneration s" using assms(2) by (simp_all add: caller_ok_def s_def)
  have "covers s (nat (rs_installedGeneration s)) (rs_snapshot s)" using ok by (simp add: refresh_ok_def)
  then have "covers s required (rs_snapshot s)" using covers_mono [of s _ _ required] r(2) by simp
  then have "rs_committedAt s ! (required - 1) \<le> rs_snapshot s" using r(1) by (simp add: covers_def)
  also have "\<dots> \<le> rs_snapshot (fold refresh_step (es @ later) createSnapshotRefresh)"
    using snapshot_forward_run [OF ok, of later] by (simp add: s_def)
  finally show ?thesis using r(1) by (simp add: s_def)
qed

theorem refresh_reads_own_writes_witness:
  "let es = [TimerRefresh, DatabaseAnswers, MutationCommitted, ReadInstalls, ReadSettles True, CallerResumes 0, DatabaseAnswers, ReadInstalls, ReadSettles True, CallerResumes 0]
   in rs_callers (fold refresh_step es createSnapshotRefresh) = [Refreshed 1] \<and>
      1 \<le> rs_snapshot (fold refresh_step (es @ [Commit]) createSnapshotRefresh)"
proof -
  let ?es = "[TimerRefresh, DatabaseAnswers, MutationCommitted, ReadInstalls, ReadSettles True, CallerResumes 0, DatabaseAnswers, ReadInstalls, ReadSettles True, CallerResumes 0]"
  have run: "rs_callers (fold refresh_step ?es createSnapshotRefresh) = [Refreshed 1]" by code_simp
  have "rs_committedAt (fold refresh_step ?es createSnapshotRefresh) ! (1 - 1) = 1" by code_simp
  moreover have "0 < (1::nat) \<and> rs_committedAt (fold refresh_step ?es createSnapshotRefresh) ! (1 - 1)
      \<le> rs_snapshot (fold refresh_step (?es @ [Commit]) createSnapshotRefresh)"
    by (rule refresh_reads_own_writes [of 0]) (simp_all only: run, simp_all)
  ultimately show ?thesis unfolding Let_def using run by simp
qed

text \<open>
  No caller is stranded: one that waits has a read in flight, and two successful reads with no further
  mutation are enough for it, whatever read it found pending.
\<close>

definition two_reads :: "nat \<Rightarrow> refresh_event list" where
  "two_reads k = [DatabaseAnswers, ReadInstalls, ReadSettles True, CallerResumes k, DatabaseAnswers, ReadInstalls, ReadSettles True, CallerResumes k]"

lemma answered_read:
  assumes "refresh_ok s" "rs_inFlight s = Some r"
  shows "\<exists>v. rs_inFlight (database_answers s) = Some (r\<lparr>rd_saw := Some v\<rparr>) \<and> rs_generation (database_answers s) = rs_generation s \<and>
    rs_callers (database_answers s) = rs_callers s \<and> rs_installedGeneration (database_answers s) = rs_installedGeneration s"
proof (cases "rd_saw r")
  case (Some a)
  then have "r = r\<lparr>rd_saw := Some a\<rparr>" by (cases r) simp
  then show ?thesis using assms(2) Some by (intro exI [of _ a]) (simp add: database_answers_def)
qed (use assms(2) in \<open>auto simp: database_answers_def\<close>)

lemma one_read:
  assumes "refresh_ok s" "k < length (rs_callers s)" "rs_callers s ! k = Awaiting required g"
  defines "t \<equiv> fold refresh_step [DatabaseAnswers, ReadInstalls, ReadSettles True, CallerResumes k] s"
  shows "rs_callers t ! k = Refreshed required \<or>
    (rs_callers t ! k = Awaiting required (rs_generation t) \<and> g \<noteq> rs_generation s \<and> k < length (rs_callers t))"
proof -
  have caller: "required \<le> rs_generation s" "rs_inFlight s \<noteq> None" "g = awaited_generation s"
    using assms(1-3) by (auto simp: refresh_ok_def list_all_length caller_ok_def)
  then obtain r where r: "rs_inFlight s = Some r" "rd_generation r = g" by (auto simp: awaited_generation_def)
  obtain v where v: "rs_inFlight (database_answers s) = Some (r\<lparr>rd_saw := Some v\<rparr>)" "rs_generation (database_answers s) = rs_generation s"
      "rs_callers (database_answers s) = rs_callers s" "rs_installedGeneration (database_answers s) = rs_installedGeneration s"
    using answered_read [OF assms(1) r(1)] by blast
  have installed: "rd_done r \<Longrightarrow> g = rs_generation s \<Longrightarrow> rs_installedGeneration s = int g"
    using assms(1) r by (simp add: refresh_ok_def)
  show ?thesis
    using assms(2,3) caller(1) v r(2) installed
    by (cases "rd_done r") (auto simp: t_def read_installs_def read_settles_def caller_resumes_def caller_turn_def pending_read_def
        start_read_def awaited_generation_def case_prod_beta Let_def)
qed

lemma two_reads_suffice:
  assumes "refresh_ok s" "k < length (rs_callers s)" "rs_callers s ! k = Awaiting required g"
  shows "rs_callers (fold refresh_step (two_reads k) s) ! k = Refreshed required"
proof -
  define t where "t = fold refresh_step [DatabaseAnswers, ReadInstalls, ReadSettles True, CallerResumes k] s"
  have ok: "refresh_ok t" unfolding t_def by (rule refreshing.run_from_inv [OF assms(1)])
  have split: "fold refresh_step (two_reads k) s = fold refresh_step [DatabaseAnswers, ReadInstalls, ReadSettles True, CallerResumes k] t"
    by (simp add: two_reads_def t_def)
  show ?thesis
  proof (cases "rs_callers t ! k = Refreshed required")
    case True
    have wake: "rs_callers (read_settles b u) ! k = rs_callers u ! k" if "k < length (rs_callers u)" "rs_callers u ! k = Refreshed required" for b u
      using that by (auto simp: read_settles_def Let_def split: option.splits)
    have keep: "rs_callers (database_answers u) = rs_callers u" "rs_callers (read_installs u) = rs_callers u" for u
      by (auto simp: database_answers_def read_installs_def Let_def split: option.splits)
    have len: "length (rs_callers (read_settles b u)) = length (rs_callers u)" for b u
      by (auto simp: read_settles_def Let_def split: option.splits)
    have "k < length (rs_callers t)"
    proof (rule ccontr)
      assume "\<not> k < length (rs_callers t)"
      moreover have "length (rs_callers t) = length (rs_callers s)"
        by (auto simp: t_def caller_resumes_def caller_turn_def len keep case_prod_beta Let_def split: refresh_caller.splits)
      ultimately show False using assms(2) by simp
    qed
    then show ?thesis unfolding split using True wake keep len by (simp add: caller_resumes_def)
  next
    case False
    then have "rs_callers t ! k = Awaiting required (rs_generation t)" "k < length (rs_callers t)"
      using one_read [OF assms] by (auto simp: t_def)
    from one_read [OF ok this(2,1)] show ?thesis unfolding split by simp
  qed
qed

end
