(* ===== verification/Writer_Lifecycle.thy ===== *)
theory Writer_Lifecycle
  imports Usage_Recorder
begin

text \<open>
  The shutdown life cycle (\<open>shutdown/writer-lifecycle.ts\<close>) as the source has it: a function of what its
  writer supplies. \<open>Usage_Recorder\<close> has it written out for the recorder; here it is general, the
  recorder's is shown to be an instance, and the status and quota writers are built on it. What a stop
  guarantees is proved once, for every writer that keeps the contract \<open>drained_writer\<close>.
\<close>

section \<open>The life cycle\<close>

record 's writer_deps =
  wd_lifecycle :: "'s \<Rightarrow> writer_lifecycle"
  wd_put :: "writer_lifecycle \<Rightarrow> 's \<Rightarrow> 's"
  wd_flush :: "'s \<Rightarrow> 's"
  wd_running :: "'s \<Rightarrow> bool" \<comment> \<open>the promise of the last flush is pending\<close>
  wd_pending :: "'s \<Rightarrow> nat"
  wd_outstanding :: "'s \<Rightarrow> nat"
  wd_warn :: "nat \<Rightarrow> 's \<Rightarrow> 's"

definition writer_warn :: "'s writer_deps \<Rightarrow> nat \<Rightarrow> 's \<Rightarrow> 's" where
  "writer_warn d n s =
     (if wl_reported (wd_lifecycle d s) then s
      else wd_warn d n (wd_put d ((wd_lifecycle d s)\<lparr>wl_reported := True\<rparr>) s))"

definition writer_finish :: "'s writer_deps \<Rightarrow> 's \<Rightarrow> 's" where
  "writer_finish d s =
     (let s = (if wd_pending d s > 0 then writer_warn d (wd_pending d s) s else s)
      in wd_put d ((wd_lifecycle d s)\<lparr>wl_draining := False, wl_stopping := StopFinished\<rparr>) s)"

definition writer_second :: "'s writer_deps \<Rightarrow> 's \<Rightarrow> 's" where
  "writer_second d s =
     (if \<not> wl_expired (wd_lifecycle d s) \<and> wd_pending d s > 0
      then (let s = wd_flush d (wd_put d ((wd_lifecycle d s)\<lparr>wl_stopping := SecondFlush\<rparr>) s)
            in if wd_running d s then s else writer_finish d s)
      else writer_finish d s)"

definition writer_resume :: "'s writer_deps \<Rightarrow> 's \<Rightarrow> 's" where
  "writer_resume d s =
     (if wd_running d s then s
      else case wl_stopping (wd_lifecycle d s) of
        FirstFlush \<Rightarrow> writer_second d s
      | SecondFlush \<Rightarrow> writer_finish d s
      | _ \<Rightarrow> s)"

definition writer_start :: "'s writer_deps \<Rightarrow> 's \<Rightarrow> 's" where
  "writer_start d s =
     (if wl_draining (wd_lifecycle d s) then s
      else wd_put d ((wd_lifecycle d s)\<lparr>wl_stopping := NotStopping, wl_deadlineExpired := False, wl_accepting := True\<rparr>) s)"

definition writer_stop :: "'s writer_deps \<Rightarrow> 's \<Rightarrow> 's" where
  "writer_stop d s =
     (if wl_stopping (wd_lifecycle d s) \<noteq> NotStopping then s
      else writer_resume d (wd_flush d (wd_put d ((wd_lifecycle d s)
             \<lparr>wl_accepting := False, wl_draining := True, wl_expired := False, wl_reported := False, wl_stopping := FirstFlush\<rparr>) s)))"

definition writer_deadline :: "'s writer_deps \<Rightarrow> 's \<Rightarrow> 's" where
  "writer_deadline d s =
     (if wl_draining (wd_lifecycle d s) \<and> \<not> wl_expired (wd_lifecycle d s)
      then writer_warn d (wd_outstanding d s) (wd_put d ((wd_lifecycle d s)\<lparr>wl_expired := True, wl_deadlineExpired := True\<rparr>) s)
      else s)"

section \<open>What a stop guarantees\<close>

definition all_reported :: "'s writer_deps \<Rightarrow> ('s \<Rightarrow> nat list) \<Rightarrow> 's \<Rightarrow> bool" where
  "all_reported d reports s \<longleftrightarrow> (wd_outstanding d s > 0 \<longrightarrow> reports s \<noteq> [] \<and> wd_outstanding d s \<le> last (reports s))"

definition writer_mid :: "'s writer_deps \<Rightarrow> ('s \<Rightarrow> nat list) \<Rightarrow> 's \<Rightarrow> bool" where
  "writer_mid d reports s \<longleftrightarrow>
     (let l = wd_lifecycle d s
      in (wl_draining l \<longleftrightarrow> wl_stopping l = FirstFlush \<or> wl_stopping l = SecondFlush) \<and>
         (wl_accepting l \<longrightarrow> wl_stopping l = NotStopping) \<and>
         (wl_draining l \<and> \<not> wl_expired l \<longrightarrow> \<not> wl_reported l) \<and>
         (wl_draining l \<and> wl_expired l \<or> wl_stopping l = StopFinished \<longrightarrow> all_reported d reports s))"

definition writer_ok :: "'s writer_deps \<Rightarrow> ('s \<Rightarrow> nat list) \<Rightarrow> 's \<Rightarrow> bool" where
  "writer_ok d reports s \<longleftrightarrow> writer_mid d reports s \<and> (wl_draining (wd_lifecycle d s) \<longrightarrow> wd_running d s)"

text \<open>
  The contract of a writer: its life cycle is a field of its own, a warning is only recorded, and a
  flush loses nothing of what is outstanding from sight; with no flush running, what is outstanding is
  what is pending.
\<close>

locale drained_writer =
  fixes d :: "'s writer_deps"
    and reports :: "'s \<Rightarrow> nat list"
    and ok :: "'s \<Rightarrow> bool"
  assumes put_laws: "wd_lifecycle d (wd_put d l s) = l" "wd_pending d (wd_put d l s) = wd_pending d s"
      "wd_outstanding d (wd_put d l s) = wd_outstanding d s" "wd_running d (wd_put d l s) = wd_running d s"
      "reports (wd_put d l s) = reports s" "ok (wd_put d l s) = ok s"
    and warn_laws: "wd_lifecycle d (wd_warn d n s) = wd_lifecycle d s" "wd_pending d (wd_warn d n s) = wd_pending d s"
      "wd_outstanding d (wd_warn d n s) = wd_outstanding d s" "wd_running d (wd_warn d n s) = wd_running d s"
      "reports (wd_warn d n s) = reports s @ [n]" "ok (wd_warn d n s) = ok s"
    and flush_keeps: "wd_lifecycle d (wd_flush d s) = wd_lifecycle d s" "reports (wd_flush d s) = reports s"
    and flush_ok: "ok s \<Longrightarrow> ok (wd_flush d s)"
    and flush_outstanding: "ok s \<Longrightarrow> wd_outstanding d (wd_flush d s) \<le> wd_outstanding d s"
    and flush_running: "wd_running d s \<Longrightarrow> wd_running d (wd_flush d s)"
    and idle_outstanding: "ok s \<Longrightarrow> \<not> wd_running d s \<Longrightarrow> wd_outstanding d s = wd_pending d s"
begin

lemmas laws = put_laws warn_laws flush_keeps

lemma mid_cong:
  assumes "writer_mid d reports s" "wd_lifecycle d t = wd_lifecycle d s" "reports t = reports s"
    and "wl_accepting (wd_lifecycle d s) \<or> wd_outstanding d t \<le> wd_outstanding d s"
  shows "writer_mid d reports t"
  using assms by (auto simp: writer_mid_def all_reported_def Let_def)

lemma mid_flush: "writer_mid d reports s \<Longrightarrow> ok s \<Longrightarrow> writer_mid d reports (wd_flush d s)"
  by (erule mid_cong) (simp_all add: flush_keeps flush_outstanding)

lemma finish_ok:
  assumes "writer_mid d reports s" "ok s" "\<not> wd_running d s" "wl_draining (wd_lifecycle d s)"
  shows "writer_ok d reports (writer_finish d s) \<and> ok (writer_finish d s)"
  using assms idle_outstanding [OF assms(2,3)]
  by (auto simp: writer_ok_def writer_mid_def writer_finish_def writer_warn_def all_reported_def laws Let_def)

lemma second_ok:
  assumes "writer_mid d reports s" "ok s" "\<not> wd_running d s" "wl_stopping (wd_lifecycle d s) = FirstFlush"
  shows "writer_ok d reports (writer_second d s) \<and> ok (writer_second d s)"
proof (cases "\<not> wl_expired (wd_lifecycle d s) \<and> wd_pending d s > 0")
  case False
  then have "writer_second d s = writer_finish d s" unfolding writer_second_def by (rule if_not_P)
  moreover have "wl_draining (wd_lifecycle d s)" using assms(1,4) by (simp add: writer_mid_def Let_def)
  ultimately show ?thesis using finish_ok [OF assms(1-3)] by simp
next
  case True
  let ?s = "wd_put d ((wd_lifecycle d s)\<lparr>wl_stopping := SecondFlush\<rparr>) s"
  let ?t = "wd_flush d ?s"
  have "writer_mid d reports ?s" using assms(1,4) True by (simp add: writer_mid_def all_reported_def laws Let_def)
  then have t: "writer_mid d reports ?t" "ok ?t" using assms(2) by (simp_all add: mid_flush flush_ok laws)
  moreover have "wl_draining (wd_lifecycle d ?t)" using assms(1,4) by (simp add: writer_mid_def laws Let_def)
  moreover have "writer_second d s = (if wd_running d ?t then ?t else writer_finish d ?t)"
    unfolding writer_second_def Let_def using True by (rule if_P)
  ultimately show ?thesis using finish_ok [OF t] by (simp add: writer_ok_def)
qed

lemma resume_ok:
  assumes "writer_mid d reports s" "ok s"
  shows "writer_ok d reports (writer_resume d s) \<and> ok (writer_resume d s)"
proof (cases "wd_running d s")
  case False
  have draining: "wl_stopping (wd_lifecycle d s) = SecondFlush \<Longrightarrow> wl_draining (wd_lifecycle d s)"
    and still: "wl_stopping (wd_lifecycle d s) \<in> {NotStopping, StopFinished} \<Longrightarrow> \<not> wl_draining (wd_lifecycle d s)"
    using assms(1) by (auto simp: writer_mid_def Let_def)
  show ?thesis
  proof (cases "wl_stopping (wd_lifecycle d s)")
    case FirstFlush
    then show ?thesis using second_ok [OF assms False] by (simp add: writer_resume_def False)
  next
    case SecondFlush
    then show ?thesis using finish_ok [OF assms False draining] by (simp add: writer_resume_def False)
  qed (use assms still False in \<open>simp_all add: writer_resume_def writer_ok_def\<close>)
qed (use assms in \<open>simp add: writer_resume_def writer_ok_def\<close>)

lemma stop_ok_keeps:
  assumes "writer_ok d reports s" "ok s"
  shows "writer_ok d reports (writer_stop d s) \<and> ok (writer_stop d s)"
proof -
  let ?s = "wd_put d ((wd_lifecycle d s)
    \<lparr>wl_accepting := False, wl_draining := True, wl_expired := False, wl_reported := False, wl_stopping := FirstFlush\<rparr>) s"
  have "writer_mid d reports ?s" by (simp add: writer_mid_def laws)
  then have "writer_mid d reports (wd_flush d ?s)" "ok (wd_flush d ?s)" using assms(2) by (simp_all add: mid_flush flush_ok laws)
  from resume_ok [OF this] show ?thesis using assms by (simp add: writer_stop_def)
qed

lemma deadline_keeps: "writer_ok d reports s \<Longrightarrow> ok s \<Longrightarrow> writer_ok d reports (writer_deadline d s) \<and> ok (writer_deadline d s)"
  by (auto simp: writer_deadline_def writer_warn_def writer_ok_def writer_mid_def all_reported_def laws Let_def)

lemma start_keeps: "writer_ok d reports s \<Longrightarrow> ok s \<Longrightarrow> writer_ok d reports (writer_start d s) \<and> ok (writer_start d s)"
  by (auto simp: writer_start_def writer_ok_def writer_mid_def all_reported_def laws Let_def)

lemma flush_ok_keeps: "writer_ok d reports s \<Longrightarrow> ok s \<Longrightarrow> writer_ok d reports (wd_flush d s) \<and> ok (wd_flush d s)"
  by (simp add: writer_ok_def mid_flush flush_ok flush_keeps flush_running)

text \<open>Any other operation of the writer: it takes in more only while it accepts.\<close>

lemma quiet_keeps:
  assumes "writer_ok d reports s" "wd_lifecycle d t = wd_lifecycle d s" "reports t = reports s" "wd_running d s \<Longrightarrow> wd_running d t"
    and "wl_accepting (wd_lifecycle d s) \<or> wd_outstanding d t \<le> wd_outstanding d s"
  shows "writer_ok d reports t"
  using assms mid_cong [of s t] by (auto simp: writer_ok_def)

lemma stopped_reported:
  assumes "writer_ok d reports s"
    and "wl_stopping (wd_lifecycle d s) = StopFinished \<or> wl_draining (wd_lifecycle d s) \<and> wl_expired (wd_lifecycle d s)"
  shows "\<not> wl_accepting (wd_lifecycle d s) \<and> all_reported d reports s"
  using assms by (auto simp: writer_ok_def writer_mid_def Let_def)

end

text \<open>A property of the writer that the life cycle does not touch and a flush keeps survives it.\<close>

locale lifecycle_kept =
  fixes d :: "'s writer_deps"
    and kept :: "'s \<Rightarrow> bool"
  assumes put_kept: "kept s \<Longrightarrow> kept (wd_put d l s)"
    and warn_kept: "kept s \<Longrightarrow> kept (wd_warn d n s)"
    and flush_kept: "kept s \<Longrightarrow> kept (wd_flush d s)"
begin

lemma finish_kept: "kept s \<Longrightarrow> kept (writer_finish d s)"
  by (simp add: writer_finish_def writer_warn_def put_kept warn_kept Let_def)

lemma resume_kept: "kept s \<Longrightarrow> kept (writer_resume d s)"
  by (simp add: writer_resume_def writer_second_def finish_kept flush_kept put_kept Let_def split: stop_stage.splits)

lemma stop_kept: "kept s \<Longrightarrow> kept (writer_stop d s)"
  by (simp add: writer_stop_def resume_kept flush_kept put_kept)

lemma deadline_kept: "kept s \<Longrightarrow> kept (writer_deadline d s)"
  by (simp add: writer_deadline_def writer_warn_def put_kept warn_kept)

lemma start_kept: "kept s \<Longrightarrow> kept (writer_start d s)"
  by (simp add: writer_start_def put_kept)

end

section \<open>The usage recorder is an instance\<close>

definition recorder_deps :: "recorder_options \<Rightarrow> ('a, 't) usage_recorder writer_deps" where
  "recorder_deps opts =
     \<lparr>wd_lifecycle = ur_lifecycle, wd_put = (\<lambda>l s. s\<lparr>ur_lifecycle := l\<rparr>), wd_flush = recorder_flush opts,
      wd_running = (\<lambda>s. ur_inFlight s \<noteq> None), wd_pending = recorder_pending, wd_outstanding = recorder_outstanding,
      wd_warn = (\<lambda>n s. s\<lparr>ur_onAbandoned := ur_onAbandoned s @ [n]\<rparr>)\<rparr>"

lemma recorder_deps_simps [simp]:
  "wd_lifecycle (recorder_deps opts) s = ur_lifecycle s" "wd_put (recorder_deps opts) l s = s\<lparr>ur_lifecycle := l\<rparr>"
  "wd_flush (recorder_deps opts) s = recorder_flush opts s" "wd_running (recorder_deps opts) s \<longleftrightarrow> ur_inFlight s \<noteq> None"
  "wd_pending (recorder_deps opts) s = recorder_pending s" "wd_outstanding (recorder_deps opts) s = recorder_outstanding s"
  "wd_warn (recorder_deps opts) n s = s\<lparr>ur_onAbandoned := ur_onAbandoned s @ [n]\<rparr>"
  by (simp_all add: recorder_deps_def)

lemma recorder_flush_outstanding:
  assumes "books_ok opts acc s"
  shows "recorder_outstanding (recorder_flush opts s) \<le> recorder_outstanding s"
proof (cases "ur_inFlight s")
  case None
  then show ?thesis using outstanding_drainAll [of opts s] assms books_idle [OF assms None] by (simp add: recorder_flush_def books_ok_def)
qed (simp add: recorder_flush_def)

lemma recorder_flush_keeps:
  "ur_lifecycle (recorder_flush opts s) = ur_lifecycle s" "ur_onAbandoned (recorder_flush opts s) = ur_onAbandoned s"
  "ur_inFlight s \<noteq> None \<Longrightarrow> recorder_flush opts s = s"
  by (simp_all add: recorder_flush_def)

interpretation recorder_writer: drained_writer "recorder_deps opts" ur_onAbandoned "\<lambda>s. \<exists>acc. books_ok opts acc s" for opts
proof
  fix s :: "('a, 't) usage_recorder"
  assume ok: "\<exists>acc. books_ok opts acc s"
  then show "\<exists>acc. books_ok opts acc (wd_flush (recorder_deps opts) s)" using books_flush by auto
  show "wd_outstanding (recorder_deps opts) (wd_flush (recorder_deps opts) s) \<le> wd_outstanding (recorder_deps opts) s"
    using ok recorder_flush_outstanding by auto
  show "wd_outstanding (recorder_deps opts) s = wd_pending (recorder_deps opts) s" if "\<not> wd_running (recorder_deps opts) s"
    using ok that books_idle [of opts _ s] by (cases "ur_inFlight s") (auto simp: recorder_outstanding_def recorder_pending_def)
qed (simp_all add: recorder_flush_keeps recorder_pending_def recorder_outstanding_def retry_length_def)

interpretation recorder_books: lifecycle_kept "recorder_deps opts" "books_ok opts acc" for opts acc
  by unfold_locales (simp_all add: books_flush)

lemma recorder_warn_general: "lifecycle_warn n s = writer_warn (recorder_deps opts) n s"
  by (simp add: lifecycle_warn_def writer_warn_def)

lemma recorder_finish_general: "stop_finish s = writer_finish (recorder_deps opts) s"
  by (simp add: stop_finish_def writer_finish_def recorder_warn_general [of _ _ opts])

lemma recorder_second_general: "stop_second opts s = writer_second (recorder_deps opts) s"
  by (simp add: stop_second_def writer_second_def recorder_finish_general [of _ opts] Let_def)

lemma recorder_resume_general: "stop_resume opts s = writer_resume (recorder_deps opts) s"
  by (simp add: stop_resume_def writer_resume_def recorder_second_general recorder_finish_general [of _ opts] split: stop_stage.splits)

text \<open>The recorder's life cycle, as \<open>Usage_Recorder\<close> writes it out, is the general one at its dependencies.\<close>

lemma recorder_lifecycle_general:
  "lifecycle_stop opts s = writer_stop (recorder_deps opts) s"
  "lifecycle_deadline s = writer_deadline (recorder_deps opts) s"
  "lifecycle_start s = writer_start (recorder_deps opts) s"
  by (simp_all add: lifecycle_stop_def writer_stop_def recorder_resume_general lifecycle_deadline_def writer_deadline_def
      recorder_warn_general [of _ _ opts] lifecycle_start_def writer_start_def Let_def)

end
