(* ===== verification/Status_Writer.thy ===== *)
theory Status_Writer
  imports Health_Store Writer_Lifecycle
begin

text \<open>
  The status writer (\<open>dataplane/status-writer.ts\<close>): verdicts the router observed about an account
  (exhausted, needs a login) made durable off the request path. One verdict per account is pending; a
  flush takes them all and writes them one after the other. The write of the first of the batch is the
  one awaited, its answer an event; a flush with nothing to write ends in its own turn. What the
  repository answers to the guarded update is an argument of the event.
\<close>

section \<open>State\<close>

definition persistable :: "account_status \<Rightarrow> bool" where
  "persistable status \<longleftrightarrow> status = Exhausted \<or> status = NeedsReauth"

definition OVERWRITABLE_BY_OBSERVATION :: "account_status list" where
  "OVERWRITABLE_BY_OBSERVATION = [Active, CoolingDown]"

record pending_status =
  ps_status :: account_status
  ps_observation :: health_observation
  ps_quotaWindows :: "quota_window list option"
  ps_forgottenVersion :: nat

datatype status_answer = TransitionCommitted | TransitionRefused | TransitionFailed

record status_writer =
  sw_pending :: "(account_id, pending_status) js_map"
  sw_forgotten :: "(account_id, nat) js_map"
  sw_batch :: "(account_id \<times> pending_status) list" \<comment> \<open>what the running flush has still to write\<close>
  sw_unsettled :: nat
  sw_rejectedAfterStop :: nat
  sw_written :: nat
  sw_refused :: nat
  sw_writeFailures :: nat
  sw_lifecycle :: writer_lifecycle
  sw_listening :: bool
  sw_parked :: "account_id list" \<comment> \<open>calls of the listener\<close>
  sw_warnings :: "nat list" \<comment> \<open>shutdown warnings\<close>
  sw_sent :: "(account_id \<times> pending_status \<times> status_answer) list" \<comment> \<open>answered updates\<close>

definition createAccountStatusWriter :: status_writer where
  "createAccountStatusWriter =
     \<lparr>sw_pending = [], sw_forgotten = [], sw_batch = [], sw_unsettled = 0, sw_rejectedAfterStop = 0, sw_written = 0,
      sw_refused = 0, sw_writeFailures = 0, sw_lifecycle = createWriterLifecycle, sw_listening = False, sw_parked = [],
      sw_warnings = [], sw_sent = []\<rparr>"

definition forgotten_version :: "account_id \<Rightarrow> status_writer \<Rightarrow> nat" where
  "forgotten_version i s = (case map_get (sw_forgotten s) i of Some n \<Rightarrow> n | None \<Rightarrow> 0)"

section \<open>Operations\<close>

definition status_record :: "account_id \<Rightarrow> account_status \<Rightarrow> health_observation \<Rightarrow> quota_window list option \<Rightarrow> status_writer \<Rightarrow> status_writer" where
  "status_record i status observation windows s =
     (if \<not> wl_accepting (sw_lifecycle s) then s\<lparr>sw_rejectedAfterStop := sw_rejectedAfterStop s + 1\<rparr>
      else if \<not> persistable status \<or> hf_status observation \<notin> set OVERWRITABLE_BY_OBSERVATION then s
      else if (case map_get (sw_pending s) i of
                 Some previous \<Rightarrow> \<not> newerObservation observation (ps_observation previous) | None \<Rightarrow> False) then s
      else s\<lparr>sw_pending := map_set i \<lparr>ps_status = status, ps_observation = observation, ps_quotaWindows = windows,
                ps_forgottenVersion = forgotten_version i s\<rparr> (sw_pending s)\<rparr>)"

definition status_forget :: "account_id \<Rightarrow> status_writer \<Rightarrow> status_writer" where
  "status_forget i s =
     s\<lparr>sw_forgotten := map_set i (forgotten_version i s + 1) (sw_forgotten s), sw_pending := map_delete i (sw_pending s)\<rparr>"

text \<open>An unwritten verdict goes back unless the account was forgotten or a verdict as new is pending.\<close>

definition requeue :: "account_id \<Rightarrow> pending_status \<Rightarrow> status_writer \<Rightarrow> status_writer" where
  "requeue i e s =
     (if forgotten_version i s = ps_forgottenVersion e \<and>
         (case map_get (sw_pending s) i of None \<Rightarrow> True | Some newer \<Rightarrow> newerObservation (ps_observation e) (ps_observation newer))
      then s\<lparr>sw_pending := map_set i e (sw_pending s)\<rparr> else s)"

text \<open>The loop of \<open>drain\<close> up to its next write; once the deadline has passed everything goes back.\<close>

fun status_loop :: "(account_id \<times> pending_status) list \<Rightarrow> status_writer \<Rightarrow> status_writer" where
  "status_loop [] s = s\<lparr>sw_batch := [], sw_unsettled := 0\<rparr>"
| "status_loop ((i, e) # rest) s =
     (if wl_deadlineExpired (sw_lifecycle s)
      then let s = requeue i e s in status_loop rest (s\<lparr>sw_unsettled := sw_unsettled s - 1\<rparr>)
      else s\<lparr>sw_batch := (i, e) # rest\<rparr>)"

definition status_drain :: "status_writer \<Rightarrow> status_writer" where
  "status_drain s =
     (if map_size (sw_pending s) = 0 then s
      else status_loop (sw_pending s) (s\<lparr>sw_pending := [], sw_unsettled := map_size (sw_pending s)\<rparr>))"

definition status_flush :: "status_writer \<Rightarrow> status_writer" where
  "status_flush s = (if sw_batch s \<noteq> [] then s else status_drain s)"

definition status_deps :: "status_writer writer_deps" where
  "status_deps =
     \<lparr>wd_lifecycle = sw_lifecycle, wd_put = (\<lambda>l s. s\<lparr>sw_lifecycle := l\<rparr>), wd_flush = status_flush,
      wd_running = (\<lambda>s. sw_batch s \<noteq> []), wd_pending = (\<lambda>s. map_size (sw_pending s)),
      wd_outstanding = (\<lambda>s. map_size (sw_pending s) + sw_unsettled s),
      wd_warn = (\<lambda>n s. s\<lparr>sw_warnings := sw_warnings s @ [n]\<rparr>)\<rparr>"

definition apply_answer :: "account_id \<Rightarrow> pending_status \<Rightarrow> status_answer \<Rightarrow> status_writer \<Rightarrow> status_writer" where
  "apply_answer i e answer s =
     (case answer of
        TransitionRefused \<Rightarrow> s\<lparr>sw_refused := sw_refused s + 1\<rparr>
      | TransitionCommitted \<Rightarrow>
          s\<lparr>sw_written := sw_written s + 1,
            sw_parked := (if ps_status e = NeedsReauth \<and> sw_listening s then sw_parked s @ [i] else sw_parked s)\<rparr>
      | TransitionFailed \<Rightarrow> (let s = requeue i e s in s\<lparr>sw_writeFailures := sw_writeFailures s + 1\<rparr>))"

definition status_answers :: "status_answer \<Rightarrow> status_writer \<Rightarrow> status_writer" where
  "status_answers answer s =
     (case sw_batch s of
        [] \<Rightarrow> s
      | (i, e) # rest \<Rightarrow>
          let s = apply_answer i e answer s;
              s = s\<lparr>sw_sent := sw_sent s @ [(i, e, answer)], sw_unsettled := sw_unsettled s - 1\<rparr>
          in writer_resume status_deps (status_loop rest s))"

definition attachParked :: "status_writer \<Rightarrow> status_writer" where
  "attachParked s = s\<lparr>sw_listening := True\<rparr>"

datatype status_event =
    RecordStatus account_id account_status health_observation "quota_window list option"
  | ForgetStatus account_id
  | AttachParked
  | FlushStatus
  | StatusAnswers status_answer
  | StartStatus
  | StopStatus
  | StatusDeadline

fun status_step :: "status_event \<Rightarrow> status_writer \<Rightarrow> status_writer" where
  "status_step (RecordStatus i st obs ws) s = status_record i st obs ws s"
| "status_step (ForgetStatus i) s = status_forget i s"
| "status_step AttachParked s = attachParked s"
| "status_step FlushStatus s = status_flush s"
| "status_step (StatusAnswers a) s = status_answers a s"
| "status_step StartStatus s = writer_start status_deps s"
| "status_step StopStatus s = writer_stop status_deps s"
| "status_step StatusDeadline s = writer_deadline status_deps s"

section \<open>What is owed\<close>

text \<open>
  The verdicts the writer has taken and not yet delivered, beside the state: taking one adds it,
  forgetting the account cancels it, and an answered update settles every verdict of the account that
  is not newer than the one written.
\<close>

definition taken_in :: "status_writer \<Rightarrow> account_status \<Rightarrow> health_observation \<Rightarrow> bool" where
  "taken_in s status observation \<longleftrightarrow>
     wl_accepting (sw_lifecycle s) \<and> persistable status \<and> hf_status observation \<in> {Active, CoolingDown}"

definition owed_after :: "status_event \<Rightarrow> status_writer \<Rightarrow> (account_id \<times> health_observation) list \<Rightarrow> (account_id \<times> health_observation) list" where
  "owed_after ev s due =
     (case ev of
        RecordStatus i st obs ws \<Rightarrow> if taken_in s st obs then due @ [(i, obs)] else due
      | ForgetStatus i \<Rightarrow> filter (\<lambda>v. fst v \<noteq> i) due
      | StatusAnswers a \<Rightarrow>
          (case sw_batch s of
             (i, e) # rest \<Rightarrow>
               if a = TransitionFailed then due
               else filter (\<lambda>v. fst v \<noteq> i \<or> newerObservation (snd v) (ps_observation e)) due
           | [] \<Rightarrow> due)
      | _ \<Rightarrow> due)"

definition status_move :: "status_event \<Rightarrow> (account_id \<times> health_observation) list \<times> status_writer
    \<Rightarrow> (account_id \<times> health_observation) list \<times> status_writer" where
  "status_move ev x = (owed_after ev (snd x) (fst x), status_step ev (snd x))"

text \<open>The writer still has the verdict, or one of the account at least as new.\<close>

definition still_held :: "status_writer \<Rightarrow> account_id \<Rightarrow> health_observation \<Rightarrow> bool" where
  "still_held s i obs \<longleftrightarrow>
     (\<exists>e. (i, e) \<in> set (sw_pending s @ sw_batch s) \<and> ps_forgottenVersion e = forgotten_version i s \<and>
        \<not> newerObservation obs (ps_observation e))"

definition proper_entry :: "account_id \<times> pending_status \<Rightarrow> bool" where
  "proper_entry x \<longleftrightarrow> persistable (ps_status (snd x)) \<and> hf_status (ps_observation (snd x)) \<in> {Active, CoolingDown}"

definition status_ok :: "(account_id \<times> health_observation) list \<times> status_writer \<Rightarrow> bool" where
  "status_ok x \<longleftrightarrow>
     (let s = snd x
      in map_ok (sw_pending s) \<and> (\<forall>(i, e) \<in> set (sw_pending s). ps_forgottenVersion e = forgotten_version i s) \<and>
         (\<forall>(i, obs) \<in> set (fst x). still_held s i obs) \<and>
         list_all proper_entry (sw_pending s @ sw_batch s) \<and> list_all (\<lambda>(i, e, a). proper_entry (i, e)) (sw_sent s))"

section \<open>Every step keeps it\<close>

lemma status_deps_simps [simp]:
  "wd_lifecycle status_deps s = sw_lifecycle s" "wd_put status_deps l s = s\<lparr>sw_lifecycle := l\<rparr>"
  "wd_flush status_deps s = status_flush s" "wd_running status_deps s \<longleftrightarrow> sw_batch s \<noteq> []"
  "wd_pending status_deps s = map_size (sw_pending s)" "wd_outstanding status_deps s = map_size (sw_pending s) + sw_unsettled s"
  "wd_warn status_deps n s = s\<lparr>sw_warnings := sw_warnings s @ [n]\<rparr>"
  by (simp_all add: status_deps_def)

lemma newer_trans: "\<not> newerObservation a b \<Longrightarrow> \<not> newerObservation b c \<Longrightarrow> \<not> newerObservation a c"
  by (auto simp: newerObservation_def)

lemma newer_refl [simp]: "\<not> newerObservation a a"
  by (simp add: newerObservation_def)

lemma newer_asym: "newerObservation a b \<Longrightarrow> \<not> newerObservation b a"
  by (auto simp: newerObservation_def)

lemma forgotten_version_cong: "sw_forgotten t = sw_forgotten s \<Longrightarrow> forgotten_version i t = forgotten_version i s"
  by (simp add: forgotten_version_def)

lemma status_ok_cong:
  assumes "sw_pending t = sw_pending s" "sw_batch t = sw_batch s" "sw_forgotten t = sw_forgotten s" "sw_sent t = sw_sent s"
  shows "status_ok (due, t) = status_ok (due, s)"
  using assms by (simp add: status_ok_def still_held_def forgotten_version_cong [OF assms(3)] Let_def)

lemma in_map_set: "map_ok m \<Longrightarrow> (k', v') \<in> set (map_set k v m) \<longleftrightarrow> (if k' = k then v' = v else (k', v') \<in> set m)"
  using map_get_in [of "map_set k v m" k' v'] map_get_in [of m k' v'] by auto

lemma still_held_batch:
  "still_held (s\<lparr>sw_batch := b\<rparr>) i obs \<longleftrightarrow>
     (\<exists>e. ((i, e) \<in> set (sw_pending s) \<or> (i, e) \<in> set b) \<and> ps_forgottenVersion e = forgotten_version i s \<and>
        \<not> newerObservation obs (ps_observation e))"
  by (simp add: still_held_def forgotten_version_def)

lemma status_ok_requeue:
  assumes "status_ok (due, s\<lparr>sw_batch := (i, e) # rest\<rparr>)"
  shows "status_ok (due, (requeue i e s)\<lparr>sw_batch := rest\<rparr>)"
proof -
  have ok: "map_ok (sw_pending s)" using assms by (simp add: status_ok_def Let_def)
  have held: "still_held ((requeue i e s)\<lparr>sw_batch := rest\<rparr>) j obs" if due: "(j, obs) \<in> set due" for j obs
  proof -
    have "still_held (s\<lparr>sw_batch := (i, e) # rest\<rparr>) j obs" using assms due by (auto simp: status_ok_def Let_def)
    then obtain f where f: "(j, f) \<in> set (sw_pending s) \<or> (j, f) \<in> set ((i, e) # rest)"
        "ps_forgottenVersion f = forgotten_version j s" "\<not> newerObservation obs (ps_observation f)"
      unfolding still_held_batch by blast
    show ?thesis
    proof (cases "map_get (sw_pending s) i")
      case None
      then have "(i, q) \<notin> set (sw_pending s)" for q using map_get_in [OF ok, of i q] by simp
      then show ?thesis using f ok None unfolding still_held_batch
        by (intro exI [of _ f]) (auto simp: requeue_def in_map_set forgotten_version_def)
    next
      case (Some p)
      then have p: "(i, p) \<in> set (sw_pending s)" "\<And>q. (i, q) \<in> set (sw_pending s) \<Longrightarrow> q = p"
        using map_get_in [OF ok, of i] by (metis option.inject)+
      have version: "ps_forgottenVersion p = forgotten_version i s"
        using assms p(1) by (auto simp: status_ok_def forgotten_version_def Let_def)
      show ?thesis
      proof (cases "forgotten_version i s = ps_forgottenVersion e \<and> newerObservation (ps_observation e) (ps_observation p)")
        case True
        then have req: "requeue i e s = s\<lparr>sw_pending := map_set i e (sw_pending s)\<rparr>" using Some by (simp add: requeue_def)
        have "\<not> newerObservation (ps_observation p) (ps_observation e)" using True newer_asym by blast
        then have "\<not> newerObservation obs (ps_observation e)" if "j = i" "(j, f) \<in> set (sw_pending s)"
          using that p(2) f(3) newer_trans by blast
        then show ?thesis using f True ok unfolding req still_held_batch
          by (cases "j = i") (auto simp: in_map_set forgotten_version_def)
      next
        case False
        then have req: "requeue i e s = s" using Some by (auto simp: requeue_def)
        have "\<not> newerObservation obs (ps_observation p)" if "(j, f) = (i, e)"
        proof -
          have "\<not> newerObservation (ps_observation e) (ps_observation p)" using False f(2) that by simp
          then show ?thesis using that f(3) newer_trans by blast
        qed
        then show ?thesis using f p(1) version unfolding req still_held_batch by (cases "(j, f) = (i, e)") auto
      qed
    qed
  qed
  moreover have kept: "map_ok (sw_pending (requeue i e s))" "sw_sent (requeue i e s) = sw_sent s"
      "sw_forgotten (requeue i e s) = sw_forgotten s" using ok by (simp_all add: requeue_def)
  moreover have pend: "(j, f) \<in> set (sw_pending s) \<or> (j, f) = (i, e) \<and> ps_forgottenVersion e = forgotten_version i s"
    if "(j, f) \<in> set (sw_pending (requeue i e s))" for j f
    using ok that by (auto simp: requeue_def in_map_set split: if_splits)
  moreover have "list_all proper_entry (sw_pending (requeue i e s) @ rest)"
    using assms pend by (fastforce simp: status_ok_def list_all_iff Let_def)
  moreover have "ps_forgottenVersion f = forgotten_version j ((requeue i e s)\<lparr>sw_batch := rest\<rparr>)"
    if "(j, f) \<in> set (sw_pending (requeue i e s))" for j f
    using assms pend [OF that] kept(3) by (auto simp: status_ok_def forgotten_version_def Let_def)
  ultimately show ?thesis using assms by (auto simp: status_ok_def Let_def)
qed

lemma status_ok_loop: "status_ok (due, s\<lparr>sw_batch := b\<rparr>) \<Longrightarrow> status_ok (due, status_loop b s)"
proof (induction b s rule: status_loop.induct)
  case (1 s)
  have "status_ok (due, status_loop [] s) = status_ok (due, s\<lparr>sw_batch := []\<rparr>)" by (rule status_ok_cong) simp_all
  then show ?case using 1 by simp
next
  case (2 i e rest s)
  have "status_ok (due, (requeue i e s)\<lparr>sw_unsettled := n, sw_batch := rest\<rparr>)" for n
    using status_ok_requeue [OF "2.prems"] by (subst status_ok_cong [of _ "(requeue i e s)\<lparr>sw_batch := rest\<rparr>"]) simp_all
  then show ?case using 2 by (simp add: Let_def)
qed

lemma status_ok_flush:
  assumes "status_ok (due, s)"
  shows "status_ok (due, status_flush s)"
proof (cases "sw_batch s = [] \<and> sw_pending s \<noteq> []")
  case True
  let ?t = "s\<lparr>sw_pending := [], sw_unsettled := map_size (sw_pending s), sw_batch := sw_pending s\<rparr>"
  have "still_held ?t i obs = still_held s i obs" for i obs using True by (simp add: still_held_def forgotten_version_def)
  then have "status_ok (due, ?t)" using assms True by (auto simp: status_ok_def Let_def)
  then show ?thesis using status_ok_loop True by (auto simp: status_flush_def status_drain_def map_size_def)
qed (use assms in \<open>auto simp: status_flush_def status_drain_def map_size_def\<close>)

interpretation status_lifecycle: lifecycle_kept status_deps "\<lambda>s. status_ok (due, s)" for due
proof
  fix s :: status_writer and l n
  assume ok: "status_ok (due, s)"
  show "status_ok (due, wd_put status_deps l s)" using ok by (subst status_ok_cong [of _ s]) simp_all
  show "status_ok (due, wd_warn status_deps n s)" using ok by (subst status_ok_cong [of _ s]) simp_all
  show "status_ok (due, wd_flush status_deps s)" using status_ok_flush [OF ok] by simp
qed

lemma status_ok_record:
  assumes "status_ok (due, s)"
  shows "status_ok (owed_after (RecordStatus i st obs ws) s due, status_record i st obs ws s)"
proof (cases "taken_in s st obs")
  case False
  then have "status_record i st obs ws s \<in> {s, s\<lparr>sw_rejectedAfterStop := sw_rejectedAfterStop s + 1\<rparr>}"
    by (auto simp: status_record_def taken_in_def OVERWRITABLE_BY_OBSERVATION_def)
  moreover have "status_ok (due, s\<lparr>sw_rejectedAfterStop := sw_rejectedAfterStop s + 1\<rparr>)"
    using assms by (subst status_ok_cong [of _ s]) simp_all
  ultimately show ?thesis using assms False by (auto simp: owed_after_def)
next
  case True
  have ok: "map_ok (sw_pending s)" using assms by (simp add: status_ok_def Let_def)
  let ?e = "\<lparr>ps_status = st, ps_observation = obs, ps_quotaWindows = ws, ps_forgottenVersion = forgotten_version i s\<rparr>"
  show ?thesis
  proof (cases "\<exists>p. map_get (sw_pending s) i = Some p \<and> \<not> newerObservation obs (ps_observation p)")
    case older: True
    then obtain p where p: "(i, p) \<in> set (sw_pending s)" "\<not> newerObservation obs (ps_observation p)" "map_get (sw_pending s) i = Some p"
      using map_get_in [OF ok] by blast
    then have "status_record i st obs ws s = s"
      using True by (simp add: status_record_def taken_in_def OVERWRITABLE_BY_OBSERVATION_def)
    moreover have "still_held s i obs" using p assms by (auto simp: still_held_def status_ok_def Let_def)
    ultimately show ?thesis using assms True by (auto simp: owed_after_def status_ok_def Let_def)
  next
    case fresh: False
    then have rec: "status_record i st obs ws s = s\<lparr>sw_pending := map_set i ?e (sw_pending s)\<rparr>" (is "_ = ?t")
      using True by (auto simp: status_record_def taken_in_def OVERWRITABLE_BY_OBSERVATION_def split: option.splits)
    have held: "still_held ?t j o'" if old: "still_held s j o'" for j o'
    proof -
      obtain f where f: "(j, f) \<in> set (sw_pending s @ sw_batch s)" "ps_forgottenVersion f = forgotten_version j s"
        "\<not> newerObservation o' (ps_observation f)" using old unfolding still_held_def by blast
      have "\<not> newerObservation o' obs" if "j = i" "(i, f) \<in> set (sw_pending s)"
        using that fresh map_get_in [OF ok, of i f] newer_asym newer_trans f(3) by (metis option.sel)
      then show ?thesis using f ok unfolding still_held_def
        by (cases "j = i \<and> (i, f) \<in> set (sw_pending s)") (auto simp: in_map_set forgotten_version_def)
    qed
    moreover have "still_held ?t i obs" using ok by (auto simp: still_held_def in_map_set forgotten_version_def)
    moreover have "ps_forgottenVersion f = forgotten_version j ?t" if "(j, f) \<in> set (map_set i ?e (sw_pending s))" for j f
      using assms that ok by (auto simp: status_ok_def in_map_set forgotten_version_def Let_def split: if_splits)
    moreover have "list_all proper_entry (map_set i ?e (sw_pending s) @ sw_batch s)"
      using assms True ok by (auto simp: status_ok_def in_map_set list_all_iff proper_entry_def taken_in_def Let_def split: if_splits)
    ultimately show ?thesis using assms True ok unfolding rec by (auto simp: owed_after_def status_ok_def Let_def)
  qed
qed

lemma status_ok_forget:
  assumes "status_ok (due, s)"
  shows "status_ok (filter (\<lambda>v. fst v \<noteq> i) due, status_forget i s)"
proof -
  have version: "forgotten_version j (status_forget i s) = (if j = i then forgotten_version i s + 1 else forgotten_version j s)" for j
    by (simp add: forgotten_version_def status_forget_def)
  have "still_held (status_forget i s) j obs" if "still_held s j obs" "j \<noteq> i" for j obs
    using that unfolding still_held_def version by (auto simp: status_forget_def map_delete_in)
  moreover have "ps_forgottenVersion f = forgotten_version j (status_forget i s)" if "(j, f) \<in> set (map_delete i (sw_pending s))" for j f
    using assms that by (auto simp: status_ok_def version map_delete_in Let_def)
  moreover have "list_all proper_entry (map_delete i (sw_pending s) @ sw_batch s)"
    using assms by (auto simp: status_ok_def list_all_iff map_delete_in Let_def)
  ultimately show ?thesis using assms by (auto simp: status_ok_def status_forget_def Let_def)
qed

lemma status_ok_sent: "status_ok (due, s) \<Longrightarrow> proper_entry (i, e) \<Longrightarrow> status_ok (due, s\<lparr>sw_sent := sw_sent s @ [(i, e, a)]\<rparr>)"
  by (auto simp: status_ok_def still_held_def forgotten_version_def Let_def)

lemma status_ok_settled:
  assumes "status_ok (due, s\<lparr>sw_batch := (i, e) # rest\<rparr>)"
  shows "status_ok (filter (\<lambda>v. fst v \<noteq> i \<or> newerObservation (snd v) (ps_observation e)) due, s\<lparr>sw_batch := rest\<rparr>)"
proof -
  have "still_held (s\<lparr>sw_batch := rest\<rparr>) j obs"
    if held: "still_held (s\<lparr>sw_batch := (i, e) # rest\<rparr>) j obs" and other: "j \<noteq> i \<or> newerObservation obs (ps_observation e)" for j obs
    using held other unfolding still_held_batch by auto
  then show ?thesis using assms by (auto simp: status_ok_def forgotten_version_def Let_def)
qed

lemma status_ok_answers:
  assumes "status_ok (due, s)"
  shows "status_ok (owed_after (StatusAnswers a) s due, status_answers a s)"
proof (cases "sw_batch s")
  case (Cons x rest)
  obtain i e where x: "x = (i, e)" by fastforce
  let ?due = "owed_after (StatusAnswers a) s due"
  let ?u = "apply_answer i e a s"
  let ?t = "?u\<lparr>sw_sent := sw_sent ?u @ [(i, e, a)], sw_unsettled := sw_unsettled ?u - 1\<rparr>"
  have full: "status_ok (due, s\<lparr>sw_batch := (i, e) # rest\<rparr>)" using assms Cons x by (subst status_ok_cong [of _ s]) simp_all
  have proper: "proper_entry (i, e)" using assms Cons x by (simp add: status_ok_def Let_def)
  have "status_ok (?due, ?u\<lparr>sw_batch := rest\<rparr>)"
  proof (cases "a = TransitionFailed")
    case True
    then have "status_ok (?due, ?u\<lparr>sw_batch := rest\<rparr>) = status_ok (due, (requeue i e s)\<lparr>sw_batch := rest\<rparr>)"
      using Cons x by (simp add: owed_after_def apply_answer_def Let_def) (rule status_ok_cong; simp)
    then show ?thesis using status_ok_requeue [OF full] by simp
  next
    case False
    have "status_ok (?due, ?u\<lparr>sw_batch := rest\<rparr>) = status_ok (?due, s\<lparr>sw_batch := rest\<rparr>)"
      by (rule status_ok_cong) (use False in \<open>cases a; simp add: apply_answer_def\<close>)+
    then show ?thesis using status_ok_settled [OF full] Cons x False by (simp add: owed_after_def)
  qed
  from status_ok_sent [OF this proper, of a] have "status_ok (?due, ?t\<lparr>sw_batch := rest\<rparr>)"
    by (subst status_ok_cong [of _ "?u\<lparr>sw_batch := rest, sw_sent := sw_sent ?u @ [(i, e, a)]\<rparr>"]) simp_all
  then have "status_ok (?due, writer_resume status_deps (status_loop rest ?t))"
    by (intro status_lifecycle.resume_kept status_ok_loop)
  then show ?thesis using Cons x by (simp add: status_answers_def Let_def)
qed (use assms in \<open>simp add: status_answers_def owed_after_def\<close>)

lemma status_ok_move: "status_ok x \<Longrightarrow> status_ok (status_move ev x)"
proof -
  assume ok: "status_ok x"
  obtain due s where x: "x = (due, s)" by fastforce
  have attached: "status_ok (due, attachParked s) = status_ok (due, s)" by (rule status_ok_cong) (simp_all add: attachParked_def)
  have "status_ok (owed_after ev s due, status_step ev s)"
  proof (cases ev)
    case (RecordStatus i st obs ws)
    then show ?thesis using status_ok_record ok x by simp
  next
    case (StatusAnswers a)
    then show ?thesis using status_ok_answers ok x by simp
  qed (use ok x attached in \<open>simp_all add: owed_after_def status_ok_flush status_ok_forget status_lifecycle.start_kept
      status_lifecycle.stop_kept status_lifecycle.deadline_kept\<close>)
  then show ?thesis by (simp add: status_move_def x)
qed

lemma status_ok_new: "status_ok ([], createAccountStatusWriter)"
  by (simp add: status_ok_def createAccountStatusWriter_def)

interpretation status_writing: invariant_machine "([], createAccountStatusWriter)" status_move status_ok
  by unfold_locales (rule status_ok_new, erule status_ok_move)

section \<open>No verdict is lost\<close>

definition status_run :: "status_event list \<Rightarrow> status_writer" where
  "status_run evs = fold status_step evs createAccountStatusWriter"

lemma snd_move_run: "snd (fold status_move evs x) = fold status_step evs (snd x)"
  by (induction evs arbitrary: x) (simp_all add: status_move_def)

text \<open>The updates answered later are appended to those answered before.\<close>

lemma sent_loop [simp]: "sw_sent (status_loop b s) = sw_sent s"
  by (induction b s rule: status_loop.induct) (simp_all add: requeue_def Let_def)

lemma sent_flush [simp]: "sw_sent (status_flush s) = sw_sent s"
  by (simp add: status_flush_def status_drain_def)

interpretation status_log: lifecycle_kept status_deps "\<lambda>s. sw_sent s = log_before" for log_before
  by unfold_locales simp_all

lemma sent_answers:
  "sw_sent (status_answers a s) = sw_sent s @ (case sw_batch s of [] \<Rightarrow> [] | (i, e) # rest \<Rightarrow> [(i, e, a)])"
proof (cases "sw_batch s")
  case (Cons x rest)
  have "sw_sent (apply_answer i e a s) = sw_sent s" for i e by (cases a) (simp_all add: apply_answer_def requeue_def Let_def)
  then show ?thesis using Cons by (auto simp: status_answers_def Let_def split: prod.splits intro!: status_log.resume_kept)
qed (simp add: status_answers_def)

lemma sent_step:
  "sw_sent (status_step ev s) =
     sw_sent s @ (case ev of StatusAnswers a \<Rightarrow> (case sw_batch s of [] \<Rightarrow> [] | (i, e) # rest \<Rightarrow> [(i, e, a)]) | _ \<Rightarrow> [])"
  by (cases ev) (simp_all add: sent_answers status_record_def status_forget_def attachParked_def
      status_log.start_kept status_log.stop_kept status_log.deadline_kept)

lemma sent_grows: "length (sw_sent s) \<le> length (sw_sent (fold status_step evs s))"
  by (induction evs rule: rev_induct) (auto simp: sent_step)

lemma sent_record [simp]: "sw_sent (status_record i st obs ws s) = sw_sent s"
  by (simp add: status_record_def)

definition delivered :: "account_id \<Rightarrow> health_observation \<Rightarrow> (account_id \<times> pending_status \<times> status_answer) list \<Rightarrow> bool" where
  "delivered i obs sent \<longleftrightarrow>
     list_ex (\<lambda>(j, e, a). j = i \<and> a \<noteq> TransitionFailed \<and> \<not> newerObservation obs (ps_observation e)) sent"

lemma owed_until_delivered:
  assumes "(i, obs) \<in> set (fst x)"
  shows "(i, obs) \<in> set (fst (fold status_move evs x)) \<or> ForgetStatus i \<in> set evs \<or>
    delivered i obs (drop (length (sw_sent (snd x))) (sw_sent (fold status_step evs (snd x))))"
  using assms
proof (induction evs arbitrary: x rule: rev_induct)
  case (snoc ev evs)
  let ?y = "fold status_move evs x"
  let ?s = "fold status_step evs (snd x)"
  let ?n = "length (sw_sent (snd x))"
  note grows = sent_grows [of "snd x" evs]
  have more: "delivered i obs (drop ?n (sw_sent ?s)) \<Longrightarrow> delivered i obs (drop ?n (sw_sent (status_step ev ?s)))"
    by (auto simp: sent_step delivered_def)
  have now: "(i, obs) \<in> set (owed_after ev ?s (fst ?y)) \<or> ev = ForgetStatus i \<or>
      delivered i obs (drop ?n (sw_sent (status_step ev ?s)))" if "(i, obs) \<in> set (fst ?y)"
    using that grows
    by (cases ev) (auto simp: owed_after_def sent_step sent_answers delivered_def split: list.splits if_splits)
  have "fst (fold status_move (evs @ [ev]) x) = owed_after ev ?s (fst ?y)"
    by (simp add: status_move_def [of ev] snd_move_run)
  then show ?case using snoc.IH [OF snoc.prems] more now by auto
qed simp

text \<open>
  (C29) No verdict is lost. Whatever updates fail, flushes run, deadlines pass and observations arrive
  out of order: a verdict the writer took in is, at any later point, still held (or one of that
  account at least as new is), unless the repository has since answered an update of the account that is
  at least as new or the account has since been forgotten. And only observed verdicts are ever sent,
  each guarded by an observation of an account that was active or cooling down.
\<close>

theorem status_verdict_never_lost:
  assumes "taken_in (status_run evs) st obs"
  shows "((\<exists>e. (i, e) \<in> set (sw_pending (status_run (evs @ RecordStatus i st obs ws # later)) @
        sw_batch (status_run (evs @ RecordStatus i st obs ws # later))) \<and> \<not> newerObservation obs (ps_observation e)) \<or>
      ForgetStatus i \<in> set later \<or>
      delivered i obs (drop (length (sw_sent (status_run evs))) (sw_sent (status_run (evs @ RecordStatus i st obs ws # later))))) \<and>
    list_all (\<lambda>(j, e, a). persistable (ps_status e) \<and> hf_status (ps_observation e) \<in> {Active, CoolingDown})
      (sw_sent (status_run (evs @ RecordStatus i st obs ws # later)))"
proof -
  let ?all = "evs @ RecordStatus i st obs ws # later"
  let ?x = "fold status_move evs ([], createAccountStatusWriter)"
  let ?y = "status_move (RecordStatus i st obs ws) ?x"
  let ?z = "fold status_move later ?y"
  have s: "snd ?x = status_run evs" "snd ?z = status_run ?all" "sw_sent (snd ?y) = sw_sent (status_run evs)"
      "fold status_step later (snd ?y) = status_run ?all"
    by (simp_all add: snd_move_run status_run_def status_move_def)
  have ok: "status_ok ?z" using status_writing.run_inv [of ?all] by simp
  have "(i, obs) \<in> set (fst ?y)" using assms s(1) by (simp add: status_move_def owed_after_def)
  from owed_until_delivered [OF this, of later]
  have "(i, obs) \<in> set (fst ?z) \<or> ForgetStatus i \<in> set later \<or>
      delivered i obs (drop (length (sw_sent (status_run evs))) (sw_sent (status_run ?all)))" unfolding s .
  moreover have "\<exists>e. (i, e) \<in> set (sw_pending (snd ?z) @ sw_batch (snd ?z)) \<and> \<not> newerObservation obs (ps_observation e)"
    if "(i, obs) \<in> set (fst ?z)"
    using that ok unfolding status_ok_def still_held_def Let_def by blast
  moreover have "list_all (\<lambda>(j, e, a). persistable (ps_status e) \<and> hf_status (ps_observation e) \<in> {Active, CoolingDown})
      (sw_sent (snd ?z))"
    using ok by (simp add: status_ok_def proper_entry_def Let_def case_prod_beta)
  ultimately show ?thesis unfolding s(2) by blast
qed

definition sample_observation :: "nat \<Rightarrow> health_observation" where
  "sample_observation n =
     \<lparr>hf_lifecycleVersion = 1, hf_healthRecoveryVersion = 0, hf_authRecoveryVersion = 0, hf_authMaterial = None,
      hf_status = Active, hf_recoveryGeneration = None, ho_observationGeneration = n, ho_verdictVersion = 0, ho_ref = n\<rparr>"

theorem status_verdict_never_lost_witness:
  "let later = [FlushStatus, RecordStatus ''a'' NeedsReauth (sample_observation 1) None, StatusAnswers TransitionFailed];
       s = status_run (RecordStatus ''a'' Exhausted (sample_observation 2) None # later)
   in (\<exists>e. (''a'', e) \<in> set (sw_pending s @ sw_batch s) \<and> \<not> newerObservation (sample_observation 2) (ps_observation e)) \<and>
      map_option ps_status (map_get (sw_pending s) ''a'') = Some Exhausted"
proof -
  let ?later = "[FlushStatus, RecordStatus ''a'' NeedsReauth (sample_observation 1) None, StatusAnswers TransitionFailed]"
  let ?s = "status_run ([] @ RecordStatus ''a'' Exhausted (sample_observation 2) None # ?later)"
  have "taken_in (status_run []) Exhausted (sample_observation 2)" by code_simp
  from status_verdict_never_lost [OF this, of "''a''" None ?later]
  have "(\<exists>e. (''a'', e) \<in> set (sw_pending ?s @ sw_batch ?s) \<and> \<not> newerObservation (sample_observation 2) (ps_observation e)) \<or>
      delivered ''a'' (sample_observation 2) (drop (length (sw_sent (status_run []))) (sw_sent ?s))"
    by simp
  moreover have "\<not> delivered ''a'' (sample_observation 2) (drop (length (sw_sent (status_run []))) (sw_sent ?s))" by code_simp
  moreover have "map_option ps_status (map_get (sw_pending ?s) ''a'') = Some Exhausted" by code_simp
  ultimately show ?thesis unfolding Let_def by simp
qed

section \<open>Shutdown and delivery\<close>

lemma size_requeue: "map_size (sw_pending (requeue i e s)) \<le> Suc (map_size (sw_pending s))"
  by (auto simp: requeue_def size_set)

lemma requeue_keeps [simp]:
  "sw_lifecycle (requeue i e s) = sw_lifecycle s" "sw_warnings (requeue i e s) = sw_warnings s" "sw_unsettled (requeue i e s) = sw_unsettled s"
  "sw_batch (requeue i e s) = sw_batch s"
  by (simp_all add: requeue_def)

lemma loop_keeps [simp]: "sw_lifecycle (status_loop b s) = sw_lifecycle s" "sw_warnings (status_loop b s) = sw_warnings s"
  by (induction b s rule: status_loop.induct) (simp_all add: Let_def)

lemma loop_counts:
  "sw_unsettled s = length b \<Longrightarrow> sw_unsettled (status_loop b s) = length (sw_batch (status_loop b s)) \<and>
     map_size (sw_pending (status_loop b s)) + sw_unsettled (status_loop b s) \<le> map_size (sw_pending s) + sw_unsettled s"
proof (induction b s rule: status_loop.induct)
  case (2 i e rest s)
  then show ?case using size_requeue [of i e s] by (auto simp: Let_def)
qed simp

definition counted_writer :: "status_writer \<Rightarrow> bool" where
  "counted_writer s \<longleftrightarrow> sw_unsettled s = length (sw_batch s)"

lemma flush_counts:
  "counted_writer s \<Longrightarrow> counted_writer (status_flush s) \<and>
     map_size (sw_pending (status_flush s)) + sw_unsettled (status_flush s) \<le> map_size (sw_pending s) + sw_unsettled s"
  using loop_counts [of "s\<lparr>sw_pending := [], sw_unsettled := map_size (sw_pending s)\<rparr>" "sw_pending s"]
  by (auto simp: counted_writer_def status_flush_def status_drain_def map_size_def)

interpretation status_stop: drained_writer status_deps sw_warnings counted_writer
proof
  fix s
  assume ok: "counted_writer s"
  show "counted_writer (wd_flush status_deps s)"
    "wd_outstanding status_deps (wd_flush status_deps s) \<le> wd_outstanding status_deps s" using flush_counts [OF ok] by simp_all
  show "wd_outstanding status_deps s = wd_pending status_deps s" if "\<not> wd_running status_deps s"
    using ok that by (simp add: counted_writer_def)
qed (simp_all add: counted_writer_def, simp_all add: status_flush_def status_drain_def)

lemma status_answers_stop:
  assumes "writer_ok status_deps sw_warnings s" "counted_writer s"
  shows "writer_ok status_deps sw_warnings (status_answers a s) \<and> counted_writer (status_answers a s)"
proof (cases "sw_batch s")
  case (Cons x rest)
  obtain i e where x: "x = (i, e)" by fastforce
  let ?u = "apply_answer i e a s"
  let ?t = "?u\<lparr>sw_sent := sw_sent ?u @ [(i, e, a)], sw_unsettled := sw_unsettled ?u - 1\<rparr>"
  have u: "sw_lifecycle ?u = sw_lifecycle s" "sw_warnings ?u = sw_warnings s" "sw_unsettled ?u = sw_unsettled s"
      "map_size (sw_pending ?u) \<le> Suc (map_size (sw_pending s))"
    using size_requeue [of i e s] by (cases a; simp add: apply_answer_def Let_def)+
  have n: "sw_unsettled s = Suc (length rest)" using assms(2) Cons by (simp add: counted_writer_def)
  have loop: "sw_unsettled (status_loop rest ?t) = length (sw_batch (status_loop rest ?t))"
      "map_size (sw_pending (status_loop rest ?t)) + sw_unsettled (status_loop rest ?t) \<le> map_size (sw_pending s) + sw_unsettled s"
    using loop_counts [of ?t rest] u(3,4) n by simp_all
  have "writer_mid status_deps sw_warnings (status_loop rest ?t)"
    by (rule status_stop.mid_cong [of s]) (use assms(1) loop(2) u in \<open>simp_all add: writer_ok_def\<close>)
  from status_stop.resume_ok [OF this] show ?thesis
    using loop(1) Cons x by (simp add: status_answers_def counted_writer_def Let_def)
qed (use assms in \<open>simp add: status_answers_def\<close>)

lemma status_stop_step:
  assumes "writer_ok status_deps sw_warnings s \<and> counted_writer s"
  shows "writer_ok status_deps sw_warnings (status_step ev s) \<and> counted_writer (status_step ev s)"
proof (cases ev)
  case (RecordStatus i st obs ws)
  have "writer_ok status_deps sw_warnings (status_record i st obs ws s)"
    by (rule status_stop.quiet_keeps [of s]) (use assms in \<open>auto simp: status_record_def\<close>)
  then show ?thesis using assms RecordStatus by (simp add: counted_writer_def status_record_def)
next
  case (ForgetStatus i)
  have "writer_ok status_deps sw_warnings (status_forget i s)"
    by (rule status_stop.quiet_keeps [of s]) (use assms size_delete_le [of i "sw_pending s"] in \<open>auto simp: status_forget_def\<close>)
  then show ?thesis using assms ForgetStatus by (simp add: counted_writer_def status_forget_def)
next
  case AttachParked
  have "writer_ok status_deps sw_warnings (attachParked s)"
    by (rule status_stop.quiet_keeps [of s]) (use assms in \<open>auto simp: attachParked_def\<close>)
  then show ?thesis using assms AttachParked by (simp add: counted_writer_def attachParked_def)
next
  case (StatusAnswers a)
  then show ?thesis using status_answers_stop assms by simp
next
  case FlushStatus
  then show ?thesis using status_stop.flush_ok_keeps [of s] assms by simp
qed (use assms status_stop.start_keeps status_stop.stop_ok_keeps status_stop.deadline_keeps in simp_all)

lemma status_stop_new: "writer_ok status_deps sw_warnings createAccountStatusWriter \<and> counted_writer createAccountStatusWriter"
  by (simp add: writer_ok_def writer_mid_def counted_writer_def createAccountStatusWriter_def createWriterLifecycle_def)

interpretation status_shutdown: invariant_machine createAccountStatusWriter status_step
  "\<lambda>s. writer_ok status_deps sw_warnings s \<and> counted_writer s"
  by unfold_locales (rule status_stop_new, erule status_stop_step)

text \<open>A stop reports every verdict it leaves unwritten.\<close>

lemma status_stop_reports:
  assumes "wl_stopping (sw_lifecycle (status_run evs)) = StopFinished \<or>
    wl_draining (sw_lifecycle (status_run evs)) \<and> wl_expired (sw_lifecycle (status_run evs))"
  shows "\<not> wl_accepting (sw_lifecycle (status_run evs)) \<and> all_reported status_deps sw_warnings (status_run evs)"
  using status_stop.stopped_reported [of "status_run evs"] status_shutdown.run_inv [of evs] assms by (simp add: status_run_def)

text \<open>A flush that is answered delivers everything.\<close>

interpretation status_empty: lifecycle_kept status_deps "\<lambda>s. sw_pending s = [] \<and> sw_batch s = []"
  by unfold_locales (simp_all add: status_flush_def status_drain_def map_size_def)

lemma answers_empty_batch:
  assumes "sw_pending s = []" "\<not> wl_deadlineExpired (sw_lifecycle s)"
  shows "sw_pending (fold status_step (replicate (length (sw_batch s)) (StatusAnswers TransitionCommitted)) s) = [] \<and>
    sw_batch (fold status_step (replicate (length (sw_batch s)) (StatusAnswers TransitionCommitted)) s) = []"
  using assms
proof (induction "sw_batch s" arbitrary: s)
  case (Cons x rest)
  obtain i e where x: "x = (i, e)" by fastforce
  let ?t = "status_answers TransitionCommitted s"
  note IH = Cons.hyps(1)
  note here = Cons.hyps(2) [symmetric] Cons.prems x
  show ?case
  proof (cases rest)
    case Nil
    then have "sw_pending ?t = [] \<and> sw_batch ?t = []"
      using here by (auto simp: status_answers_def apply_answer_def Let_def intro!: status_empty.resume_kept)
    then show ?thesis using Nil here(1) by simp
  next
    case (Cons y more)
    then have "sw_pending ?t = []" "sw_batch ?t = rest" "sw_lifecycle ?t = sw_lifecycle s"
      using here by (cases y; auto simp: status_answers_def apply_answer_def writer_resume_def Let_def)+
    then show ?thesis using IH [of ?t] here by simp
  qed
qed simp

lemma flush_delivers:
  assumes "sw_batch s = []" "\<not> wl_deadlineExpired (sw_lifecycle s)"
  shows "sw_pending (fold status_step (FlushStatus # replicate (map_size (sw_pending s)) (StatusAnswers TransitionCommitted)) s) = []"
proof (cases "sw_pending s")
  case (Cons x rest)
  have "sw_pending (status_flush s) = []" "sw_batch (status_flush s) = sw_pending s" "sw_lifecycle (status_flush s) = sw_lifecycle s"
    using assms Cons by (cases x; simp add: status_flush_def status_drain_def map_size_def)+
  then show ?thesis using answers_empty_batch [of "status_flush s"] assms(2) by (simp add: map_size_def)
qed (simp add: status_flush_def status_drain_def map_size_def assms)

end
