(* ===== verification/Quota_Writer.thy ===== *)
theory Quota_Writer
  imports Health_Store Writer_Lifecycle
begin

text \<open>
  The quota writer (\<open>dataplane/quota-writer.ts\<close>, \<open>dataplane/quota-writer-observation.ts\<close>): quota readings
  made durable off the request path. One reading per account is pending, merged window by window; a flush
  takes them all and writes the windows one after the other, and a window that could not be written is
  merged back. The write awaited is that of the first window left of the first reading of the batch;
  its answer is an event. The repository has both of its update operations, as the composition
  provides it.
\<close>

section \<open>Pending readings\<close>

record pending_quota =
  pq_windows :: "quota_window list"
  pq_observation :: "health_observation option"

definition mergePendingQuota :: "pending_quota option \<Rightarrow> pending_quota \<Rightarrow> pending_quota" where
  "mergePendingQuota held incoming =
     (case held of
        None \<Rightarrow> incoming
      | Some h \<Rightarrow>
          (case (pq_observation h, pq_observation incoming) of
             (None, None) \<Rightarrow> incoming\<lparr>pq_windows := mergeQuotaWindows (pq_windows h) (Some (pq_windows incoming))\<rparr>
           | (Some left, Some right) \<Rightarrow>
               if ho_observationGeneration left = ho_observationGeneration right \<and> sameAccountFacts left right
               then incoming\<lparr>pq_windows := mergeQuotaWindows (pq_windows h) (Some (pq_windows incoming))\<rparr>
               else if \<not> newerObservation right left then h else incoming
           | _ \<Rightarrow> incoming))"

section \<open>State\<close>

datatype upsert_answer = UpsertStored | UpsertRefused | UpsertFailed

record quota_writer =
  qu_pending :: "(account_id, pending_quota) js_map"
  qu_batch :: "(account_id \<times> pending_quota) list" \<comment> \<open>readings of the running flush, the current one first\<close>
  qu_left :: "quota_window list" \<comment> \<open>windows left of the current one\<close>
  qu_unsettled :: nat
  qu_rejectedAfterStop :: nat
  qu_written :: nat
  qu_writeFailures :: nat
  qu_lifecycle :: writer_lifecycle
  qu_warnings :: "nat list"
  qu_sent :: "(account_id \<times> health_observation option \<times> quota_window \<times> upsert_answer) list" \<comment> \<open>answered updates\<close>

definition createQuotaWindowWriter :: quota_writer where
  "createQuotaWindowWriter =
     \<lparr>qu_pending = [], qu_batch = [], qu_left = [], qu_unsettled = 0, qu_rejectedAfterStop = 0, qu_written = 0,
      qu_writeFailures = 0, qu_lifecycle = createWriterLifecycle, qu_warnings = [], qu_sent = []\<rparr>"

section \<open>Operations\<close>

definition quota_record :: "account_id \<Rightarrow> quota_window list \<Rightarrow> health_observation option \<Rightarrow> quota_writer \<Rightarrow> quota_writer" where
  "quota_record i windows observation s =
     (if \<not> wl_accepting (qu_lifecycle s) then s\<lparr>qu_rejectedAfterStop := qu_rejectedAfterStop s + 1\<rparr>
      else if windows = [] then s
      else s\<lparr>qu_pending := map_set i (mergePendingQuota (map_get (qu_pending s) i)
               \<lparr>pq_windows = windows, pq_observation = observation\<rparr>) (qu_pending s)\<rparr>)"

definition put_back :: "account_id \<Rightarrow> pending_quota \<Rightarrow> quota_window \<Rightarrow> quota_writer \<Rightarrow> quota_writer" where
  "put_back i reading window s =
     s\<lparr>qu_pending := map_set i
         (mergePendingQuota (Some (reading\<lparr>pq_windows := [window]\<rparr>))
            (case map_get (qu_pending s) i of Some p \<Rightarrow> p | None \<Rightarrow> reading\<lparr>pq_windows := []\<rparr>)) (qu_pending s)\<rparr>"

fun first_windows :: "(account_id \<times> pending_quota) list \<Rightarrow> quota_window list" where
  "first_windows [] = []"
| "first_windows ((i, r) # rest) = pq_windows r"

text \<open>The two loops of \<open>drain\<close> up to the next write; once the deadline has passed every window goes back.\<close>

fun quota_loop :: "quota_window list \<Rightarrow> (account_id \<times> pending_quota) list \<Rightarrow> quota_writer \<Rightarrow> quota_writer" where
  "quota_loop left [] s = s\<lparr>qu_batch := [], qu_left := [], qu_unsettled := 0\<rparr>"
| "quota_loop [] ((i, r) # rest) s =
     quota_loop (first_windows rest) rest (s\<lparr>qu_unsettled := qu_unsettled s - 1\<rparr>)"
| "quota_loop (w # left) ((i, r) # rest) s =
     (if wl_deadlineExpired (qu_lifecycle s) then quota_loop left ((i, r) # rest) (put_back i r w s)
      else s\<lparr>qu_batch := (i, r) # rest, qu_left := w # left\<rparr>)"

definition quota_drain :: "quota_writer \<Rightarrow> quota_writer" where
  "quota_drain s =
     (if map_size (qu_pending s) = 0 then s
      else quota_loop (first_windows (qu_pending s)) (qu_pending s) (s\<lparr>qu_pending := [], qu_unsettled := map_size (qu_pending s)\<rparr>))"

definition quota_flush :: "quota_writer \<Rightarrow> quota_writer" where
  "quota_flush s = (if qu_batch s \<noteq> [] then s else quota_drain s)"

definition quota_deps :: "quota_writer writer_deps" where
  "quota_deps =
     \<lparr>wd_lifecycle = qu_lifecycle, wd_put = (\<lambda>l s. s\<lparr>qu_lifecycle := l\<rparr>), wd_flush = quota_flush,
      wd_running = (\<lambda>s. qu_batch s \<noteq> []), wd_pending = (\<lambda>s. map_size (qu_pending s)),
      wd_outstanding = (\<lambda>s. map_size (qu_pending s) + qu_unsettled s),
      wd_warn = (\<lambda>n s. s\<lparr>qu_warnings := qu_warnings s @ [n]\<rparr>)\<rparr>"

definition upsert_outcome :: "account_id \<Rightarrow> pending_quota \<Rightarrow> quota_window \<Rightarrow> upsert_answer \<Rightarrow> quota_writer \<Rightarrow> quota_writer" where
  "upsert_outcome i reading window answer s =
     (if answer = UpsertFailed then (let s = put_back i reading window s in s\<lparr>qu_writeFailures := qu_writeFailures s + 1\<rparr>)
      else if answer = UpsertRefused \<and> pq_observation reading \<noteq> None then s
      else s\<lparr>qu_written := qu_written s + 1\<rparr>)"

definition quota_answers :: "upsert_answer \<Rightarrow> quota_writer \<Rightarrow> quota_writer" where
  "quota_answers answer s =
     (case (qu_batch s, qu_left s) of
        ((i, r) # rest, w # left) \<Rightarrow>
          let s = upsert_outcome i r w answer s;
              s = s\<lparr>qu_sent := qu_sent s @ [(i, pq_observation r, w, answer)]\<rparr>
          in writer_resume quota_deps (quota_loop left ((i, r) # rest) s)
      | _ \<Rightarrow> s)"

datatype quota_event =
    RecordQuota account_id "quota_window list" "health_observation option"
  | FlushQuota
  | QuotaAnswers upsert_answer
  | StartQuota
  | StopQuota
  | QuotaDeadline

fun quota_step :: "quota_event \<Rightarrow> quota_writer \<Rightarrow> quota_writer" where
  "quota_step (RecordQuota i ws obs) s = quota_record i ws obs s"
| "quota_step FlushQuota s = quota_flush s"
| "quota_step (QuotaAnswers a) s = quota_answers a s"
| "quota_step StartQuota s = writer_start quota_deps s"
| "quota_step StopQuota s = writer_stop quota_deps s"
| "quota_step QuotaDeadline s = writer_deadline quota_deps s"

definition quota_run :: "quota_event list \<Rightarrow> quota_writer" where
  "quota_run evs = fold quota_step evs createQuotaWindowWriter"

section \<open>Intents\<close>

text \<open>
  What a reading is evidence about: the account as the observation captured it. Readings taken under
  different intents are never merged.
\<close>

type_synonym intent = "(nat \<times> health_facts) option"

definition intent_of :: "health_observation option \<Rightarrow> intent" where
  "intent_of observation = map_option (\<lambda>x. (ho_observationGeneration x, health_facts.truncate x)) observation"

lemma same_facts_truncate: "sameAccountFacts a b \<longleftrightarrow> health_facts.truncate a = health_facts.truncate b"
  by (cases a; cases b) (simp add: sameAccountFacts_def health_facts.truncate_def)

lemma merge_pending_cases:
  obtains (merged) h where "held = Some h" "intent_of (pq_observation h) = intent_of (pq_observation incoming)"
      "mergePendingQuota held incoming = incoming\<lparr>pq_windows := mergeQuotaWindows (pq_windows h) (Some (pq_windows incoming))\<rparr>"
  | (kept) h where "held = Some h" "intent_of (pq_observation h) \<noteq> intent_of (pq_observation incoming)" "mergePendingQuota held incoming = h"
  | (replaced) "held = None \<or> (\<exists>h. held = Some h \<and> intent_of (pq_observation h) \<noteq> intent_of (pq_observation incoming))"
      "mergePendingQuota held incoming = incoming"
  by (cases held; cases "pq_observation incoming"; cases "pq_observation (the held)")
    (fastforce simp: mergePendingQuota_def intent_of_def same_facts_truncate split: if_splits)+

section \<open>Merged windows\<close>

text \<open>The kinds of a merged set are those of both; its windows are merges of theirs.\<close>

definition kinds :: "quota_window list \<Rightarrow> quota_window_kind set" where
  "kinds ws = qw_window ` set ws"

lemma kinds_simps [simp]: "kinds [] = {}" "kinds (w # ws) = insert (qw_window w) (kinds ws)"
  by (simp_all add: kinds_def)

lemma held_map_keyed: "window_keyed (held_map ws)"
proof -
  have all: "window_keyed (fold (\<lambda>(k, v) m. map_set k v m) (map (\<lambda>w. (qw_window w, w)) ws) m)" if "window_keyed m" for m
    using that by (induction ws arbitrary: m) (simp_all add: window_keyed_set)
  have "window_keyed []" by (simp add: window_keyed_def)
  from all [OF this] show ?thesis by (simp only: held_map_def map_from_def)
qed

lemma kinds_values: "window_keyed m \<Longrightarrow> kinds (map_values m) = fst ` set m"
  by (force simp: kinds_def map_values_def window_keyed_def)

lemma keys_held_map: "fst ` set (held_map ws) = kinds ws"
proof -
  have "fst ` set (fold (\<lambda>(k, v) m. map_set k v m) (map (\<lambda>w. (qw_window w, w)) ws) m) = fst ` set m \<union> kinds ws" for m
    by (induction ws arbitrary: m) (auto simp: keys_set)
  then show ?thesis by (simp add: held_map_def map_from_def)
qed

lemma keys_fold_observation: "fst ` set (fold fold_observation ws m) = fst ` set m \<union> kinds ws"
  by (induction ws arbitrary: m) (auto simp: fold_observation_def keys_set)

lemma kinds_merge: "kinds (mergeQuotaWindows a (Some b)) = kinds a \<union> kinds b"
  using kinds_values [OF fold_observation_keyed [OF held_map_keyed], of b a]
  by (simp add: mergeQuotaWindows_def held_map_def [symmetric] keys_fold_observation keys_held_map)

inductive_set merges :: "quota_window set \<Rightarrow> quota_window set" for R where
  recorded: "w \<in> R \<Longrightarrow> w \<in> merges R"
| merged: "a \<in> merges R \<Longrightarrow> b \<in> merges R \<Longrightarrow> qw_window a = qw_window b \<Longrightarrow> mergeQuotaEvidence a b \<in> merges R"

lemma values_map_set: "snd ` set (map_set k v m) \<subseteq> insert v (snd ` set m)"
  by (induction k v m rule: map_set.induct) auto

lemma values_merge:
  assumes "set a \<subseteq> merges R" "set b \<subseteq> merges R"
  shows "set (mergeQuotaWindows a (Some b)) \<subseteq> merges R"
proof -
  have init: "snd ` set (fold (\<lambda>(k, v) m. map_set k v m) (map (\<lambda>w. (qw_window w, w)) ws) m) \<subseteq> snd ` set m \<union> set ws" for ws m
  proof (induction ws arbitrary: m)
    case (Cons w ws)
    show ?case using Cons.IH [of "map_set (qw_window w) w m"] values_map_set [of "qw_window w" w m] by auto
  qed simp
  have "snd ` set (fold fold_observation ws m) \<subseteq> merges R"
    if "set ws \<subseteq> merges R" "window_keyed m" "snd ` set m \<subseteq> merges R" for ws m
    using that
  proof (induction ws arbitrary: m)
    case (Cons w ws)
    let ?v = "case map_get m (qw_window w) of None \<Rightarrow> w | Some previous \<Rightarrow> mergeQuotaObservation previous w"
    have "?v \<in> merges R"
    proof (cases "map_get m (qw_window w)")
      case (Some previous)
      then have "qw_window previous = qw_window w" "previous \<in> merges R"
        using window_keyed_get [OF Cons.prems(2)] Cons.prems(3) by (force simp: map_get_def dest: map_of_SomeD)+
      then show ?thesis using Some Cons.prems(1) by (simp add: mergeQuotaObservation_def merges.merged)
    qed (use Cons.prems(1) in simp)
    then have "snd ` set (fold_observation w m) \<subseteq> merges R"
      using order_trans [OF values_map_set [of "qw_window w" ?v m]] Cons.prems(3) unfolding fold_observation_def by blast
    then show ?case using Cons fold_observation_keyed [of m "[w]"] by simp
  qed simp
  then have "snd ` set (fold fold_observation b (held_map a)) \<subseteq> merges R"
    using assms held_map_keyed [of a] order_trans [OF init [of a "[]"], of "merges R"] by (simp add: held_map_def map_from_def)
  then show ?thesis using assms(1) by (simp add: mergeQuotaWindows_def held_map_def [symmetric] map_values_def)
qed

section \<open>What holds of every reading\<close>

definition each_reading :: "(account_id \<Rightarrow> pending_quota \<Rightarrow> bool) \<Rightarrow> quota_writer \<Rightarrow> bool" where
  "each_reading P s \<longleftrightarrow>
     map_ok (qu_pending s) \<and> list_all (\<lambda>(i, r). P i r) (qu_pending s @ qu_batch s) \<and>
     set (qu_left s) \<subseteq> set (first_windows (qu_batch s))"

lemma quota_deps_simps [simp]:
  "wd_lifecycle quota_deps s = qu_lifecycle s" "wd_put quota_deps l s = s\<lparr>qu_lifecycle := l\<rparr>"
  "wd_flush quota_deps s = quota_flush s" "wd_running quota_deps s \<longleftrightarrow> qu_batch s \<noteq> []"
  "wd_pending quota_deps s = map_size (qu_pending s)" "wd_outstanding quota_deps s = map_size (qu_pending s) + qu_unsettled s"
  "wd_warn quota_deps n s = s\<lparr>qu_warnings := qu_warnings s @ [n]\<rparr>"
  by (simp_all add: quota_deps_def)

text \<open>A property of readings that merging and dropping windows keep holds of all the writer has.\<close>

locale reading_kept =
  fixes P :: "account_id \<Rightarrow> pending_quota \<Rightarrow> bool"
  assumes merge_kept: "P i h \<Longrightarrow> P i r \<Longrightarrow> P i (mergePendingQuota (Some h) r)"
    and fewer_kept: "P i r \<Longrightarrow> set ws \<subseteq> set (pq_windows r) \<Longrightarrow> P i (r\<lparr>pq_windows := ws\<rparr>)"
begin

lemma pending_kept:
  assumes "each_reading P s" "P i r"
  shows "each_reading P (s\<lparr>qu_pending := map_set i r (qu_pending s)\<rparr>)"
proof -
  have "(j, r') \<in> set (map_set i r (qu_pending s)) \<Longrightarrow> P j r'" for j r'
    using assms map_get_in [of "map_set i r (qu_pending s)" j r'] map_get_in [of "qu_pending s" j r']
    by (auto simp: each_reading_def list_all_iff split: if_splits)
  then show ?thesis using assms by (auto simp: each_reading_def list_all_iff Ball_def)
qed

lemma pending_reading: "each_reading P s \<Longrightarrow> map_get (qu_pending s) i = Some r \<Longrightarrow> P i r"
  using map_get_in [of "qu_pending s" i r] by (auto simp: each_reading_def list_all_iff)

lemma put_back_kept:
  assumes "each_reading P s" "P i r" "w \<in> set (pq_windows r)"
  shows "each_reading P (put_back i r w s)"
  unfolding put_back_def
  by (rule pending_kept [OF assms(1)])
    (use assms fewer_kept [of i r] pending_reading [OF assms(1)] in \<open>auto intro!: merge_kept split: option.splits\<close>)

lemma record_kept: "each_reading P s \<Longrightarrow> (ws \<noteq> [] \<Longrightarrow> P i \<lparr>pq_windows = ws, pq_observation = obs\<rparr>) \<Longrightarrow> each_reading P (quota_record i ws obs s)"
  using pending_reading [of s i] merge_kept [of i _ "\<lparr>pq_windows = ws, pq_observation = obs\<rparr>"]
  by (cases "map_get (qu_pending s) i")
    (auto simp: quota_record_def intro!: pending_kept, auto simp: each_reading_def mergePendingQuota_def)

lemma loop_kept:
  assumes "each_reading P (s\<lparr>qu_batch := b, qu_left := left\<rparr>)"
  shows "each_reading P (quota_loop left b s)"
  using assms
proof (induction left b s rule: quota_loop.induct)
  case (2 i r rest s)
  then show ?case by (simp add: each_reading_def)
next
  case (3 w left i r rest s)
  have "each_reading P ((put_back i r w s)\<lparr>qu_batch := (i, r) # rest, qu_left := left\<rparr>)"
    using put_back_kept [of "s\<lparr>qu_batch := (i, r) # rest, qu_left := w # left\<rparr>" i r w] 3(2)
    by (simp add: each_reading_def put_back_def)
  then show ?case using 3 by (simp add: each_reading_def)
qed (simp add: each_reading_def)

lemma flush_reading:
  assumes "each_reading P s"
  shows "each_reading P (quota_flush s)"
proof (cases "qu_batch s = [] \<and> map_size (qu_pending s) \<noteq> 0")
  case True
  let ?t = "s\<lparr>qu_pending := [], qu_unsettled := map_size (qu_pending s)\<rparr>"
  have "each_reading P (?t\<lparr>qu_batch := qu_pending s, qu_left := first_windows (qu_pending s)\<rparr>)"
    using assms True by (simp add: each_reading_def)
  then have "each_reading P (quota_loop (first_windows (qu_pending s)) (qu_pending s) ?t)" by (rule loop_kept)
  then show ?thesis using True by (simp add: quota_flush_def quota_drain_def)
qed (use assms in \<open>auto simp: quota_flush_def quota_drain_def\<close>)

sublocale lifecycle_kept quota_deps "each_reading P"
  by unfold_locales (simp_all add: flush_reading, simp_all add: each_reading_def)

lemma answers_kept:
  assumes "each_reading P s"
  shows "each_reading P (quota_answers a s)"
proof (cases "qu_batch s"; cases "qu_left s")
  fix x rest w left
  assume b: "qu_batch s = x # rest" and l: "qu_left s = w # left"
  obtain i r where x: "x = (i, r)" by fastforce
  have entry: "P i r" "w \<in> set (pq_windows r)" "set left \<subseteq> set (pq_windows r)" using assms b l x by (simp_all add: each_reading_def)
  let ?u = "upsert_outcome i r w a s"
  let ?t = "?u\<lparr>qu_sent := qu_sent ?u @ [(i, pq_observation r, w, a)]\<rparr>"
  have "each_reading P (put_back i r w s)" by (rule put_back_kept [OF assms entry(1,2)])
  then have "each_reading P (?t\<lparr>qu_batch := (i, r) # rest, qu_left := left\<rparr>)"
    using assms b x entry(3) by (simp add: upsert_outcome_def each_reading_def put_back_def Let_def)
  then have "each_reading P (writer_resume quota_deps (quota_loop left ((i, r) # rest) ?t))" by (intro resume_kept loop_kept)
  then show ?thesis using b l x by (simp add: quota_answers_def Let_def)
qed (use assms in \<open>simp_all add: quota_answers_def split: list.splits prod.splits\<close>)

lemma step_reading:
  assumes "each_reading P s" "\<And>i ws obs. ev = RecordQuota i ws obs \<Longrightarrow> P i \<lparr>pq_windows = ws, pq_observation = obs\<rparr>"
  shows "each_reading P (quota_step ev s)"
  using assms(1)
  by (cases ev) (simp_all add: record_kept assms(2) flush_reading answers_kept start_kept stop_kept deadline_kept)

end

text \<open>The updates answered later are appended to those answered before.\<close>

lemma put_back_keeps [simp]:
  "qu_sent (put_back i r w s) = qu_sent s" "qu_lifecycle (put_back i r w s) = qu_lifecycle s" "qu_warnings (put_back i r w s) = qu_warnings s"
  "qu_unsettled (put_back i r w s) = qu_unsettled s" "qu_batch (put_back i r w s) = qu_batch s" "qu_left (put_back i r w s) = qu_left s"
  by (simp_all add: put_back_def)

lemma quota_loop_keeps [simp]:
  "qu_sent (quota_loop left b s) = qu_sent s" "qu_lifecycle (quota_loop left b s) = qu_lifecycle s"
  "qu_warnings (quota_loop left b s) = qu_warnings s"
  by (induction left b s rule: quota_loop.induct) simp_all

lemma quota_flush_keeps [simp]:
  "qu_sent (quota_flush s) = qu_sent s" "qu_lifecycle (quota_flush s) = qu_lifecycle s" "qu_warnings (quota_flush s) = qu_warnings s"
  by (simp_all add: quota_flush_def quota_drain_def)

interpretation quota_log: lifecycle_kept quota_deps "\<lambda>s. qu_sent s = log_before" for log_before
  by unfold_locales simp_all

lemma upsert_outcome_keeps [simp]:
  "qu_sent (upsert_outcome i r w a s) = qu_sent s" "qu_lifecycle (upsert_outcome i r w a s) = qu_lifecycle s"
  "qu_warnings (upsert_outcome i r w a s) = qu_warnings s" "qu_unsettled (upsert_outcome i r w a s) = qu_unsettled s"
  by (simp_all add: upsert_outcome_def Let_def)

definition answered :: "quota_event \<Rightarrow> quota_writer \<Rightarrow> (account_id \<times> health_observation option \<times> quota_window \<times> upsert_answer) list" where
  "answered ev s =
     (case ev of
        QuotaAnswers a \<Rightarrow> (case (qu_batch s, qu_left s) of ((i, r) # rest, w # left) \<Rightarrow> [(i, pq_observation r, w, a)] | _ \<Rightarrow> [])
      | _ \<Rightarrow> [])"

lemma quota_sent_step: "qu_sent (quota_step ev s) = qu_sent s @ answered ev s"
proof (cases ev)
  case (QuotaAnswers a)
  then show ?thesis
    by (auto simp: quota_answers_def answered_def Let_def split: list.splits prod.splits intro!: quota_log.resume_kept)
qed (simp_all add: answered_def quota_record_def quota_log.start_kept quota_log.stop_kept quota_log.deadline_kept)

section \<open>Evidence keeps its label\<close>

text \<open>The windows of a reading are merges of windows recorded for its account under its intent.\<close>

definition labelled :: "(account_id \<Rightarrow> intent \<Rightarrow> quota_window set) \<Rightarrow> account_id \<Rightarrow> pending_quota \<Rightarrow> bool" where
  "labelled R i r \<longleftrightarrow> set (pq_windows r) \<subseteq> merges (R i (intent_of (pq_observation r)))"

interpretation labels: reading_kept "labelled R" for R
proof
  fix i h r
  assume hr: "labelled R i h" "labelled R i r"
  show "labelled R i (mergePendingQuota (Some h) r)"
    by (cases "Some h" r rule: merge_pending_cases) (use hr values_merge in \<open>auto simp: labelled_def\<close>)
next
  fix i r ws
  assume "labelled R i r" "set ws \<subseteq> set (pq_windows r)"
  then show "labelled R i (r\<lparr>pq_windows := ws\<rparr>)" by (auto simp: labelled_def)
qed

definition all_labelled :: "(account_id \<Rightarrow> intent \<Rightarrow> quota_window set) \<Rightarrow> quota_writer \<Rightarrow> bool" where
  "all_labelled R s \<longleftrightarrow>
     each_reading (labelled R) s \<and> set (qu_sent s) \<subseteq> {(i, obs, w, a). w \<in> merges (R i (intent_of obs))}"

definition records_within :: "(account_id \<Rightarrow> intent \<Rightarrow> quota_window set) \<Rightarrow> quota_event \<Rightarrow> bool" where
  "records_within R ev = (case ev of RecordQuota i ws obs \<Rightarrow> set ws \<subseteq> R i (intent_of obs) | _ \<Rightarrow> True)"

lemma all_labelled_step:
  assumes "records_within R ev" "all_labelled R s"
  shows "all_labelled R (quota_step ev s)"
proof -
  have "each_reading (labelled R) (quota_step ev s)"
    by (rule labels.step_reading) (use assms in \<open>auto simp: all_labelled_def records_within_def labelled_def intro: merges.recorded\<close>)
  moreover have "set (answered ev s) \<subseteq> {(i, obs, w, a). w \<in> merges (R i (intent_of obs))}"
    using assms(2)
    by (cases "qu_batch s"; cases "qu_left s") (auto simp: answered_def all_labelled_def each_reading_def labelled_def split: quota_event.splits)
  ultimately show ?thesis using assms(2) by (simp add: all_labelled_def quota_sent_step)
qed

interpretation labelling: kept_machine quota_step "records_within R" "all_labelled R" for R
  by unfold_locales (rule all_labelled_step)

definition recorded_under :: "quota_event list \<Rightarrow> account_id \<Rightarrow> intent \<Rightarrow> quota_window set" where
  "recorded_under evs i g = {w. \<exists>ws obs. RecordQuota i ws obs \<in> set evs \<and> intent_of obs = g \<and> w \<in> set ws}"

text \<open>
  (C31) Quota evidence is never re-labelled. However readings of an account arrive, are superseded, fail
  to be written and are merged back: every window the repository is asked to store is a merge of
  windows recorded for that very account under the very intent (observation generation and durable
  facts) it is sent with.
\<close>

theorem quota_never_relabelled:
  "set (qu_sent (quota_run evs)) \<subseteq> {(i, obs, w, a). w \<in> merges (recorded_under evs i (intent_of obs))}"
proof -
  have "all_labelled (recorded_under evs) (quota_run evs)"
    unfolding quota_run_def
    by (rule labelling.run_kept)
      (auto simp: list_all_iff records_within_def recorded_under_def all_labelled_def each_reading_def createQuotaWindowWriter_def
        split: quota_event.splits)
  then show ?thesis by (simp add: all_labelled_def)
qed

section \<open>No reading is lost\<close>

text \<open>As long as the intent of an account stays the same, the writer keeps every kind of window it took in.\<close>

definition same_intent :: "account_id \<Rightarrow> intent \<Rightarrow> account_id \<Rightarrow> pending_quota \<Rightarrow> bool" where
  "same_intent i g j r \<longleftrightarrow> (j = i \<longrightarrow> intent_of (pq_observation r) = g)"

interpretation one_intent: reading_kept "same_intent i g" for i g
proof
  fix j h r
  assume hr: "same_intent i g j h" "same_intent i g j r"
  show "same_intent i g j (mergePendingQuota (Some h) r)"
    by (cases "Some h" r rule: merge_pending_cases) (use hr in \<open>auto simp: same_intent_def\<close>)
qed (simp add: same_intent_def)

definition pending_kinds :: "account_id \<Rightarrow> quota_writer \<Rightarrow> quota_window_kind set" where
  "pending_kinds i s = (case map_get (qu_pending s) i of Some r \<Rightarrow> kinds (pq_windows r) | None \<Rightarrow> {})"

fun batch_kinds :: "account_id \<Rightarrow> quota_window list \<Rightarrow> (account_id \<times> pending_quota) list \<Rightarrow> quota_window_kind set" where
  "batch_kinds i left [] = {}"
| "batch_kinds i left ((j, r) # rest) = (if j = i then kinds left else {}) \<union> batch_kinds i (first_windows rest) rest"

definition held_kinds :: "account_id \<Rightarrow> quota_writer \<Rightarrow> quota_window_kind set" where
  "held_kinds i s = pending_kinds i s \<union> batch_kinds i (qu_left s) (qu_batch s)"

lemma merge_kinds:
  assumes "intent_of (pq_observation h) = intent_of (pq_observation r)"
  shows "kinds (pq_windows (mergePendingQuota (Some h) r)) = kinds (pq_windows h) \<union> kinds (pq_windows r)"
  by (cases "Some h" r rule: merge_pending_cases) (use assms in \<open>auto simp: kinds_merge\<close>)

lemma pending_kinds_cong [simp]:
  "pending_kinds i (s\<lparr>qu_batch := b\<rparr>) = pending_kinds i s" "pending_kinds i (s\<lparr>qu_left := l\<rparr>) = pending_kinds i s"
  "pending_kinds i (s\<lparr>qu_unsettled := n\<rparr>) = pending_kinds i s" "pending_kinds i (s\<lparr>qu_sent := x\<rparr>) = pending_kinds i s"
  "pending_kinds i (s\<lparr>qu_writeFailures := n\<rparr>) = pending_kinds i s" "pending_kinds i (s\<lparr>qu_written := n\<rparr>) = pending_kinds i s"
  by (simp_all add: pending_kinds_def)

lemma put_back_kinds:
  assumes "each_reading (same_intent i g) s" "same_intent i g j r"
  shows "pending_kinds i (put_back j r w s) = (if j = i then {qw_window w} else {}) \<union> pending_kinds i s"
proof (cases "j = i")
  case True
  define p where "p = (case map_get (qu_pending s) i of Some p \<Rightarrow> p | None \<Rightarrow> r\<lparr>pq_windows := []\<rparr>)"
  have "intent_of (pq_observation p) = g" "kinds (pq_windows p) = pending_kinds i s"
    using assms True one_intent.pending_reading [OF assms(1), of i]
    by (auto simp: p_def same_intent_def pending_kinds_def split: option.splits)
  then show ?thesis using True merge_kinds [of "r\<lparr>pq_windows := [w]\<rparr>" p] assms(2)
    by (simp add: pending_kinds_def put_back_def p_def same_intent_def)
qed (simp add: pending_kinds_def put_back_def)

lemma loop_kinds:
  assumes "each_reading (same_intent i g) (s\<lparr>qu_batch := b, qu_left := left\<rparr>)"
  shows "held_kinds i (quota_loop left b s) = pending_kinds i s \<union> batch_kinds i left b"
  using assms
proof (induction left b s rule: quota_loop.induct)
  case (2 j r rest s)
  then show ?case by (simp add: each_reading_def)
next
  case (3 w left j r rest s)
  let ?s = "s\<lparr>qu_batch := (j, r) # rest, qu_left := w # left\<rparr>"
  have entry: "same_intent i g j r" "w \<in> set (pq_windows r)" using 3(2) by (simp_all add: each_reading_def)
  have "each_reading (same_intent i g) ((put_back j r w s)\<lparr>qu_batch := (j, r) # rest, qu_left := left\<rparr>)"
    using one_intent.put_back_kept [OF 3(2) entry] 3(2) by (simp add: each_reading_def put_back_def)
  moreover have "pending_kinds i (put_back j r w s) = (if j = i then {qw_window w} else {}) \<union> pending_kinds i s"
    using put_back_kinds [OF 3(2) entry(1), of w] by (simp add: pending_kinds_def put_back_def)
  ultimately show ?case using 3(1) by (auto simp: held_kinds_def)
qed (simp add: held_kinds_def)

lemma batch_kinds_split:
  assumes "(j, r) \<in> set b" "j = i" "distinct (map fst b)"
  shows "kinds (pq_windows r) \<subseteq> batch_kinds i (first_windows b) b"
  using assms by (induction b) (auto split: if_splits)

lemma flush_kinds:
  assumes "each_reading (same_intent i g) s"
  shows "held_kinds i s \<subseteq> held_kinds i (quota_flush s)"
proof (cases "qu_batch s = [] \<and> map_size (qu_pending s) \<noteq> 0")
  case True
  let ?t = "s\<lparr>qu_pending := [], qu_unsettled := map_size (qu_pending s)\<rparr>"
  have "each_reading (same_intent i g) (?t\<lparr>qu_batch := qu_pending s, qu_left := first_windows (qu_pending s)\<rparr>)"
    using assms True by (simp add: each_reading_def)
  from loop_kinds [OF this]
  have "held_kinds i (quota_flush s) = batch_kinds i (first_windows (qu_pending s)) (qu_pending s)"
    using True by (simp add: quota_flush_def quota_drain_def pending_kinds_def)
  moreover have "pending_kinds i s \<subseteq> batch_kinds i (first_windows (qu_pending s)) (qu_pending s)"
  proof (cases "map_get (qu_pending s) i")
    case (Some r)
    have ok: "map_ok (qu_pending s)" using assms by (simp add: each_reading_def)
    then have "(i, r) \<in> set (qu_pending s)" using Some map_get_in [OF ok, of i r] by simp
    then show ?thesis using batch_kinds_split [OF _ refl] ok Some by (simp add: pending_kinds_def map_ok_def)
  qed (simp add: pending_kinds_def)
  ultimately show ?thesis using True by (simp add: held_kinds_def)
qed (auto simp: quota_flush_def quota_drain_def)

interpretation kinds_kept: lifecycle_kept quota_deps "\<lambda>s. each_reading (same_intent i g) s \<and> ks \<subseteq> held_kinds i s" for i g ks
proof
  fix s l n
  assume s: "each_reading (same_intent i g) s \<and> ks \<subseteq> held_kinds i s"
  show "each_reading (same_intent i g) (wd_put quota_deps l s) \<and> ks \<subseteq> held_kinds i (wd_put quota_deps l s)"
    "each_reading (same_intent i g) (wd_warn quota_deps n s) \<and> ks \<subseteq> held_kinds i (wd_warn quota_deps n s)"
    using s by (simp_all add: each_reading_def held_kinds_def pending_kinds_def)
  show "each_reading (same_intent i g) (wd_flush quota_deps s) \<and> ks \<subseteq> held_kinds i (wd_flush quota_deps s)"
    using s one_intent.flush_reading [of i g s] flush_kinds [of i g s] by auto
qed

lemma record_kinds:
  assumes "each_reading (same_intent i g) s" "j = i \<Longrightarrow> intent_of obs = g"
  shows "held_kinds i (quota_record j ws obs s) =
    held_kinds i s \<union> (if j = i \<and> wl_accepting (qu_lifecycle s) then kinds ws else {})"
proof (cases "j = i \<and> wl_accepting (qu_lifecycle s) \<and> ws \<noteq> []")
  case True
  have "pending_kinds i (quota_record i ws obs s) = pending_kinds i s \<union> kinds ws"
  proof (cases "map_get (qu_pending s) i")
    case (Some h)
    have "intent_of (pq_observation h) = g" using one_intent.pending_reading [OF assms(1) Some] by (simp add: same_intent_def)
    then show ?thesis using Some True assms(2) merge_kinds [of h "\<lparr>pq_windows = ws, pq_observation = obs\<rparr>"]
      by (simp add: pending_kinds_def quota_record_def)
  qed (use True in \<open>simp add: pending_kinds_def quota_record_def mergePendingQuota_def\<close>)
  then show ?thesis using True by (auto simp: held_kinds_def quota_record_def)
qed (auto simp: held_kinds_def quota_record_def pending_kinds_def)

lemma answers_kinds:
  assumes "each_reading (same_intent i g) s" "k \<in> held_kinds i s"
  shows "k \<in> held_kinds i (quota_answers a s) \<or>
    (\<exists>obs w. answered (QuotaAnswers a) s = [(i, obs, w, a)] \<and> a \<noteq> UpsertFailed \<and> qw_window w = k)"
proof (cases "qu_batch s"; cases "qu_left s")
  fix x rest w left
  assume b: "qu_batch s = x # rest" and l: "qu_left s = w # left"
  obtain j r where x: "x = (j, r)" by fastforce
  have entry: "same_intent i g j r" "w \<in> set (pq_windows r)" "set left \<subseteq> set (pq_windows r)"
    using assms(1) b l x by (simp_all add: each_reading_def)
  let ?u = "upsert_outcome j r w a s"
  let ?t = "?u\<lparr>qu_sent := qu_sent ?u @ [(j, pq_observation r, w, a)]\<rparr>"
  have again: "each_reading (same_intent i g) (put_back j r w s)" by (rule one_intent.put_back_kept [OF assms(1) entry(1,2)])
  then have ok: "each_reading (same_intent i g) (?t\<lparr>qu_batch := (j, r) # rest, qu_left := left\<rparr>)"
    using assms(1) b x entry(3) by (simp add: upsert_outcome_def each_reading_def put_back_def Let_def)
  have "pending_kinds i ?t = (if j = i \<and> a = UpsertFailed then {qw_window w} else {}) \<union> pending_kinds i s"
    by (cases a) (simp_all add: upsert_outcome_def put_back_kinds [OF assms(1) entry(1)] Let_def)
  then have "k \<in> held_kinds i (quota_loop left ((j, r) # rest) ?t) \<or> j = i \<and> a \<noteq> UpsertFailed \<and> k = qw_window w"
    unfolding loop_kinds [OF ok] using assms(2) b l x by (auto simp: held_kinds_def split: if_splits)
  moreover have "k \<in> held_kinds i (writer_resume quota_deps (quota_loop left ((j, r) # rest) ?t))"
    if "k \<in> held_kinds i (quota_loop left ((j, r) # rest) ?t)"
    using kinds_kept.resume_kept [of i g _ "{k}"] one_intent.loop_kept [OF ok] that by simp
  ultimately show ?thesis using b l x by (auto simp: quota_answers_def answered_def Let_def)
qed (use assms in \<open>simp_all add: quota_answers_def split: list.splits prod.splits\<close>)

definition records_intent :: "account_id \<Rightarrow> intent \<Rightarrow> quota_event \<Rightarrow> bool" where
  "records_intent i g ev = (case ev of RecordQuota j ws obs \<Rightarrow> j \<noteq> i \<or> intent_of obs = g | _ \<Rightarrow> True)"

lemma step_intent:
  assumes "each_reading (same_intent i g) s" "records_intent i g ev"
  shows "each_reading (same_intent i g) (quota_step ev s)"
  by (rule one_intent.step_reading [OF assms(1)]) (use assms(2) in \<open>auto simp: records_intent_def same_intent_def\<close>)

lemma step_kinds:
  assumes "each_reading (same_intent i g) s" "k \<in> held_kinds i s" "records_intent i g ev"
  shows "k \<in> held_kinds i (quota_step ev s) \<or>
    (\<exists>obs w a. answered ev s = [(i, obs, w, a)] \<and> a \<noteq> UpsertFailed \<and> qw_window w = k)"
proof (cases ev)
  case (RecordQuota j ws obs)
  then show ?thesis using record_kinds [OF assms(1), of j obs ws] assms(2,3) by (auto simp: records_intent_def)
next
  case (QuotaAnswers a)
  then show ?thesis using answers_kinds [OF assms(1,2), of a] by auto
qed (use assms(1,2) flush_kinds [OF assms(1)] kinds_kept.start_kept [of i g s "{k}"] kinds_kept.stop_kept [of i g s "{k}"]
    kinds_kept.deadline_kept [of i g s "{k}"] in auto)

definition stored :: "account_id \<Rightarrow> quota_window_kind \<Rightarrow> (account_id \<times> health_observation option \<times> quota_window \<times> upsert_answer) list \<Rightarrow> bool" where
  "stored i k sent \<longleftrightarrow> list_ex (\<lambda>(j, obs, w, a). j = i \<and> a \<noteq> UpsertFailed \<and> qw_window w = k) sent"

lemma quota_sent_grows: "length (qu_sent s) \<le> length (qu_sent (fold quota_step evs s))"
  by (induction evs rule: rev_induct) (simp_all add: quota_sent_step)

lemma kind_until_stored:
  assumes "each_reading (same_intent i g) s" "k \<in> held_kinds i s" "list_all (records_intent i g) evs"
  shows "each_reading (same_intent i g) (fold quota_step evs s) \<and>
    (k \<in> held_kinds i (fold quota_step evs s) \<or> stored i k (drop (length (qu_sent s)) (qu_sent (fold quota_step evs s))))"
  using assms(3)
proof (induction evs rule: rev_induct)
  case (snoc ev evs)
  let ?t = "fold quota_step evs s"
  have t: "each_reading (same_intent i g) ?t" "records_intent i g ev" using snoc by simp_all
  have "stored i k (drop (length (qu_sent s)) (qu_sent ?t)) \<Longrightarrow> stored i k (drop (length (qu_sent s)) (qu_sent (quota_step ev ?t)))"
    by (simp add: quota_sent_step stored_def)
  moreover have "k \<in> held_kinds i ?t \<Longrightarrow> k \<in> held_kinds i (quota_step ev ?t) \<or>
      stored i k (drop (length (qu_sent s)) (qu_sent (quota_step ev ?t)))"
    using step_kinds [OF t(1) _ t(2), of k] quota_sent_grows [of s evs] by (auto simp: quota_sent_step stored_def)
  ultimately show ?case using snoc step_intent [OF t] by auto
qed (use assms in simp)

text \<open>
  (C30) No quota evidence is lost. While the readings of an account carry one intent, every kind of
  window the writer took in is at any later point still held, pending or in the running flush, or an
  update of that kind has since been answered by the repository; failed writes, flushes that overlap
  new readings, and a shutdown whose deadline passes included.
\<close>

theorem quota_evidence_never_lost:
  assumes "wl_accepting (qu_lifecycle (quota_run evs))" and "w \<in> set ws"
    and "list_all (records_intent i (intent_of obs)) (evs @ later)"
  shows "qw_window w \<in> held_kinds i (quota_run (evs @ RecordQuota i ws obs # later)) \<or>
    stored i (qw_window w) (drop (length (qu_sent (quota_run evs))) (qu_sent (quota_run (evs @ RecordQuota i ws obs # later))))"
proof -
  let ?g = "intent_of obs"
  let ?s = "quota_run evs"
  have new: "each_reading (same_intent i ?g) createQuotaWindowWriter" by (simp add: each_reading_def createQuotaWindowWriter_def)
  have ok: "each_reading (same_intent i ?g) (fold quota_step evs s)" if "each_reading (same_intent i ?g) s" "list_all (records_intent i ?g) evs"
    for s evs using that by (induction evs arbitrary: s) (simp_all add: step_intent)
  have s: "each_reading (same_intent i ?g) ?s" unfolding quota_run_def using ok [OF new, of evs] assms(3) by simp
  have mine: "records_intent i ?g (RecordQuota i ws obs)" by (simp add: records_intent_def)
  have "qw_window w \<in> held_kinds i (quota_record i ws obs ?s)"
    using record_kinds [OF s, of i obs ws] assms(1,2) by (auto simp: kinds_def)
  moreover have "qu_sent (quota_record i ws obs ?s) = qu_sent ?s" by (simp add: quota_record_def)
  ultimately show ?thesis
    using kind_until_stored [of i ?g "quota_record i ws obs ?s" "qw_window w" later] step_intent [OF s mine] assms(3)
    by (simp add: quota_run_def)
qed

definition sample_window :: quota_window where
  "sample_window =
     \<lparr>qw_window = FiveHour, qw_utilization = Some (1 / 2), qw_utilizationSource = Continuous, qw_resetsAt = None,
      qw_resetSource = UnknownReset, qw_lastCheckedAt = 10, qw_advisory = None, qw_revision = None, qw_evidenceState = None,
      qw_blocksRouting = None, qw_retiredAt = None\<rparr>"

theorem quota_evidence_never_lost_witness:
  "let later = [FlushQuota, RecordQuota ''a'' [sample_window\<lparr>qw_window := SevenDay\<rparr>] None, QuotaAnswers UpsertFailed];
       s = quota_run (RecordQuota ''a'' [sample_window] None # later)
   in FiveHour \<in> held_kinds ''a'' s \<and> qu_batch s = [] \<and> map_size (qu_pending s) = 1"
proof -
  let ?later = "[FlushQuota, RecordQuota ''a'' [sample_window\<lparr>qw_window := SevenDay\<rparr>] None, QuotaAnswers UpsertFailed]"
  let ?s = "quota_run ([] @ RecordQuota ''a'' [sample_window] None # ?later)"
  have "qw_window sample_window \<in> held_kinds ''a'' ?s \<or>
      stored ''a'' (qw_window sample_window) (drop (length (qu_sent (quota_run []))) (qu_sent ?s))"
    by (rule quota_evidence_never_lost)
      (simp_all add: quota_run_def createQuotaWindowWriter_def createWriterLifecycle_def records_intent_def intent_of_def)
  moreover have "\<not> stored ''a'' (qw_window sample_window) (drop (length (qu_sent (quota_run []))) (qu_sent ?s))" by code_simp
  moreover have "qu_batch ?s = []" "map_size (qu_pending ?s) = 1" by code_simp+
  moreover have "qw_window sample_window = FiveHour" by (simp add: sample_window_def)
  ultimately show ?thesis unfolding Let_def by simp
qed

end
