(* ===== verification/Exhausted_Retest.thy ===== *)
theory Exhausted_Retest
  imports Recovery_Gate
begin

text \<open>
  The \<open>exhausted\<close> half of the recheck task, \<open>scheduler/tasks/exhausted-retest.ts\<close>: one watch per
  account, stepped by \<open>stepExhaustedWatch\<close> at every tick, and a re-check asked for when one is due.
  What the tick meets is part of its input: the accounts of the catalog, and at each account's turn
  whether the abort signal is set, whether the account reads \<open>exhausted\<close>, and how a re-check would
  end (done, refused, or an exception).
\<close>

section \<open>One tick of the task\<close>

datatype recheck_outcome = Rechecked | RecheckRefused | RecheckThrew

record retest_look =
  rl_account :: account_id
  rl_aborted :: bool
  rl_exhausted :: bool
  rl_recheck :: recheck_outcome

type_synonym retest_tick = "instant \<times> retest_look list"

record retest_ask =
  ra_account :: account_id
  ra_at :: instant
  ra_outcome :: recheck_outcome

text \<open>The task's map of watches, and every re-check it has asked for, in order.\<close>

record retest_state =
  rt_watches :: "(account_id, exhausted_watch) js_map"
  rt_asks :: "retest_ask list"

definition EMPTY_RETEST :: retest_state where
  "EMPTY_RETEST = \<lparr>rt_watches = [], rt_asks = []\<rparr>"

definition pruneWatches :: "retest_look list \<Rightarrow> retest_state \<Rightarrow> retest_state" where
  "pruneWatches known st =
     st\<lparr>rt_watches := filter (\<lambda>e. list_ex (\<lambda>l. rl_account l = fst e) known) (rt_watches st)\<rparr>"

definition retestAccount :: "retest_schedule \<Rightarrow> instant \<Rightarrow> retest_look \<Rightarrow> retest_state \<Rightarrow> retest_state" where
  "retestAccount schedule nowMs look st =
     (let a = rl_account look;
          prior = map_get (rt_watches st) a;
          step = stepExhaustedWatch prior (rl_exhausted look) nowMs schedule;
          watches = (case st_watch step of
                       None \<Rightarrow> map_delete a (rt_watches st)
                     | Some w \<Rightarrow> map_set a w (rt_watches st));
          asks = rt_asks st @ [\<lparr>ra_account = a, ra_at = nowMs, ra_outcome = rl_recheck look\<rparr>]
      in if \<not> st_retest step \<or> st_watch step = None then st\<lparr>rt_watches := watches\<rparr>
         else case rl_recheck look of
                RecheckRefused \<Rightarrow>
                  \<lparr>rt_watches = (case prior of None \<Rightarrow> watches | Some p \<Rightarrow> map_set a p watches), rt_asks = asks\<rparr>
              | _ \<Rightarrow> \<lparr>rt_watches = watches, rt_asks = asks\<rparr>)"

fun retestAccounts :: "retest_schedule \<Rightarrow> instant \<Rightarrow> retest_look list \<Rightarrow> retest_state \<Rightarrow> retest_state" where
  "retestAccounts schedule nowMs [] st = st"
| "retestAccounts schedule nowMs (look # looks) st =
     (if rl_aborted look then st
      else retestAccounts schedule nowMs looks (retestAccount schedule nowMs look st))"

definition retestExhausted :: "retest_schedule \<Rightarrow> retest_tick \<Rightarrow> retest_state \<Rightarrow> retest_state" where
  "retestExhausted schedule tick st = retestAccounts schedule (fst tick) (snd tick) (pruneWatches (snd tick) st)"

text \<open>What the tick answers: how many accounts it re-tested.\<close>

definition retested :: "retest_schedule \<Rightarrow> retest_tick \<Rightarrow> retest_state \<Rightarrow> nat" where
  "retested schedule tick st =
     length (filter (\<lambda>k. ra_outcome k = Rechecked)
       (drop (length (rt_asks st)) (rt_asks (retestExhausted schedule tick st))))"

section \<open>The clock of one account\<close>

text \<open>
  The abstract machine of one account: its watch and the re-checks asked for it. A tick matters to it
  through what it meets there: the account is gone from the catalog, the tick is broken off before
  its turn, or the account is looked at.
\<close>

datatype met = Gone | Skipped | Looked bool recheck_outcome

fun turn :: "account_id \<Rightarrow> retest_look list \<Rightarrow> met" where
  "turn a [] = Skipped"
| "turn a (l # ls) =
     (if rl_aborted l then Skipped
      else if rl_account l = a then Looked (rl_exhausted l) (rl_recheck l)
      else turn a ls)"

definition meets :: "account_id \<Rightarrow> retest_look list \<Rightarrow> met" where
  "meets a looks = (if a \<in> rl_account ` set looks then turn a looks else Gone)"

type_synonym account_clock = "exhausted_watch option \<times> (instant \<times> recheck_outcome) list"

definition clock_look :: "retest_schedule \<Rightarrow> instant \<Rightarrow> bool \<Rightarrow> recheck_outcome \<Rightarrow> account_clock \<Rightarrow> account_clock" where
  "clock_look s n exhausted r c =
     (let step = stepExhaustedWatch (fst c) exhausted n s
      in if st_retest step
         then (if r = RecheckRefused then fst c else st_watch step, snd c @ [(n, r)])
         else (st_watch step, snd c))"

fun clock_tick :: "retest_schedule \<Rightarrow> instant \<times> met \<Rightarrow> account_clock \<Rightarrow> account_clock" where
  "clock_tick s (n, Gone) c = (None, snd c)"
| "clock_tick s (n, Skipped) c = c"
| "clock_tick s (n, Looked e r) c = clock_look s n e r c"

definition asks_of :: "account_id \<Rightarrow> retest_state \<Rightarrow> (instant \<times> recheck_outcome) list" where
  "asks_of a st = map (\<lambda>k. (ra_at k, ra_outcome k)) (filter (\<lambda>k. ra_account k = a) (rt_asks st))"

definition clock_of :: "account_id \<Rightarrow> retest_state \<Rightarrow> account_clock" where
  "clock_of a st = (map_get (rt_watches st) a, asks_of a st)"

lemma stepExhaustedWatch_retest:
  "st_retest (stepExhaustedWatch w e n s) \<Longrightarrow> w \<noteq> None \<and> st_watch (stepExhaustedWatch w e n s) \<noteq> None"
  by (auto simp: stepExhaustedWatch_def Let_def split: option.splits if_splits)

lemma clock_of_retestAccount:
  "clock_of a (retestAccount s n l st) =
     (if rl_account l = a then clock_look s n (rl_exhausted l) (rl_recheck l) (clock_of a st) else clock_of a st)"
  using stepExhaustedWatch_retest [of "map_get (rt_watches st) (rl_account l)" "rl_exhausted l" n s]
  by (auto simp: clock_of_def asks_of_def retestAccount_def clock_look_def Let_def
      split: option.splits recheck_outcome.splits)

lemma turn_absent: "a \<notin> rl_account ` set xs \<Longrightarrow> turn a xs = Skipped"
  by (induction xs) auto

lemma clock_of_retestAccounts:
  assumes "distinct (map rl_account ls)"
  shows "clock_of a (retestAccounts s n ls st) = clock_tick s (n, turn a ls) (clock_of a st)"
  using assms
proof (induction ls arbitrary: st)
  case (Cons l ls)
  have "turn a ls = Skipped" if "rl_account l = a" using Cons.prems that by (intro turn_absent) auto
  then show ?case using Cons by (auto simp: clock_of_retestAccount)
qed simp

lemma clock_of_pruneWatches:
  "clock_of a (pruneWatches ls st) = (if a \<in> rl_account ` set ls then clock_of a st else (None, snd (clock_of a st)))"
proof -
  have "map_get (filter (\<lambda>e. P (fst e)) m) k = (if P k then map_get m k else None)"
    for P :: "account_id \<Rightarrow> bool" and m :: "(account_id, exhausted_watch) js_map" and k
    by (induction m) (auto simp: map_get_def)
  from this [of "\<lambda>i. list_ex (\<lambda>l. rl_account l = i) ls"] show ?thesis
    by (auto simp: clock_of_def pruneWatches_def asks_of_def list_ex_iff)
qed

text \<open>The task refines the clock of each account.\<close>

lemma clock_of_retestExhausted:
  assumes "distinct (map rl_account (snd tick))"
  shows "clock_of a (retestExhausted s tick st) = clock_tick s (fst tick, meets a (snd tick)) (clock_of a st)"
  using assms
  by (simp add: retestExhausted_def clock_of_retestAccounts clock_of_pruneWatches meets_def turn_absent)

abbreviation distinct_accounts :: "retest_tick \<Rightarrow> bool" where
  "distinct_accounts tick \<equiv> distinct (map rl_account (snd tick))"

abbreviation retest_run :: "retest_schedule \<Rightarrow> retest_tick list \<Rightarrow> retest_state" where
  "retest_run s ticks \<equiv> fold (retestExhausted s) ticks EMPTY_RETEST"

lemma clock_of_run:
  assumes "list_all distinct_accounts ticks"
  shows "clock_of a (fold (retestExhausted s) ticks st) =
    fold (clock_tick s) (map (\<lambda>t. (fst t, meets a (snd t))) ticks) (clock_of a st)"
  using assms by (induction ticks arbitrary: st) (simp_all add: clock_of_retestExhausted)

lemma clock_of_EMPTY [simp]: "clock_of a EMPTY_RETEST = (None, [])"
  by (simp add: clock_of_def asks_of_def EMPTY_RETEST_def)

section \<open>The waits\<close>

abbreviation retest_gap :: "retest_schedule \<Rightarrow> int" where
  "retest_gap s \<equiv> min (es_firstMs s) (es_maxMs s)"

lemma retestWait_ge_gap: "0 \<le> es_firstMs s \<Longrightarrow> retest_gap s \<le> retestWait n s"
proof -
  assume a: "0 \<le> es_firstMs s"
  have "es_firstMs s * 1 \<le> es_firstMs s * 2 ^ n" using a by (intro mult_left_mono) auto
  then show ?thesis by (simp add: retestWait_def min.coboundedI1)
qed

lemma retestWait_le_max: "retestWait n s \<le> es_maxMs s"
  by (simp add: retestWait_def)

text \<open>The re-checks that were not refused: they ran, or threw.\<close>

definition ran :: "(instant \<times> recheck_outcome) list \<Rightarrow> instant list" where
  "ran asks = map fst (filter (\<lambda>k. snd k \<noteq> RecheckRefused) asks)"

lemma ran_simps [simp]:
  "ran [] = []" "ran (xs @ ys) = ran xs @ ran ys" "ran [k] = (if snd k = RecheckRefused then [] else [fst k])"
  by (simp_all add: ran_def)

text \<open>What holds after every tick, \<open>t\<close> the clock of the last one.\<close>

definition clock_inv :: "retest_schedule \<Rightarrow> instant \<Rightarrow> account_clock \<Rightarrow> bool" where
  "clock_inv s t c \<longleftrightarrow>
     sorted_wrt (\<lambda>a b. a + retest_gap s \<le> b) (ran (snd c)) \<and> (\<forall>r \<in> set (ran (snd c)). r \<le> t) \<and>
     (case fst c of
        None \<Rightarrow> True
      | Some w \<Rightarrow> (\<forall>r \<in> set (ran (snd c)). r + retest_gap s \<le> ew_dueAt w) \<and> ew_dueAt w \<le> t + es_maxMs s)"

lemma clock_inv_later: "clock_inv s t c \<Longrightarrow> t \<le> n \<Longrightarrow> clock_inv s n c"
  by (fastforce simp: clock_inv_def split: option.splits)

text \<open>A watch set anew at the clock \<open>n\<close> leaves every earlier re-check its distance.\<close>

lemma clock_inv_rearmed:
  assumes "clock_inv s n (w0, asks)" and "0 \<le> es_firstMs s" and "ew_dueAt w = n + retestWait k s"
  shows "clock_inv s n (Some w, asks)"
proof -
  have "r + retest_gap s \<le> ew_dueAt w" if "r \<in> set (ran asks)" for r
  proof -
    have "r \<le> n" using that assms(1) by (simp add: clock_inv_def)
    then show ?thesis using retestWait_ge_gap [OF assms(2), of k] assms(3) by linarith
  qed
  then show ?thesis using assms(1,3) retestWait_le_max [of k s] by (simp add: clock_inv_def)
qed

lemma clock_inv_ran:
  assumes "clock_inv s n (Some w, asks)" and "ew_dueAt w \<le> n" and "0 \<le> es_firstMs s" and "0 \<le> es_maxMs s"
  shows "clock_inv s n (None, asks @ [(n, r)])"
  using assms by (fastforce simp: clock_inv_def sorted_wrt_append)

lemma clock_look_inv:
  assumes "clock_inv s n c" and "0 \<le> es_firstMs s" and "0 \<le> es_maxMs s"
  shows "clock_inv s n (clock_look s n e r c)"
proof (cases "fst c")
  case None
  then have "clock_inv s n (None, snd c)" using assms(1) by (metis prod.collapse)
  then show ?thesis using None assms(2)
    by (auto simp: clock_look_def stepExhaustedWatch_def intro: clock_inv_rearmed)
next
  case (Some w)
  then have c: "clock_inv s n (Some w, snd c)" using assms(1) by (metis prod.collapse)
  then have forget: "clock_inv s n (None, snd c)" by (simp add: clock_inv_def)
  show ?thesis
  proof (cases "e \<and> \<not> n < ew_dueAt w")
    case True
    then have now: "clock_inv s n (None, snd c @ [(n, r)])" using clock_inv_ran c assms(2,3) by simp
    have refused: "clock_inv s n (Some w, snd c @ [(n, RecheckRefused)])" using c by (simp add: clock_inv_def)
    show ?thesis using True Some refused clock_inv_rearmed [OF now assms(2)]
      by (simp add: clock_look_def stepExhaustedWatch_def Let_def)
  next
    case False
    then show ?thesis using Some c forget
      by (auto simp: clock_look_def stepExhaustedWatch_def Let_def split: option.splits)
  qed
qed

lemma clock_tick_inv:
  assumes "clock_inv s t c" and "t \<le> n" and "0 \<le> es_firstMs s" and "0 \<le> es_maxMs s"
  shows "clock_inv s n (clock_tick s (n, m) c)"
  using clock_inv_later [OF assms(1,2)] assms(3,4)
  by (cases m) (simp_all add: clock_look_inv, simp add: clock_inv_def)

lemma clock_fold_inv:
  assumes "clock_inv s t c" and "sorted (t # map fst ms)" and "0 \<le> es_firstMs s" and "0 \<le> es_maxMs s"
  shows "clock_inv s (last (t # map fst ms)) (fold (clock_tick s) ms c)"
  using assms(1,2)
proof (induction ms arbitrary: t c)
  case (Cons x xs)
  have "clock_inv s (fst x) (clock_tick s x c)"
    using Cons.prems assms(3,4) clock_tick_inv [of s t c "fst x" "snd x"] by simp
  then show ?case using Cons.IH [of "fst x" "clock_tick s x c"] Cons.prems by simp
qed simp

lemma retest_run_inv:
  assumes "sorted (map fst ticks)" and "list_all distinct_accounts ticks" and "ticks \<noteq> []"
    and "0 \<le> es_firstMs s" and "0 \<le> es_maxMs s"
  shows "clock_inv s (fst (last ticks)) (clock_of a (retest_run s ticks))"
proof -
  obtain x xs where ticks: "ticks = x # xs" using assms(3) by (cases ticks) auto
  let ?ms = "map (\<lambda>t. (fst t, meets a (snd t))) ticks"
  have "clock_inv s (fst x) (None, [])" by (simp add: clock_inv_def)
  moreover have "sorted (fst x # map fst ?ms)" using assms(1) ticks by (auto simp: comp_def)
  ultimately have "clock_inv s (last (fst x # map fst ?ms)) (fold (clock_tick s) ?ms (None, []))"
    using clock_fold_inv assms(4,5) by blast
  moreover have "last (fst x # map fst ?ms) = fst (last ticks)" using ticks by (simp add: comp_def last_map)
  ultimately show ?thesis by (simp add: clock_of_run [OF assms(2)])
qed

section \<open>A due watch is served\<close>

fun still_exhausted :: "met \<Rightarrow> bool" where
  "still_exhausted Gone = False"
| "still_exhausted Skipped = True"
| "still_exhausted (Looked e r) = e"

lemma clock_tick_asks: "set (snd c) \<subseteq> set (snd (clock_tick s x c))"
  by (cases "(s, x, c)" rule: clock_tick.cases) (auto simp: clock_look_def Let_def)

lemma clock_fold_asks: "set (snd c) \<subseteq> set (snd (fold (clock_tick s) ms c))"
proof (induction ms arbitrary: c)
  case (Cons x ms)
  then show ?case using order_trans [OF clock_tick_asks [of c s x]] by simp
qed simp

lemma clock_tick_due:
  assumes "fst c = Some w" and "still_exhausted m"
  shows "clock_tick s (n, m) c = c \<or> fst (clock_tick s (n, m) c) = Some w \<and> ew_dueAt w \<le> n \<or>
    (\<exists>r. r \<noteq> RecheckRefused \<and> (n, r) \<in> set (snd (clock_tick s (n, m) c)))"
  using assms by (cases m) (auto simp: clock_look_def stepExhaustedWatch_def Let_def prod_eq_iff)

lemma clock_fold_due:
  assumes "fst c = Some w" and "list_all (\<lambda>x. still_exhausted (snd x)) ms" and "ew_dueAt w \<le> n"
  shows "\<exists>k \<in> set (snd (fold (clock_tick s) (ms @ [(n, Looked True r)]) c)).
    fst k \<in> set (map fst ms) \<and> snd k \<noteq> RecheckRefused \<or> k = (n, r)"
  using assms(1,2)
proof (induction ms arbitrary: c)
  case Nil
  then show ?case using assms(3) by (simp add: clock_look_def stepExhaustedWatch_def Let_def)
next
  case (Cons x ms)
  let ?c = "clock_tick s x c"
  consider (ran) r' where "r' \<noteq> RecheckRefused" "(fst x, r') \<in> set (snd ?c)" | (kept) "fst ?c = Some w"
    using clock_tick_due [of c w "snd x" s "fst x"] Cons.prems by fastforce
  then show ?case
  proof cases
    case ran
    then have "(fst x, r') \<in> set (snd (fold (clock_tick s) (ms @ [(n, Looked True r)]) ?c))"
      using clock_fold_asks by blast
    then show ?thesis using ran(1) by (auto intro!: bexI [of _ "(fst x, r')"])
  next
    case kept
    then show ?thesis using Cons.IH [of ?c] Cons.prems(2) by auto
  qed
qed

lemma looked_watch: "\<exists>w. fst (clock_look s n True r c) = Some w"
  by (auto simp: clock_look_def stepExhaustedWatch_def Let_def split: option.splits)

text \<open>
  (C37) An exhausted account is never parked without an exit, and never hammered. The task's own tick
  runs any number of times over a clock that does not go backwards, each over any catalog with
  distinct accounts: the abort signal may break a tick off at any account, a re-check may be refused
  or throw, and accounts come, go and change status. Re-checks of one account that were not refused
  are always at least the shorter of the first wait and the maximum wait apart. And if a tick looks at
  the account and finds it exhausted, no tick after it finds the account gone or not exhausted (a tick
  may be broken off before its turn), and a tick at least one maximum wait later looks at it again,
  then between the two, inclusive, a re-check of it was asked for that was not refused, unless the
  last of these ticks itself asked and was refused: a refusal never postpones the next request.
\<close>

theorem exhausted_always_retested:
  assumes "ticks = pre @ tick # mid @ [tick']"
    and "sorted (map fst ticks)" and "list_all distinct_accounts ticks"
    and "0 \<le> es_firstMs s" and "0 \<le> es_maxMs s"
    and "meets a (snd tick) = Looked True r"
    and "list_all (\<lambda>x. still_exhausted (meets a (snd x))) mid"
    and "meets a (snd tick') = Looked True r'" and "fst tick + es_maxMs s \<le> fst tick'"
  shows "sorted_wrt (\<lambda>x y. x + min (es_firstMs s) (es_maxMs s) \<le> y) (ran (asks_of a (retest_run s ticks))) \<and>
    (\<exists>k \<in> set (asks_of a (retest_run s ticks)).
       fst tick \<le> fst k \<and> fst k \<le> fst tick' \<and> (snd k \<noteq> RecheckRefused \<or> k = (fst tick', RecheckRefused)))"
proof (intro conjI)
  have "clock_inv s (fst (last ticks)) (clock_of a (retest_run s ticks))"
    by (intro retest_run_inv assms(2-5)) (simp add: assms(1))
  then show "sorted_wrt (\<lambda>x y. x + min (es_firstMs s) (es_maxMs s) \<le> y) (ran (asks_of a (retest_run s ticks)))"
    by (simp add: clock_inv_def clock_of_def)
  let ?st = "retest_run s (pre @ [tick])"
  let ?view = "\<lambda>t. (fst t, meets a (snd t))"
  have here: "clock_inv s (fst tick) (clock_of a ?st)"
    using retest_run_inv [of "pre @ [tick]" s a] assms(1-5) by (simp add: sorted_append)
  have "fst (clock_of a ?st) \<noteq> None"
    using assms(1,3,6) by (simp add: clock_of_retestExhausted looked_watch)
  then obtain w where w: "fst (clock_of a ?st) = Some w" by blast
  have due: "ew_dueAt w \<le> fst tick'" using here w assms(9) by (simp add: clock_inv_def)
  have "clock_of a (retest_run s ticks) = fold (clock_tick s) (map ?view mid @ [(fst tick', Looked True r')]) (clock_of a ?st)"
    using clock_of_run [of "mid @ [tick']" a s ?st] assms(1,3,8) by simp
  then have asks: "asks_of a (retest_run s ticks) =
      snd (fold (clock_tick s) (map ?view mid @ [(fst tick', Looked True r')]) (clock_of a ?st))"
    by (metis clock_of_def snd_conv)
  have "list_all (\<lambda>x. still_exhausted (snd x)) (map ?view mid)" using assms(7) by (simp add: list_all_iff)
  then obtain k where k: "k \<in> set (asks_of a (retest_run s ticks))"
      "fst k \<in> set (map fst (map ?view mid)) \<and> snd k \<noteq> RecheckRefused \<or> k = (fst tick', r')"
    unfolding asks using clock_fold_due [OF w _ due] by blast
  moreover have "fst tick \<le> fst k \<and> fst k \<le> fst tick'"
    using k(2) assms(1,2) by (auto simp: sorted_append)
  ultimately show "\<exists>k \<in> set (asks_of a (retest_run s ticks)).
       fst tick \<le> fst k \<and> fst k \<le> fst tick' \<and> (snd k \<noteq> RecheckRefused \<or> k = (fst tick', RecheckRefused))"
    by (intro bexI [of _ k]) auto
qed

definition demo_look :: "account_id \<Rightarrow> bool \<Rightarrow> bool \<Rightarrow> recheck_outcome \<Rightarrow> retest_look" where
  "demo_look a aborted exhausted r =
     \<lparr>rl_account = a, rl_aborted = aborted, rl_exhausted = exhausted, rl_recheck = r\<rparr>"

text \<open>
  The account \<open>b\<close> is found exhausted at 5, its re-check is refused at 20, the tick at 22 is broken off
  before its turn, the re-check at 30 throws, and the one after twice the first wait runs.
\<close>

definition demo_ticks :: "retest_tick list" where
  "demo_ticks =
     [(1, [demo_look ''a'' False True Rechecked, demo_look ''b'' False False Rechecked]),
      (5, [demo_look ''a'' False True Rechecked, demo_look ''b'' False True Rechecked]),
      (20, [demo_look ''b'' False True RecheckRefused]),
      (22, [demo_look ''a'' True True Rechecked, demo_look ''b'' False True Rechecked]),
      (30, [demo_look ''a'' False True Rechecked, demo_look ''b'' False True RecheckThrew]),
      (50, [demo_look ''b'' False True Rechecked])]"

theorem exhausted_always_retested_witness:
  "let st = retest_run \<lparr>es_firstMs = 10, es_maxMs = 25\<rparr> demo_ticks
   in asks_of ''b'' st = [(20, RecheckRefused), (30, RecheckThrew), (50, Rechecked)] \<and>
      sorted_wrt (\<lambda>x y. x + min 10 25 \<le> y) (ran (asks_of ''b'' st)) \<and>
      (\<exists>k \<in> set (asks_of ''b'' st). 5 \<le> fst k \<and> fst k \<le> 50 \<and> (snd k \<noteq> RecheckRefused \<or> k = (50, RecheckRefused)))"
proof -
  let ?s = "\<lparr>es_firstMs = 10, es_maxMs = 25\<rparr> :: retest_schedule"
  have "asks_of ''b'' (retest_run ?s demo_ticks) = [(20, RecheckRefused), (30, RecheckThrew), (50, Rechecked)]"
    by code_simp
  moreover have "sorted_wrt (\<lambda>x y. x + min (es_firstMs ?s) (es_maxMs ?s) \<le> y) (ran (asks_of ''b'' (retest_run ?s demo_ticks))) \<and>
    (\<exists>k \<in> set (asks_of ''b'' (retest_run ?s demo_ticks)).
       fst (demo_ticks ! 1) \<le> fst k \<and> fst k \<le> fst (demo_ticks ! 5) \<and>
       (snd k \<noteq> RecheckRefused \<or> k = (fst (demo_ticks ! 5), RecheckRefused)))"
    by (rule exhausted_always_retested [of demo_ticks "[demo_ticks ! 0]" "demo_ticks ! 1"
          "[demo_ticks ! 2, demo_ticks ! 3, demo_ticks ! 4]" "demo_ticks ! 5" ?s "''b''" Rechecked Rechecked])
      (simp_all add: demo_ticks_def demo_look_def meets_def)
  ultimately show ?thesis by (auto simp: Let_def demo_ticks_def)
qed

end
