(* ===== verification/Spec2Isabelle.thy ===== *)
theory Spec2Isabelle
  imports Chain_Rules Snapshot Rate_Limiter Sse Usage_Recorder Key_Verifier Admin_Session Failure_Classification Credential_Envelope Snapshot_Refresh Status_Writer Quota_Writer Exhausted_Retest
begin

text \<open>
  Verification of \<open>multi-ai-router\<close>, a router that serves one API in front of several model accounts.
  Paths below are under \<open>src/apps/api/src/services/\<close> unless they start with \<open>packages/\<close>, \<open>providers/\<close> or \<open>middleware/\<close>.

  \<^bold>\<open>The program.\<close> A request presents a router key. The verifier resolves it to a scope and the limiter
  meters it. Selection reads a snapshot (accounts of the catalog with the health store laid over them),
  resolves the scope to pool members, filters them, orders them by the pool's policy, applies the
  session's binding, and answers with an ordered list of candidates or a typed refusal. The chain
  tries the candidates: it holds the probe of a recovering account, dispatches, classifies a failure,
  folds it into the answer, reports to the health store (a circuit breaker and quota evidence per
  account), and plans the next attempt. A successful answer is relayed as an event stream, and what
  happened is queued for the usage table. The admin plane has its own logins and sessions.

  \<^bold>\<open>Foundations.\<close>
  \<^item> \<open>Prelude\<close>: JavaScript arithmetic (remainder, \<open>Math.round\<close>), list lemmas, and the locales
    \<open>invariant_machine\<close> and \<open>kept_machine\<close>, through which every state machine below gets its
    invariants over arbitrary event sequences.
  \<^item> \<open>Js_Map\<close> (\<open>Map\<close> as an association list in insertion order, locale \<open>keyed_store\<close>), \<open>Js_Sort\<close> (stable
    sort, locale \<open>js_comparator\<close>), \<open>Js_Text\<close> (ISO dates, JSON strings, regular expressions by derivatives).
  \<^item> \<open>Domain\<close>, \<open>Routing_Types\<close>: the vocabulary of \<open>packages/core\<close>, \<open>routing/types.ts\<close> and \<open>routing/result.ts\<close>.

  \<^bold>\<open>Routing (\<open>routing/\<close>), pure functions.\<close>
  \<^item> \<open>Breaker\<close> (\<open>breaker.ts\<close>, \<open>backoff.ts\<close>, \<open>credential-rejection.ts\<close>): transitions, phases, backoff. The
    states are never conflated, a cooldown is never shortened, the threshold is exact.
  \<^item> \<open>Quota\<close> (\<open>quota.ts\<close>, \<open>quota-evidence.ts\<close>, \<open>plan-reset.ts\<close>): merging readings is independent of their order;
    \<open>Recovery_Gate\<close> (\<open>recovery-filter.ts\<close>, \<open>exhausted-retest.ts\<close>, \<open>cooldown-recheck.ts\<close>) and
    \<open>Exhausted_Retest\<close> (\<open>src/apps/api/src/scheduler/tasks/exhausted-retest.ts\<close>): the task refines one clock per
    account; re-tests are spaced and never stop, whatever is refused, throws or is aborted.
  \<^item> \<open>Model_Resolution\<close> (\<open>model.ts\<close>, \<open>context-tag.ts\<close>, \<open>model-family.ts\<close>), \<open>Candidate_Filter\<close> (\<open>filter.ts\<close>): eligible
    and dropped members partition the input, each drop with its true reason.
  \<^item> \<open>Key_Scope\<close> (\<open>scope.ts\<close>) against the specification of what a key admits; \<open>Rendezvous\<close> (\<open>hash.ts\<close>, on
    32-bit words); \<open>Policies\<close> and \<open>Policy_Rules\<close> (\<open>policies/\<close>): each policy permutes its input and is
    proportional, fair or minimally disruptive as its comment promises.
  \<^item> \<open>Session_Binding\<close> (\<open>binding.ts\<close>), \<open>No_Candidates\<close> (\<open>no-candidates.ts\<close>), \<open>Selection\<close> (\<open>select.ts\<close>): selection
    stays in scope, is complete, refuses only when nobody can serve and with the right status.
  \<^item> \<open>Failover\<close> (\<open>failover.ts\<close>): which attempt is next.

  \<^bold>\<open>Data plane (\<open>dataplane/\<close>), explicit state.\<close>
  \<^item> \<open>Health_Store\<close>, \<open>Health_Rules\<close> (\<open>health*.ts\<close>): every operation of the store is an event; one probe at a
    time, a success never erases a newer failure, an attempt of an older generation is mute, a
    standing verdict leaves only through recovery.
  \<^item> \<open>Chain_Error\<close>, \<open>Chain\<close>, \<open>Chain_Rules\<close> (\<open>chain*.ts\<close>, \<open>probe.ts\<close>, \<open>attempt-lifetime.ts\<close>, with the outcome
    tables of \<open>Usage_Outcomes\<close>): \<open>runChain\<close> as a loop over passes; the environment (what each dispatch,
    body and preparation answers, and when a shutdown falls, inside a dispatch or an overload pause) is
    an argument. It always answers, its attempts are bounded, each accounted for by its rows (a shutdown
    in a pause writes one more), and it returns the probes and in-flight counts it took, but for the
    probe of an account whose preparation is cancelled.
  \<^item> \<open>Snapshot\<close> (\<open>snapshot.ts\<close>, \<open>rotation.ts\<close>): the join of catalog and health; the root theory proves that what
    the health store knows decides who is offered.
  \<^item> \<open>Snapshot_Refresh\<close> (\<open>snapshots/refresh.ts\<close>): reads, callbacks and waiting callers interleave; a caller told that
    the refresh is done finds its own mutation installed, and two reads are enough for it.
  \<^item> \<open>Rate_Limiter\<close> (\<open>limits.ts\<close>) refines the list of accepted requests of the last minute.
  \<^item> \<open>Router_Key\<close> (\<open>packages/core/src/ids.ts\<close>, \<open>auth/presented.ts\<close>), \<open>Ttl_Cache\<close> (\<open>auth/cache.ts\<close>, locale
    \<open>expiring_cache\<close>), \<open>Key_Verifier\<close> (\<open>auth/verifier.ts\<close>): the verifier suspends at its loads, so each
    continuation is a step and events interleave freely; after an invalidation no load begun before
    it is served, and what is served is a live key whose digest was presented.

  \<^bold>\<open>Providers (\<open>providers/\<close>).\<close>
  \<^item> \<open>Js_Number\<close> (\<open>Number\<close> of a string), \<open>Rate_Limit_Headers\<close> (\<open>rate-limit/duration.ts\<close>, \<open>rate-limit/parse.ts\<close>):
    durations are read back exactly.
  \<^item> \<open>Kimi_Wording\<close> (\<open>drivers/kimi.ts\<close>, patterns with word boundaries), \<open>Failure_Classification\<close>
    (\<open>failure/classify.ts\<close>, \<open>drivers/compatible-rules.ts\<close>, the rule lists of the eighteen HTTP drivers and the
    rate-limit parsers some of them have): a verdict lands in the breaker as its kind says, a stated
    \<open>Retry-After\<close> is honoured to the second, a throttle is never read as a dead balance.

  \<^bold>\<open>Streams, records and the admin plane.\<close>
  \<^item> \<open>Sse\<close> (\<open>translate/sse/\<close>): the incremental reader on UTF-16 code units inverts the encoder however the
    bytes are cut into non-empty chunks.
  \<^item> \<open>Usage_Queue\<close> (\<open>usage/queue.ts\<close>, locale \<open>shedding_queue\<close>), \<open>Usage_Recorder\<close> (\<open>usage/recorder.ts\<close>,
    \<open>shutdown/writer-lifecycle.ts\<close>): every record offered is written, counted as lost, or still held.
  \<^item> \<open>Writer_Lifecycle\<close> (\<open>shutdown/writer-lifecycle.ts\<close> in general, locales \<open>drained_writer\<close> and \<open>lifecycle_kept\<close>),
    \<open>Status_Writer\<close> (\<open>dataplane/status-writer.ts\<close>), \<open>Quota_Writer\<close> (\<open>dataplane/quota-writer.ts\<close>): no verdict and no
    kind of quota evidence is lost to failed writes, overlap or shutdown, and evidence keeps the intent it was
    observed under.
  \<^item> \<open>Login_Throttle\<close> (\<open>admin-auth/throttle.ts\<close>, \<open>admin-auth/config.ts\<close>): attempts of an address are metered.
    \<open>Admin_Session\<close> (\<open>admin-auth/sessionStore.ts\<close>, \<open>sessionToken.ts\<close>, \<open>csrf.ts\<close>, \<open>apiToken.ts\<close>, \<open>service.ts\<close>,
    \<open>middleware/adminAuth.ts\<close>): interleaved requests are let in only by a login, before its absolute
    expiry; logout is final; a router key is never an admin credential.
  \<^item> \<open>Credential_Envelope\<close> (\<open>crypto/envelope.ts\<close>, \<open>crypto/cipher.ts\<close>): what was encrypted is decrypted, with
    AES-GCM as an argument.

  \<^bold>\<open>Conventions.\<close> Instants and durations in milliseconds are integers; a source value that may be fractional,
  \<open>NaN\<close> or infinite is a \<open>js_number\<close>, a rational or a real. Asynchronous code is cut at its \<open>await\<close>s into
  steps over a record, and a run is any list of events. Clocks, random bytes, digests, upstream answers
  and database rows are arguments. Only the chain uses fuel: \<open>chain_fuel\<close> counts the two passes a
  candidate can take, the in-place and overload budgets and the last pass, and \<open>chain_always_answers\<close>
  shows that it is never exhausted.

  \<^bold>\<open>Not modelled.\<close> The dialect translators and the body scanner (JSON rewriting against schemas of a
  third-party validator); the requests of the provider drivers, the subscription client and the relay
  (HTTP, child processes, web streams), whose classified outcomes are the environment of the chain; the
  repositories (SQL); token refresh and account administration (exchanges with providers); cost tables
  and usage reports; the scheduler, composition, configuration, routes, logs and metrics; the web
  console.
\<close>

section \<open>Across components\<close>

text \<open>
  (C5) What the health store knows decides who is offered. For every account selection offers on the
  snapshot built from the catalog and the health store at an instant: the operator has not blocked it
  (disabled, sign-in needed, out of credits) and no healthier breaker can promote it past that; its
  breaker has no standing verdict; if it is cooling down, either its reset has passed and no other
  request holds its probe, or it has no known reset and holds a recovery permit.
\<close>

theorem health_governs_selection:
  assumes "buildSnapshot accounts pools now rotation h = (snapshot, h')"
    and "list_all (\<lambda>a. acc_id (ra_snapshot a) = ra_id a) accounts"
    and "selectAccounts snapshot request opts = SelectionSuccess cs d" and "c \<in> set cs"
  shows "\<exists>a \<in> set accounts. ra_id a = sa_id c \<and> may_be_tried (ra_snapshot a) (stateOf h' (ra_id a)) now"
proof -
  have view: "rt_accounts snapshot = map (\<lambda>a. overlayHealth (ra_snapshot a) (stateOf h' (ra_id a))) accounts" "rt_now snapshot = now"
    using assms(1) by (auto simp: buildSnapshot_def Let_def)
  obtain a where a: "a \<in> set accounts" "sa_account c = overlayHealth (ra_snapshot a) (stateOf h' (ra_id a))"
    using offered_sound [OF assms(3,4)] by (auto simp: view(1))
  then have "may_be_tried (ra_snapshot a) (stateOf h' (ra_id a)) now"
    using offered_sound [OF assms(3,4)] view(2) by (auto intro: overlay_admissible)
  moreover have "ra_id a = sa_id c" using a assms(2) by (auto simp: list_all_iff)
  ultimately show ?thesis using a(1) by blast
qed

definition sample_routable :: "account_id \<Rightarrow> routable_account" where
  "sample_routable i =
     \<lparr>ra_id = i, ra_lifecycleVersion = 0, ra_healthRecoveryVersion = 0, ra_authRecoveryVersion = 0,
      ra_snapshot = plain_account i AnthropicApi, ra_authMaterial = None\<rparr>"

definition sample_health :: health_store where
  "sample_health = store_recordFailure demo_options ''a'' (demo_failure RateLimited) 1000 NO_BREAKER_OPTIONS (Fin 0) None createHealthStore"

theorem health_governs_selection_witness:
  "\<exists>cs d. selectAccounts (fst (buildSnapshot [sample_routable ''a'', sample_routable ''b''] [] 2000 None sample_health))
       (sample_request ScopeAll None) NO_OPTIONS = SelectionSuccess cs d \<and> map (\<lambda>c. sa_id c) cs = [''b''] \<and>
     (\<forall>c \<in> set cs. \<exists>a \<in> set [sample_routable ''a'', sample_routable ''b'']. ra_id a = sa_id c)"
proof -
  let ?accounts = "[sample_routable ''a'', sample_routable ''b'']"
  let ?view = "buildSnapshot ?accounts [] 2000 None sample_health"
  have "offered (selectAccounts (fst ?view) (sample_request ScopeAll None) NO_OPTIONS) = Some [''b'']" by code_simp
  then obtain cs d where ok: "selectAccounts (fst ?view) (sample_request ScopeAll None) NO_OPTIONS = SelectionSuccess cs d"
      and ids: "map (\<lambda>c. sa_id c) cs = [''b'']" by (auto dest!: offered_Some)
  have "\<exists>a \<in> set ?accounts. ra_id a = sa_id c" if "c \<in> set cs" for c
    using health_governs_selection [OF prod.collapse [symmetric] _ ok that]
    by (auto simp: sample_routable_def plain_account_def)
  then have all: "\<forall>c \<in> set cs. \<exists>a \<in> set ?accounts. ra_id a = sa_id c" by (intro ballI)
  show ?thesis by (intro exI conjI) (rule ok, rule ids, rule all)
qed

end
